(* ===== verification/Prelude.thy ===== *)
theory Prelude
  imports Complex_Main
    "HOL-Library.Char_ord"
    "HOL-Library.List_Lexorder"
    "HOL-Library.Product_Lexorder"
    "HOL-Library.Signed_Division"
    "HOL-Library.Word"
begin

text \<open>
  What every component shares: Rust's integer arithmetic (\<open>i64\<close> as \<open>int\<close> with explicit
  range checks), the collections of simplification rules the component theories use, and the images
  and lookups of partial maps as sets.
\<close>

named_theorems i64_simps \<open>unfolding rules for 64-bit range checks\<close>
named_theorems table_simps \<open>characteristic equations of table operations\<close>

section \<open>Machine integers\<close>

text \<open>
  An \<open>i64\<close> is an \<open>int\<close> in range; Rust's \<open>checked_add\<close> is \<open>None\<close> where the exact sum
  leaves the range, and \<open>i64::try_from\<close> on an \<open>i128\<close> is the range check.
\<close>

definition i64_min :: int where
  "i64_min = - (2 ^ 63)"

definition i64_max :: int where
  "i64_max = 2 ^ 63 - 1"

definition in_i64 :: "int \<Rightarrow> bool" where
  "in_i64 x \<longleftrightarrow> i64_min \<le> x \<and> x \<le> i64_max"

definition i64_of :: "int \<Rightarrow> int option" where
  "i64_of x = (if in_i64 x then Some x else None)"

definition checked_add :: "int \<Rightarrow> int \<Rightarrow> int option" where
  "checked_add a b = i64_of (a + b)"

definition clamp :: "int \<Rightarrow> int \<Rightarrow> int \<Rightarrow> int" where
  "clamp lo hi x = (if x < lo then lo else if hi < x then hi else x)"

text \<open>A UUID is its 128 bits; the byte order of the stored blob is the numeric order.\<close>

type_synonym uuid = "128 word"

lemmas i64_defs [i64_simps] = i64_min_def i64_max_def in_i64_def i64_of_def checked_add_def

lemma i64_of_Some [simp]: "i64_of x = Some y \<longleftrightarrow> y = x \<and> in_i64 x"
  by (auto simp: i64_of_def)

lemma i64_of_None [simp]: "i64_of x = None \<longleftrightarrow> \<not> in_i64 x"
  by (auto simp: i64_of_def)

lemma checked_add_Some [simp]: "checked_add a b = Some c \<longleftrightarrow> c = a + b \<and> in_i64 (a + b)"
  by (simp add: checked_add_def)

lemma checked_add_None [simp]: "checked_add a b = None \<longleftrightarrow> \<not> in_i64 (a + b)"
  by (simp add: checked_add_def)

lemma in_i64_between: "0 \<le> x \<Longrightarrow> x \<le> y \<Longrightarrow> in_i64 y \<Longrightarrow> in_i64 x"
  by (auto simp: i64_simps)

lemma clamp_range: "lo \<le> hi \<Longrightarrow> lo \<le> clamp lo hi x \<and> clamp lo hi x \<le> hi"
  by (auto simp: clamp_def)

lemma clamp_id [simp]: "lo \<le> x \<Longrightarrow> x \<le> hi \<Longrightarrow> clamp lo hi x = x"
  by (auto simp: clamp_def)

lemma clamp_in_i64: "in_i64 lo \<Longrightarrow> in_i64 hi \<Longrightarrow> lo \<le> hi \<Longrightarrow> in_i64 (clamp lo hi x)"
  by (auto simp: in_i64_def clamp_def)

section \<open>Options as sets\<close>

text \<open>\<open>filter_map\<close> of a partial lookup over a set of keys.\<close>

definition image_filter :: "('a \<Rightarrow> 'b option) \<Rightarrow> 'a set \<Rightarrow> 'b set" where
  "image_filter f A = (\<Union>a \<in> A. set_option (f a))"

definition lookup_set :: "('k \<rightharpoonup> 'v set) \<Rightarrow> 'k \<Rightarrow> 'v set" where
  "lookup_set m k = (case m k of None \<Rightarrow> {} | Some s \<Rightarrow> s)"

lemma in_image_filter [simp]: "b \<in> image_filter f A \<longleftrightarrow> (\<exists>a \<in> A. f a = Some b)"
  by (auto simp: image_filter_def)

lemma image_filter_insert: "image_filter f (insert a A) = set_option (f a) \<union> image_filter f A"
  by (simp add: image_filter_def)

lemma image_filter_empty [simp]: "image_filter f {} = {}"
  by (simp add: image_filter_def)

end
