(* ===== verification/App_Error.thy ===== *)
theory App_Error
  imports Prelude
begin

text \<open>
  The error type of the daemon (\<open>src/error.rs\<close>) and its rendering as an HTTP response.
  A fallible operation of the code returns \<open>app_error + 'a\<close>, \<open>Inl\<close> for the error.
\<close>

datatype app_error =
    BadRequest string
  | Unauthorized string
  | NotFound string
  | Unavailable string
  | Upstream string
  | Database string
  | Internal string

type_synonym 'a app_result = "app_error + 'a"

fun error_status :: "app_error \<Rightarrow> nat" where
  "error_status (BadRequest _) = 400"
| "error_status (Unauthorized _) = 401"
| "error_status (NotFound _) = 404"
| "error_status (Unavailable _) = 503"
| "error_status (Upstream _) = 502"
| "error_status (Database _) = 500"
| "error_status (Internal _) = 500"

fun error_code :: "app_error \<Rightarrow> string" where
  "error_code (BadRequest _) = ''bad_request''"
| "error_code (Unauthorized _) = ''unauthorized''"
| "error_code (NotFound _) = ''not_found''"
| "error_code (Unavailable _) = ''unavailable''"
| "error_code (Upstream _) = ''upstream_error''"
| "error_code (Database _) = ''database_error''"
| "error_code (Internal _) = ''internal_error''"

text \<open>The \<open>Display\<close> text derived by the \<open>#[error(...)]\<close> attributes.\<close>

fun error_text :: "app_error \<Rightarrow> string" where
  "error_text (BadRequest m) = ''bad request: '' @ m"
| "error_text (Unauthorized m) = ''unauthorized: '' @ m"
| "error_text (NotFound m) = ''not found: '' @ m"
| "error_text (Unavailable m) = ''temporarily unavailable: '' @ m"
| "error_text (Upstream m) = ''upstream error: '' @ m"
| "error_text (Database m) = ''database error: '' @ m"
| "error_text (Internal m) = ''internal error: '' @ m"

record error_response =
  resp_status :: nat
  resp_code :: string
  resp_message :: string

definition into_response :: "app_error \<Rightarrow> error_response" where
  "into_response e = \<lparr>resp_status = error_status e, resp_code = error_code e, resp_message = error_text e\<rparr>"

text \<open>The \<open>?\<close> operator, \<open>Option::ok_or\<close>, and the conversion of an \<open>anyhow\<close> error.\<close>

fun app_bind :: "('e + 'a) \<Rightarrow> ('a \<Rightarrow> 'e + 'b) \<Rightarrow> 'e + 'b" where
  "app_bind (Inl e) f = Inl e"
| "app_bind (Inr x) f = f x"

fun ok_or :: "'a option \<Rightarrow> 'e \<Rightarrow> 'e + 'a" where
  "ok_or None e = Inl e"
| "ok_or (Some x) e = Inr x"

fun from_anyhow :: "(string + 'a) \<Rightarrow> 'a app_result" where
  "from_anyhow (Inl m) = Inl (Internal m)"
| "from_anyhow (Inr x) = Inr x"

lemma app_bind_Inr [simp]: "app_bind r f = Inr y \<longleftrightarrow> (\<exists>x. r = Inr x \<and> f x = Inr y)"
  by (cases r) auto

lemma from_anyhow_Inr [simp]: "from_anyhow r = Inr x \<longleftrightarrow> r = Inr x"
  by (cases r) auto

lemma ok_or_Inr [simp]: "ok_or v e = Inr x \<longleftrightarrow> v = Some x"
  by (cases v) auto

lemma error_status_is_error: "400 \<le> error_status e \<and> error_status e \<le> 599"
  by (cases e) auto

end
