(* ===== verification/Pricing.thy ===== *)
theory Pricing
  imports App_Error
begin

text \<open>
  The API cost estimate of \<open>src/pricing.rs\<close>: the rate card, the checked 64-bit cost of one
  token category, the cost of a request and the five-way classification of its usage
  counters.  Counters are \<open>i64\<close> values (\<open>int\<close> in range); products are formed in \<open>i128\<close>
  (exact here) and must fit an \<open>i64\<close>.
\<close>

section \<open>Data\<close>

record usage_data =
  input_tokens :: "int option"
  output_tokens :: "int option"
  cached_input_tokens :: "int option"
  cache_write_input_tokens :: "int option"
  reasoning_tokens :: "int option"
  effective_model :: "string option"
  effective_service_tier :: "string option"

definition usage_default :: usage_data where
  "usage_default = \<lparr>input_tokens = None, output_tokens = None, cached_input_tokens = None,
     cache_write_input_tokens = None, reasoning_tokens = None, effective_model = None,
     effective_service_tier = None\<rparr>"

datatype api_cost_status = Complete | MissingCacheWrite | UnknownModel | MissingUsage | InvalidUsage

fun cost_status_str :: "api_cost_status \<Rightarrow> string" where
  "cost_status_str Complete = ''complete''"
| "cost_status_str MissingCacheWrite = ''missing_cache_write''"
| "cost_status_str UnknownModel = ''unknown_model''"
| "cost_status_str MissingUsage = ''missing_usage''"
| "cost_status_str InvalidUsage = ''invalid_usage''"

fun is_priced :: "api_cost_status \<Rightarrow> bool" where
  "is_priced Complete = True"
| "is_priced MissingCacheWrite = True"
| "is_priced _ = False"

record api_cost_estimate =
  cost_status :: api_cost_status
  lower_nano_usd :: "int option"
  upper_nano_usd :: "int option"

definition unpriced :: "api_cost_status \<Rightarrow> api_cost_estimate" where
  "unpriced s = \<lparr>cost_status = s, lower_nano_usd = None, upper_nano_usd = None\<rparr>"

definition priced :: "api_cost_status \<Rightarrow> int \<Rightarrow> int \<Rightarrow> api_cost_estimate" where
  "priced s lo hi = \<lparr>cost_status = s, lower_nano_usd = Some lo, upper_nano_usd = Some hi\<rparr>"

record token_rates =
  rate_input :: int
  rate_cached_input :: int
  rate_cache_write_input :: int
  rate_output :: int

definition sol_rates :: token_rates where
  "sol_rates = \<lparr>rate_input = 5000, rate_cached_input = 500, rate_cache_write_input = 6250,
     rate_output = 30000\<rparr>"

definition terra_rates :: token_rates where
  "terra_rates = \<lparr>rate_input = 2500, rate_cached_input = 250, rate_cache_write_input = 3125,
     rate_output = 15000\<rparr>"

definition luna_rates :: token_rates where
  "luna_rates = \<lparr>rate_input = 1000, rate_cached_input = 100, rate_cache_write_input = 1250,
     rate_output = 6000\<rparr>"

definition min_cacheable_input_tokens :: int where
  "min_cacheable_input_tokens = 1024"

definition long_context_input_threshold :: int where
  "long_context_input_threshold = 272000"

definition pricing_version :: string where
  "pricing_version = ''openai-standard-2026-07-22''"

section \<open>Cost of a request\<close>

definition token_rates :: "string \<Rightarrow> token_rates option" where
  "token_rates model =
     (if model = ''gpt-5.6'' \<or> model = ''gpt-5.6-sol'' then Some sol_rates
      else if model = ''gpt-5.6-terra'' then Some terra_rates
      else if model = ''gpt-5.6-luna'' then Some luna_rates
      else None)"

text \<open>\<open>checked_div\<close> on \<open>i128\<close> truncates towards zero and is \<open>None\<close> for a zero divisor.\<close>

definition checked_category_cost :: "int \<Rightarrow> int \<Rightarrow> int \<Rightarrow> int \<Rightarrow> int option" where
  "checked_category_cost tokens rate num den =
     (let numerator = tokens * rate * num
      in if den = 0 then None else i64_of (numerator sdiv den))"

definition calculate_cost ::
  "token_rates \<Rightarrow> int \<Rightarrow> int \<Rightarrow> int \<Rightarrow> int \<Rightarrow> bool \<Rightarrow> int option" where
  "calculate_cost rates uncached cached cache_write output long_context =
     (let input_multiplier = (if long_context then 2 else 1);
          (output_num, output_den) = (if long_context then (3, 2) else (1, 1))
      in Option.bind (checked_category_cost uncached (rate_input rates) input_multiplier 1) (\<lambda>uncached_cost.
         Option.bind (checked_category_cost cached (rate_cached_input rates) input_multiplier 1) (\<lambda>cached_cost.
         Option.bind (checked_category_cost cache_write (rate_cache_write_input rates) input_multiplier 1) (\<lambda>write_cost.
         Option.bind (checked_category_cost output (rate_output rates) output_num output_den) (\<lambda>output_cost.
         Option.bind (checked_add uncached_cost cached_cost) (\<lambda>s1.
         Option.bind (checked_add s1 write_cost) (\<lambda>s2.
         checked_add s2 output_cost)))))))"

definition is_none_or :: "('a \<Rightarrow> bool) \<Rightarrow> 'a option \<Rightarrow> bool" where
  "is_none_or p x = (case x of None \<Rightarrow> True | Some v \<Rightarrow> p v)"

definition is_some_and :: "('a \<Rightarrow> bool) \<Rightarrow> 'a option \<Rightarrow> bool" where
  "is_some_and p x = (case x of None \<Rightarrow> False | Some v \<Rightarrow> p v)"

text \<open>The two ways the request is priced once its counters are validated.\<close>

definition price_known_write ::
  "token_rates \<Rightarrow> int \<Rightarrow> int \<Rightarrow> int \<Rightarrow> int \<Rightarrow> bool \<Rightarrow> api_cost_estimate" where
  "price_known_write rates input cached output cache_write long_context =
     (if cache_write < 0 \<or> is_none_or (\<lambda>accounted. accounted > input) (checked_add cached cache_write)
      then unpriced InvalidUsage
      else (case calculate_cost rates (input - cached - cache_write) cached cache_write output long_context of
              Some cost \<Rightarrow> priced Complete cost cost
            | None \<Rightarrow> unpriced InvalidUsage))"

definition price_unknown_write ::
  "token_rates \<Rightarrow> int \<Rightarrow> int \<Rightarrow> int \<Rightarrow> bool \<Rightarrow> api_cost_estimate" where
  "price_unknown_write rates input cached output long_context =
     (let potentially_written = input - cached;
          lower = calculate_cost rates potentially_written cached 0 output long_context;
          upper = calculate_cost rates 0 cached potentially_written output long_context
      in case (lower, upper) of
           (Some l, Some u) \<Rightarrow> priced MissingCacheWrite l u
         | _ \<Rightarrow> unpriced InvalidUsage)"

definition estimate_with_rates :: "token_rates \<Rightarrow> usage_data \<Rightarrow> api_cost_estimate" where
  "estimate_with_rates rates usage =
     (case (input_tokens usage, output_tokens usage, cached_input_tokens usage) of
        (Some input, Some output, Some cached) \<Rightarrow>
          if input < 0 \<or> output < 0 \<or> cached < 0 \<or> cached > input then unpriced InvalidUsage
          else if input < min_cacheable_input_tokens
               \<and> (cached \<noteq> 0 \<or> is_some_and (\<lambda>w. w \<noteq> 0) (cache_write_input_tokens usage))
          then unpriced InvalidUsage
          else (let cache_write = (if input < min_cacheable_input_tokens then Some 0
                                   else cache_write_input_tokens usage);
                    long_context = input > long_context_input_threshold
                in case cache_write of
                     Some w \<Rightarrow> price_known_write rates input cached output w long_context
                   | None \<Rightarrow> price_unknown_write rates input cached output long_context)
      | _ \<Rightarrow> unpriced MissingUsage)"

definition estimate_standard_api_cost :: "string option \<Rightarrow> usage_data \<Rightarrow> api_cost_estimate" where
  "estimate_standard_api_cost model usage =
     (case Option.bind model token_rates of
        None \<Rightarrow> unpriced UnknownModel
      | Some rates \<Rightarrow> estimate_with_rates rates usage)"

section \<open>Rate cards and exact cost\<close>

text \<open>What every published rate card satisfies: reading from the cache is cheapest, writing
  to it dearest.\<close>

definition rates_ok :: "token_rates \<Rightarrow> bool" where
  "rates_ok r \<longleftrightarrow> 0 \<le> rate_cached_input r \<and> rate_cached_input r \<le> rate_input r
     \<and> rate_input r \<le> rate_cache_write_input r \<and> 0 \<le> rate_output r \<and> even (rate_output r)"

text \<open>The abstract price: an exact integer, with no intermediate range check.\<close>

definition exact_cost :: "token_rates \<Rightarrow> int \<Rightarrow> int \<Rightarrow> int \<Rightarrow> int \<Rightarrow> bool \<Rightarrow> int" where
  "exact_cost r uncached cached cache_write output long =
     (if long then 2 else 1) * (uncached * rate_input r + cached * rate_cached_input r
                                + cache_write * rate_cache_write_input r)
     + (if long then output * rate_output r * 3 div 2 else output * rate_output r)"

lemma token_rates_ok: "token_rates m = Some r \<Longrightarrow> rates_ok r"
  by (auto simp: token_rates_def rates_ok_def sol_rates_def terra_rates_def luna_rates_def
      split: if_splits)

lemma sdiv_nonneg: "0 \<le> (a::int) \<Longrightarrow> 0 < b \<Longrightarrow> a sdiv b = a div b"
  by (simp add: signed_divide_int_def sgn_if)

lemma category_cost_exact:
  "0 \<le> t \<Longrightarrow> 0 \<le> r \<Longrightarrow> 0 \<le> n \<Longrightarrow> 0 < d \<Longrightarrow>
   checked_category_cost t r n d = i64_of (t * r * n div d)"
  by (simp add: checked_category_cost_def sdiv_nonneg)

text \<open>A chain of checked additions of non-negative terms succeeds exactly when the whole sum
  is in range.\<close>

lemma checked_sum_nonneg:
  assumes "0 \<le> a" "0 \<le> b" "0 \<le> c" "0 \<le> d"
  shows "Option.bind (i64_of a) (\<lambda>a'. Option.bind (i64_of b) (\<lambda>b'. Option.bind (i64_of c) (\<lambda>c'.
           Option.bind (i64_of d) (\<lambda>d'. Option.bind (checked_add a' b') (\<lambda>s1.
           Option.bind (checked_add s1 c') (\<lambda>s2. checked_add s2 d'))))))
         = i64_of (a + b + c + d)"
proof (cases "in_i64 (a + b + c + d)")
  case True
  have "in_i64 a" "in_i64 b" "in_i64 c" "in_i64 d" "in_i64 (a + b)" "in_i64 (a + b + c)"
    using assms by (auto intro!: in_i64_between [OF _ _ True])
  then show ?thesis using True by (simp add: i64_of_def checked_add_def)
next
  case False
  then show ?thesis by (auto simp: i64_of_def checked_add_def)
qed

lemma calculate_cost_exact:
  assumes "rates_ok r" "0 \<le> u" "0 \<le> c" "0 \<le> w" "0 \<le> out"
  shows "calculate_cost r u c w out long = i64_of (exact_cost r u c w out long)"
proof -
  let ?m = "if long then 2 else 1 :: int"
  let ?o = "if long then out * rate_output r * 3 div 2 else out * rate_output r"
  have r: "0 \<le> rate_cached_input r" "0 \<le> rate_input r" "0 \<le> rate_cache_write_input r" "0 \<le> rate_output r"
    using assms(1) by (auto simp: rates_ok_def)
  have "calculate_cost r u c w out long =
      i64_of (u * rate_input r * ?m + c * rate_cached_input r * ?m
              + w * rate_cache_write_input r * ?m + ?o)"
    unfolding calculate_cost_def Let_def
    using assms r checked_sum_nonneg [of "u * rate_input r * ?m" "c * rate_cached_input r * ?m"
        "w * rate_cache_write_input r * ?m" ?o]
    by (cases long) (simp_all add: category_cost_exact)
  then show ?thesis by (simp add: exact_cost_def algebra_simps)
qed

lemma exact_cost_nonneg:
  "rates_ok r \<Longrightarrow> 0 \<le> u \<Longrightarrow> 0 \<le> c \<Longrightarrow> 0 \<le> w \<Longrightarrow> 0 \<le> out \<Longrightarrow> 0 \<le> exact_cost r u c w out long"
  by (auto simp: exact_cost_def rates_ok_def)

text \<open>Moving tokens from plain input to cache writes never lowers the price.\<close>

lemma exact_cost_shift:
  assumes "rates_ok r" "w \<le> w'"
  shows "exact_cost r (n - w) c w out long \<le> exact_cost r (n - w') c w' out long"
proof -
  have "w * (rate_cache_write_input r - rate_input r) \<le> w' * (rate_cache_write_input r - rate_input r)"
    using assms by (auto simp: rates_ok_def intro!: mult_right_mono)
  then show ?thesis by (auto simp: exact_cost_def algebra_simps)
qed

section \<open>Shape of an estimate\<close>

lemma priced_simps [simp]:
  "priced s l u = priced s' l' u' \<longleftrightarrow> s = s' \<and> l = l' \<and> u = u'"
  "unpriced s = unpriced s' \<longleftrightarrow> s = s'"
  "priced s l u \<noteq> unpriced s'" "unpriced s' \<noteq> priced s l u"
  "cost_status (priced s l u) = s" "cost_status (unpriced s) = s"
  "lower_nano_usd (priced s l u) = Some l" "upper_nano_usd (priced s l u) = Some u"
  "lower_nano_usd (unpriced s) = None" "upper_nano_usd (unpriced s) = None"
  by (simp_all add: priced_def unpriced_def)

text \<open>The counters a priced request must have, with the counter of cache writes that the
  sub-minimum rule forces to zero.\<close>

definition effective_cache_write :: "int \<Rightarrow> int option \<Rightarrow> int option" where
  "effective_cache_write input w = (if input < min_cacheable_input_tokens then Some 0 else w)"

definition counters_ok :: "int \<Rightarrow> int \<Rightarrow> int \<Rightarrow> int option \<Rightarrow> bool" where
  "counters_ok input output cached w \<longleftrightarrow>
     0 \<le> input \<and> 0 \<le> output \<and> 0 \<le> cached \<and> cached \<le> input
     \<and> (input < min_cacheable_input_tokens \<longrightarrow> cached = 0 \<and> (w = None \<or> w = Some 0))
     \<and> (case w of None \<Rightarrow> True | Some v \<Rightarrow> 0 \<le> v \<and> in_i64 (cached + v) \<and> cached + v \<le> input)"

lemma estimate_known_write:
  assumes "counters_ok i out c w" "effective_cache_write i w = Some v" "rates_ok r"
    and "input_tokens u = Some i" "output_tokens u = Some out" "cached_input_tokens u = Some c"
    and "cache_write_input_tokens u = w"
  shows "estimate_with_rates r u =
     (let cost = exact_cost r (i - c - v) c v out (i > long_context_input_threshold)
      in if in_i64 cost then priced Complete cost cost else unpriced InvalidUsage)"
proof -
  have v: "0 \<le> v" "c + v \<le> i" "in_i64 (c + v)"
    using assms(1,2) by (auto simp: counters_ok_def effective_cache_write_def in_i64_def i64_min_def
        i64_max_def min_cacheable_input_tokens_def split: if_splits option.splits)
  then show ?thesis
    using assms
    by (auto simp: estimate_with_rates_def price_known_write_def counters_ok_def
        effective_cache_write_def calculate_cost_exact is_none_or_def is_some_and_def checked_add_def
        i64_of_def Let_def split: option.splits if_splits)
qed

lemma estimate_unknown_write:
  assumes "counters_ok i out c None" "\<not> i < min_cacheable_input_tokens" "rates_ok r"
    and "input_tokens u = Some i" "output_tokens u = Some out" "cached_input_tokens u = Some c"
    and "cache_write_input_tokens u = None"
  shows "estimate_with_rates r u =
     (let long = i > long_context_input_threshold;
          lo = exact_cost r (i - c) c 0 out long; hi = exact_cost r 0 c (i - c) out long
      in if in_i64 lo \<and> in_i64 hi then priced MissingCacheWrite lo hi else unpriced InvalidUsage)"
  using assms
  by (auto simp: estimate_with_rates_def price_unknown_write_def counters_ok_def
      calculate_cost_exact is_some_and_def i64_of_def Let_def split: option.splits)

lemma estimate_invalid:
  assumes "\<not> counters_ok i out c w" "rates_ok r"
    and "input_tokens u = Some i" "output_tokens u = Some out" "cached_input_tokens u = Some c"
    and "cache_write_input_tokens u = w"
  shows "estimate_with_rates r u = unpriced InvalidUsage"
  using assms
  by (auto simp: estimate_with_rates_def price_known_write_def counters_ok_def is_none_or_def
      is_some_and_def checked_add_def i64_of_def Let_def split: option.splits if_splits)

text \<open>Inversion of a priced estimate: the one fact the properties below rest on.\<close>

lemma pricedE:
  assumes "estimate_standard_api_cost m u = priced s lo hi"
  obtains r i out c where "Option.bind m token_rates = Some r" "rates_ok r"
    "input_tokens u = Some i" "output_tokens u = Some out" "cached_input_tokens u = Some c"
    "counters_ok i out c (cache_write_input_tokens u)"
    "estimate_with_rates r u = priced s lo hi"
proof -
  obtain r where r: "Option.bind m token_rates = Some r" and e: "estimate_with_rates r u = priced s lo hi"
    using assms by (auto simp: estimate_standard_api_cost_def split: option.splits)
  have ok: "rates_ok r" using r by (cases m) (auto intro: token_rates_ok)
  from e obtain i out c where io: "input_tokens u = Some i" "output_tokens u = Some out"
      "cached_input_tokens u = Some c"
    by (auto simp: estimate_with_rates_def split: option.splits)
  then have "counters_ok i out c (cache_write_input_tokens u)"
    using estimate_invalid [OF _ ok io refl] e by auto
  with r ok io e that show thesis by blast
qed

lemma priced_bounds:
  assumes "estimate_standard_api_cost m u = priced s lo hi"
  shows "is_priced s \<and> 0 \<le> lo \<and> lo \<le> hi \<and> in_i64 lo \<and> in_i64 hi \<and> (s = Complete \<longrightarrow> lo = hi)"
proof -
  from assms obtain r i out c where ok: "rates_ok r"
    and io: "input_tokens u = Some i" "output_tokens u = Some out" "cached_input_tokens u = Some c"
    and cnt: "counters_ok i out c (cache_write_input_tokens u)"
    and e: "estimate_with_rates r u = priced s lo hi"
    by (rule pricedE)
  have nn: "0 \<le> out" "0 \<le> c" "0 \<le> i - c" using cnt by (auto simp: counters_ok_def)
  show ?thesis
  proof (cases "effective_cache_write i (cache_write_input_tokens u)")
    case (Some v)
    then have "0 \<le> v" "0 \<le> i - c - v"
      using cnt by (auto simp: counters_ok_def effective_cache_write_def split: if_splits option.splits)
    with e show ?thesis using estimate_known_write [OF cnt Some ok io refl] nn ok
      by (auto simp: Let_def intro!: exact_cost_nonneg split: if_splits)
  next
    case None
    then have n: "cache_write_input_tokens u = None" "\<not> i < min_cacheable_input_tokens"
      by (auto simp: effective_cache_write_def split: if_splits)
    with e cnt show ?thesis
      using estimate_unknown_write [of i out c r u] exact_cost_shift [OF ok, of 0 "i - c" "i - c" c out]
        nn ok io
      by (auto simp: Let_def intro!: exact_cost_nonneg split: if_splits)
  qed
qed

text \<open>An estimate is either priced, with both bounds, or has none.\<close>

lemma estimate_cases:
  obtains (priced) s lo hi where "estimate_standard_api_cost m u = priced s lo hi" "is_priced s" "0 \<le> lo" "lo \<le> hi"
    | (unpriced) s where "estimate_standard_api_cost m u = unpriced s" "\<not> is_priced s"
proof -
  have "(\<exists>s lo hi. estimate_standard_api_cost m u = priced s lo hi) \<or> (\<exists>s. estimate_standard_api_cost m u = unpriced s \<and> \<not> is_priced s)"
  proof -
    let ?ok = "\<lambda>e. (\<exists>s lo hi. e = priced s lo hi) \<or> (\<exists>s. e = unpriced s \<and> \<not> is_priced s)"
    have inv: "?ok (unpriced InvalidUsage)" "?ok (unpriced MissingUsage)" "?ok (unpriced UnknownModel)"
      using is_priced.simps by blast+
    have known: "?ok (price_known_write r i c out w l)" for r i c out w l
      unfolding price_known_write_def using inv(1) by (simp split: option.split)
    have unknown: "?ok (price_unknown_write r i c out l)" for r i c out l
      unfolding price_unknown_write_def Let_def using inv(1) by (simp split: option.split)
    have "?ok (estimate_with_rates r u)" for r
      unfolding estimate_with_rates_def Let_def using inv(1,2) known unknown by (simp split: option.split)
    then show ?thesis unfolding estimate_standard_api_cost_def using inv(3) by (simp split: option.split)
  qed
  then show thesis
  proof
    assume "\<exists>s lo hi. estimate_standard_api_cost m u = priced s lo hi"
    then obtain s lo hi where e: "estimate_standard_api_cost m u = priced s lo hi" by blast
    with priced_bounds [OF e] show thesis by (intro priced) auto
  qed (use unpriced in blast)
qed

section \<open>Properties\<close>

text \<open>C18: a priced estimate is a range: both bounds are present, non-negative, ordered, and fit
  the 64-bit columns they are stored in; a complete estimate is a single amount.\<close>

theorem priced_range:
  assumes "estimate_standard_api_cost m u = priced s lo hi"
  shows "is_priced s \<and> 0 \<le> lo \<and> lo \<le> hi \<and> in_i64 lo \<and> in_i64 hi \<and> (s = Complete \<longrightarrow> lo = hi)"
  using assms by (rule priced_bounds)

theorem priced_range_witness:
  "estimate_standard_api_cost (Some ''gpt-5.6-sol'')
     (usage_default\<lparr>input_tokens := Some 2000, cached_input_tokens := Some 200, output_tokens := Some 100\<rparr>)
     = priced MissingCacheWrite 12100000 14350000
   \<and> (12100000::int) \<le> 14350000 \<and> in_i64 14350000"
proof -
  have e: "estimate_standard_api_cost (Some ''gpt-5.6-sol'')
     (usage_default\<lparr>input_tokens := Some 2000, cached_input_tokens := Some 200, output_tokens := Some 100\<rparr>)
     = priced MissingCacheWrite 12100000 14350000"
    by code_simp
  then show ?thesis using priced_range [OF e] by simp
qed

text \<open>The counters are 64-bit integers.\<close>

definition usage_wf :: "usage_data \<Rightarrow> bool" where
  "usage_wf u \<longleftrightarrow> pred_option in_i64 (input_tokens u) \<and> pred_option in_i64 (output_tokens u)
     \<and> pred_option in_i64 (cached_input_tokens u) \<and> pred_option in_i64 (cache_write_input_tokens u)
     \<and> pred_option in_i64 (reasoning_tokens u)"

text \<open>
  When the cache-write counter is missing, the reported interval is exactly the range of
  the prices the request can have: every admissible counter gives a complete price inside it, and
  both ends are attained.\<close>

lemma missing_cache_write_bounds_tight:
  assumes "estimate_standard_api_cost m u = priced MissingCacheWrite lo hi" and "usage_wf u"
  shows "\<exists>i c. input_tokens u = Some i \<and> cached_input_tokens u = Some c \<and> c \<le> i
     \<and> (\<forall>w. 0 \<le> w \<and> c + w \<le> i \<longrightarrow>
          (\<exists>cost. estimate_standard_api_cost m (u\<lparr>cache_write_input_tokens := Some w\<rparr>)
                  = priced Complete cost cost \<and> lo \<le> cost \<and> cost \<le> hi))
     \<and> estimate_standard_api_cost m (u\<lparr>cache_write_input_tokens := Some 0\<rparr>) = priced Complete lo lo
     \<and> estimate_standard_api_cost m (u\<lparr>cache_write_input_tokens := Some (i - c)\<rparr>) = priced Complete hi hi"
proof -
  from assms(1) obtain r i out c where r: "Option.bind m token_rates = Some r" "rates_ok r"
    and io: "input_tokens u = Some i" "output_tokens u = Some out" "cached_input_tokens u = Some c"
    and cnt: "counters_ok i out c (cache_write_input_tokens u)"
    and e: "estimate_with_rates r u = priced MissingCacheWrite lo hi"
    by (rule pricedE)
  let ?long = "i > long_context_input_threshold"
  let ?p = "\<lambda>w. exact_cost r (i - c - w) c w out ?long"
  have eff: "effective_cache_write i (cache_write_input_tokens u) = None"
    using e estimate_known_write [OF cnt _ r(2) io refl]
    by (cases "effective_cache_write i (cache_write_input_tokens u)") (auto simp: Let_def split: if_splits)
  then have n: "cache_write_input_tokens u = None" "\<not> i < min_cacheable_input_tokens"
    by (auto simp: effective_cache_write_def split: if_splits)
  have b: "lo = ?p 0" "hi = ?p (i - c)" "in_i64 lo" "in_i64 hi"
    using e cnt n estimate_unknown_write [of i out c r u] r io by (auto simp: Let_def split: if_splits)
  have nn: "0 \<le> out" "0 \<le> c" "c \<le> i" "in_i64 i"
    using cnt assms(2) io by (auto simp: counters_ok_def usage_wf_def)
  have key: "estimate_standard_api_cost m (u\<lparr>cache_write_input_tokens := Some w\<rparr>)
        = priced Complete (?p w) (?p w) \<and> lo \<le> ?p w \<and> ?p w \<le> hi"
    if w: "0 \<le> w" "c + w \<le> i" for w
  proof -
    have bnd: "lo \<le> ?p w" "?p w \<le> hi"
      using exact_cost_shift [OF r(2), of 0 w "i - c" c out ?long]
        exact_cost_shift [OF r(2), of w "i - c" "i - c" c out ?long] b w by auto
    have "0 \<le> lo" using b(1) nn r(2) by (auto intro!: exact_cost_nonneg)
    then have rng: "in_i64 (?p w)" using bnd b(4) by (auto intro: in_i64_between)
    have "in_i64 (c + w)" using nn w by (auto intro: in_i64_between)
    then have "counters_ok i out c (Some w)" using w nn n by (auto simp: counters_ok_def)
    moreover have "effective_cache_write i (Some w) = Some w" using n by (simp add: effective_cache_write_def)
    ultimately have "estimate_with_rates r (u\<lparr>cache_write_input_tokens := Some w\<rparr>) = priced Complete (?p w) (?p w)"
      using estimate_known_write [of i out c "Some w" w r "u\<lparr>cache_write_input_tokens := Some w\<rparr>"] r io rng
      by (simp add: Let_def)
    with bnd r(1) show ?thesis by (simp add: estimate_standard_api_cost_def)
  qed
  from key [of 0] key [of "i - c"] nn b
  have ends: "estimate_standard_api_cost m (u\<lparr>cache_write_input_tokens := Some 0\<rparr>) = priced Complete lo lo"
    "estimate_standard_api_cost m (u\<lparr>cache_write_input_tokens := Some (i - c)\<rparr>) = priced Complete hi hi"
    by auto
  show ?thesis using io nn key ends by blast
qed

theorem missing_cache_write_bounds_tight_witness:
  "\<exists>i c. input_tokens (usage_default\<lparr>input_tokens := Some 2000, cached_input_tokens := Some 200,
        output_tokens := Some 100\<rparr>) = Some i \<and> c \<le> i \<and> c = (200::int)"
proof -
  let ?u = "usage_default\<lparr>input_tokens := Some 2000, cached_input_tokens := Some 200, output_tokens := Some 100\<rparr>"
  have e: "estimate_standard_api_cost (Some ''gpt-5.6-sol'') ?u = priced MissingCacheWrite 12100000 14350000"
    by code_simp
  have "usage_wf ?u" by (simp add: usage_wf_def usage_default_def i64_simps)
  from missing_cache_write_bounds_tight [OF e this] show ?thesis by (auto simp: usage_default_def)
qed

text \<open>C20: the chain of checked 64-bit operations computes the exact integer price: a request with a
  known model and present counters is priced by exact arithmetic, and is invalid precisely when its
  counters are inconsistent or a bound of the exact price does not fit 64 bits; nothing wraps.\<close>

theorem estimate_exact:
  assumes "token_rates model = Some r"
    and "input_tokens u = Some i" "output_tokens u = Some out" "cached_input_tokens u = Some c"
  shows "estimate_standard_api_cost (Some model) u =
    (let w = cache_write_input_tokens u; long = i > long_context_input_threshold;
         p = (\<lambda>v. exact_cost r (i - c - v) c v out long)
     in if \<not> counters_ok i out c w then unpriced InvalidUsage
        else case effective_cache_write i w of
               Some v \<Rightarrow> if in_i64 (p v) then priced Complete (p v) (p v) else unpriced InvalidUsage
             | None \<Rightarrow> if in_i64 (p 0) \<and> in_i64 (p (i - c)) then priced MissingCacheWrite (p 0) (p (i - c))
                       else unpriced InvalidUsage)"
proof -
  have ok: "rates_ok r" by (rule token_rates_ok [OF assms(1)])
  have est: "estimate_standard_api_cost (Some model) u = estimate_with_rates r u"
    using assms(1) by (simp add: estimate_standard_api_cost_def)
  show ?thesis
  proof (cases "counters_ok i out c (cache_write_input_tokens u)")
    case False
    then show ?thesis using estimate_invalid [OF False ok assms(2-4) refl] est by (simp add: Let_def)
  next
    case True
    show ?thesis
    proof (cases "effective_cache_write i (cache_write_input_tokens u)")
      case (Some v)
      then show ?thesis
        using estimate_known_write [OF True Some ok assms(2-4) refl] True est by (simp add: Let_def)
    next
      case None
      then have n: "cache_write_input_tokens u = None" "\<not> i < min_cacheable_input_tokens"
        by (auto simp: effective_cache_write_def split: if_splits)
      then show ?thesis
        using estimate_unknown_write [of i out c r u] True None ok assms est by (simp add: Let_def)
    qed
  qed
qed

theorem estimate_exact_witness:
  "estimate_standard_api_cost (Some ''gpt-5.6-luna'')
     (usage_default\<lparr>input_tokens := Some 273000, cached_input_tokens := Some 73000, output_tokens := Some 1000\<rparr>)
   = priced MissingCacheWrite 423600000 523600000"
proof -
  let ?u = "usage_default\<lparr>input_tokens := Some 273000, cached_input_tokens := Some 73000, output_tokens := Some 1000\<rparr>"
  have r: "token_rates ''gpt-5.6-luna'' = Some luna_rates" by (simp add: token_rates_def)
  have "input_tokens ?u = Some 273000" "output_tokens ?u = Some 1000" "cached_input_tokens ?u = Some 73000"
    by simp_all
  from estimate_exact [OF r this] show ?thesis
    by (simp add: Let_def counters_ok_def effective_cache_write_def usage_default_def
        min_cacheable_input_tokens_def long_context_input_threshold_def exact_cost_def luna_rates_def
        i64_simps)
qed

text \<open>
  The reasoning counter and the service tier never influence the estimate.\<close>

lemma estimate_ignores_telemetry:
  "estimate_standard_api_cost m (u\<lparr>reasoning_tokens := x, effective_service_tier := t, effective_model := e\<rparr>)
   = estimate_standard_api_cost m u"
  by (cases "Option.bind m token_rates"; cases "input_tokens u"; cases "output_tokens u";
      cases "cached_input_tokens u")
    (simp_all add: estimate_standard_api_cost_def estimate_with_rates_def)

end
