(* ===== verification/Rust_Text.thy ===== *)
theory Rust_Text
  imports Prelude
begin

text \<open>
  The operations of Rust's standard library on \<open>str\<close> that the daemon uses, on UTF-8 byte
  strings: \<open>len\<close> is \<open>length\<close> and counts bytes; \<open>trim\<close> strips the Unicode
  \<open>White_Space\<close> characters, here by their UTF-8 encodings; \<open>parse::<i64>\<close> accepts an
  optional sign and at least one digit and fails outside the 64-bit range.
\<close>

section \<open>Characters\<close>

definition byte :: "char \<Rightarrow> nat" where
  "byte c = of_char c"

definition is_ascii_digit :: "char \<Rightarrow> bool" where
  "is_ascii_digit c \<longleftrightarrow> 48 \<le> byte c \<and> byte c \<le> 57"

definition is_ascii_lower :: "char \<Rightarrow> bool" where
  "is_ascii_lower c \<longleftrightarrow> 97 \<le> byte c \<and> byte c \<le> 122"

definition is_ascii_upper :: "char \<Rightarrow> bool" where
  "is_ascii_upper c \<longleftrightarrow> 65 \<le> byte c \<and> byte c \<le> 90"

definition is_ascii_alphanumeric :: "char \<Rightarrow> bool" where
  "is_ascii_alphanumeric c \<longleftrightarrow> is_ascii_digit c \<or> is_ascii_lower c \<or> is_ascii_upper c"

definition to_ascii_lower :: "char \<Rightarrow> char" where
  "to_ascii_lower c = (if is_ascii_upper c then char_of (byte c + 32) else c)"

definition to_ascii_lowercase :: "string \<Rightarrow> string" where
  "to_ascii_lowercase s = map to_ascii_lower s"

definition eq_ignore_ascii_case :: "string \<Rightarrow> string \<Rightarrow> bool" where
  "eq_ignore_ascii_case a b \<longleftrightarrow> to_ascii_lowercase a = to_ascii_lowercase b"

section \<open>Prefixes, trimming\<close>

fun strip_prefix :: "string \<Rightarrow> string \<Rightarrow> string option" where
  "strip_prefix [] s = Some s"
| "strip_prefix (p # ps) [] = None"
| "strip_prefix (p # ps) (c # cs) = (if p = c then strip_prefix ps cs else None)"

definition starts_with :: "string \<Rightarrow> string \<Rightarrow> bool" where
  "starts_with s p \<longleftrightarrow> strip_prefix p s \<noteq> None"

text \<open>The UTF-8 encodings of the characters with the Unicode property \<open>White_Space\<close>.\<close>

definition white_space :: "string list" where
  "white_space = map (map char_of)
    ([[9], [10], [11], [12], [13], [32], [0xC2, 0x85], [0xC2, 0xA0], [0xE1, 0x9A, 0x80],
      [0xE2, 0x80, 0xA8], [0xE2, 0x80, 0xA9], [0xE2, 0x80, 0xAF], [0xE2, 0x81, 0x9F],
      [0xE3, 0x80, 0x80]] @ map (\<lambda>n. [0xE2, 0x80, n]) [0x80..<0x8B] :: nat list list)"

fun first_prefix :: "string list \<Rightarrow> string \<Rightarrow> string option" where
  "first_prefix [] s = None"
| "first_prefix (w # ws) s = (case strip_prefix w s of Some r \<Rightarrow> Some r | None \<Rightarrow> first_prefix ws s)"

lemma strip_prefix_Some: "strip_prefix p s = Some r \<longleftrightarrow> s = p @ r"
  by (induction p s rule: strip_prefix.induct) auto

lemma strip_prefix_append [simp]: "strip_prefix p (p @ r) = Some r"
  by (simp add: strip_prefix_Some)

lemma starts_with_append [simp]: "starts_with (p @ r) p"
  by (simp add: starts_with_def)

lemma first_prefix_shorter:
  "first_prefix ws s = Some r \<Longrightarrow> [] \<notin> set ws \<Longrightarrow> length r < length s"
  by (induction ws) (auto simp: strip_prefix_Some split: option.splits)

text \<open>\<open>trim_start\<close> over a given list of encodings; the trailing end is trimmed on the reversed
  bytes with the reversed encodings (an encoding that ends a UTF-8 string is its last character).\<close>

function strip_all :: "string list \<Rightarrow> string \<Rightarrow> string" where
  "strip_all ws s =
     (if [] \<in> set ws then s
      else case first_prefix ws s of Some r \<Rightarrow> strip_all ws r | None \<Rightarrow> s)"
  by pat_completeness auto
termination
  by (relation "measure (\<lambda>(ws, s). length s)") (auto dest: first_prefix_shorter)

declare strip_all.simps [simp del]

definition trim_start :: "string \<Rightarrow> string" where
  "trim_start s = strip_all white_space s"

definition trim_end :: "string \<Rightarrow> string" where
  "trim_end s = rev (strip_all (map rev white_space) (rev s))"

definition trim :: "string \<Rightarrow> string" where
  "trim s = trim_end (trim_start s)"

lemma strip_all_suffix: "\<exists>p. s = p @ strip_all ws s"
proof (induction ws s rule: strip_all.induct)
  case (1 ws s)
  show ?case
  proof (cases "[] \<in> set ws \<or> first_prefix ws s = None")
    case True
    then show ?thesis by (auto simp: strip_all.simps [of ws s])
  next
    case False
    then obtain r where r: "first_prefix ws s = Some r" "[] \<notin> set ws" by auto
    have "\<exists>q. s = q @ r" using r(1)
      by (induction ws) (auto simp: strip_prefix_Some split: option.splits)
    moreover have "\<exists>p. r = p @ strip_all ws r" using "1" r by auto
    moreover have "strip_all ws s = strip_all ws r" using r by (simp add: strip_all.simps [of ws s])
    ultimately show ?thesis by (metis append.assoc)
  qed
qed

lemma length_strip_all: "length (strip_all ws s) \<le> length s"
  by (metis strip_all_suffix length_append le_add2)

lemma length_trim: "length (trim s) \<le> length s"
  unfolding trim_def trim_end_def trim_start_def
  by (metis length_rev length_strip_all order_trans)

section \<open>Integers\<close>

fun digits_value :: "nat \<Rightarrow> string \<Rightarrow> nat option" where
  "digits_value acc [] = Some acc"
| "digits_value acc (c # cs) =
     (if is_ascii_digit c then digits_value (10 * acc + (byte c - 48)) cs else None)"

definition parse_digits :: "string \<Rightarrow> nat option" where
  "parse_digits s = (if s = [] then None else digits_value 0 s)"

definition parse_i64 :: "string \<Rightarrow> int option" where
  "parse_i64 s =
     (case s of
        [] \<Rightarrow> None
      | c # cs \<Rightarrow>
          if c = CHR ''-'' then Option.bind (parse_digits cs) (\<lambda>n. i64_of (- int n))
          else if c = CHR ''+'' then Option.bind (parse_digits cs) (\<lambda>n. i64_of (int n))
          else Option.bind (parse_digits s) (\<lambda>n. i64_of (int n)))"

lemma parse_i64_range: "parse_i64 s = Some n \<Longrightarrow> in_i64 n"
  by (auto simp: parse_i64_def bind_eq_Some_conv split: list.splits if_splits)

text \<open>A byte of the forms \<open>parse\<close> accepts is never white space, so trimming keeps it.\<close>

definition plain_byte :: "char \<Rightarrow> bool" where
  "plain_byte c \<longleftrightarrow> 33 \<le> byte c \<and> byte c \<le> 126"

lemma first_prefix_plain:
  assumes "plain_byte c" "\<And>w. w \<in> set ws \<Longrightarrow> w \<noteq> [] \<and> \<not> plain_byte (hd w)"
  shows "first_prefix ws (c # s) = None"
  using assms(2)
proof (induction ws)
  case (Cons w ws)
  then have "w \<noteq> []" "\<not> plain_byte (hd w)" by simp_all
  then obtain d ds where w: "w = d # ds" "\<not> plain_byte d" by (cases w) simp_all
  then have "d \<noteq> c" using assms(1) by auto
  then show ?case using w Cons by auto
qed simp

lemma white_space_hd:
  "\<forall>w \<in> set white_space. w \<noteq> [] \<and> \<not> plain_byte (hd w) \<and> \<not> plain_byte (last w)"
  by (simp add: white_space_def plain_byte_def byte_def upt_rec)

lemma strip_all_plain:
  assumes "plain_byte c" "\<And>w. w \<in> set ws \<Longrightarrow> w \<noteq> [] \<and> \<not> plain_byte (hd w)"
  shows "strip_all ws (c # s) = c # s"
  using first_prefix_plain [OF assms] by (simp add: strip_all.simps [of ws "c # s"])

lemma trim_plain: "list_all plain_byte s \<Longrightarrow> trim s = s"
proof -
  assume s: "list_all plain_byte s"
  have start: "trim_start s = s"
    using s white_space_hd
    by (cases s) (auto simp: trim_start_def strip_all.simps [of _ "[]"] strip_all_plain
        split: option.splits dest: first_prefix_shorter)
  have rv: "\<And>w. w \<in> set (map rev white_space) \<Longrightarrow> w \<noteq> [] \<and> \<not> plain_byte (hd w)"
    using white_space_hd by (auto simp: hd_rev)
  have "trim_end s = s"
  proof (cases s rule: rev_cases)
    case Nil
    then show ?thesis using rv
      by (auto simp: trim_end_def strip_all.simps [of _ "[]"] split: option.splits
          dest!: first_prefix_shorter)
  next
    case (snoc ys y)
    then have "plain_byte y" using s by simp
    then show ?thesis using snoc strip_all_plain [of y "map rev white_space" "rev ys"] rv by (simp add: trim_end_def)
  qed
  with start show ?thesis by (simp add: trim_def)
qed

lemma digits_value_plain: "digits_value a s = Some n \<Longrightarrow> list_all plain_byte s"
  by (induction s arbitrary: a) (auto simp: plain_byte_def is_ascii_digit_def split: if_splits)

lemma parse_digits_plain: "parse_digits s = Some n \<Longrightarrow> list_all plain_byte s"
  by (auto simp: parse_digits_def split: if_splits dest: digits_value_plain)

lemma parse_i64_plain: "parse_i64 s = Some n \<Longrightarrow> list_all plain_byte s"
proof (cases s)
  case (Cons c cs)
  assume "parse_i64 s = Some n"
  then consider "c = CHR ''-'' \<or> c = CHR ''+''" "list_all plain_byte cs" | "list_all plain_byte s"
    using Cons by (auto simp: parse_i64_def bind_eq_Some_conv split: if_splits dest: parse_digits_plain)
  then show ?thesis using Cons by cases (auto simp: plain_byte_def byte_def)
qed simp

lemma parse_i64_trim: "parse_i64 s = Some n \<Longrightarrow> parse_i64 (trim s) = Some n"
  by (simp add: trim_plain parse_i64_plain)

section \<open>Formatting\<close>

fun show_nat :: "nat \<Rightarrow> string" where
  "show_nat n = (if n < 10 then [char_of (48 + n)] else show_nat (n div 10) @ [char_of (48 + n mod 10)])"

declare show_nat.simps [simp del]

definition show_int :: "int \<Rightarrow> string" where
  "show_int i = (if i < 0 then CHR ''-'' # show_nat (nat (- i)) else show_nat (nat i))"

text \<open>\<open>'{x}'\<close> in a format string.\<close>

definition quoted :: "string \<Rightarrow> string" where
  "quoted s = CHR 0x27 # s @ [CHR 0x27]"

lemma digit_char: "d < 10 \<Longrightarrow> is_ascii_digit (char_of (48 + d)) \<and> byte (char_of (48 + d)) = 48 + d"
  by (simp add: is_ascii_digit_def byte_def)

lemma digits_value_append:
  "digits_value a (s @ t) = Option.bind (digits_value a s) (\<lambda>b. digits_value b t)"
  by (induction s arbitrary: a) auto

lemma digits_value_show: "digits_value 0 (show_nat n) = Some n"
proof (induction n rule: show_nat.induct)
  case (1 n)
  show ?case
  proof (cases "n < 10")
    case True
    then show ?thesis using digit_char [of n] by (simp add: show_nat.simps)
  next
    case False
    then show ?thesis using 1 digit_char [of "n mod 10"]
      by (subst show_nat.simps) (simp add: digits_value_append)
  qed
qed

lemma show_nat_hd: "show_nat n \<noteq> [] \<and> is_ascii_digit (hd (show_nat n))"
proof (induction n rule: show_nat.induct)
  case (1 n)
  then show ?case by (subst (1 2) show_nat.simps) (auto simp: digit_char)
qed

lemma parse_show_int: "in_i64 i \<Longrightarrow> parse_i64 (show_int i) = Some i"
proof (cases "i < 0")
  case True
  assume "in_i64 i"
  with True show ?thesis using show_nat_hd [of "nat (- i)"]
    by (simp add: show_int_def parse_i64_def parse_digits_def digits_value_show)
next
  case False
  assume r: "in_i64 i"
  obtain c cs where c: "show_nat (nat i) = c # cs" "is_ascii_digit c"
    using show_nat_hd [of "nat i"] by (cases "show_nat (nat i)") auto
  then have "c \<noteq> CHR ''-''" "c \<noteq> CHR ''+''" by (auto simp: is_ascii_digit_def byte_def)
  then show ?thesis using False r c(1) digits_value_show [of "nat i"]
    by (simp add: show_int_def parse_i64_def parse_digits_def)
qed

section \<open>Splitting\<close>

text \<open>\<open>str::split\<close> on one character and \<open>str::splitn\<close>.\<close>

fun split :: "char \<Rightarrow> string \<Rightarrow> string list" where
  "split d [] = [[]]"
| "split d (c # cs) =
     (if c = d then [] # split d cs
      else (case split d cs of [] \<Rightarrow> [[c]] | p # ps \<Rightarrow> (c # p) # ps))"

fun splitn :: "nat \<Rightarrow> char \<Rightarrow> string \<Rightarrow> string list" where
  "splitn 0 d s = []"
| "splitn (Suc 0) d s = [s]"
| "splitn (Suc (Suc n)) d [] = [[]]"
| "splitn (Suc (Suc n)) d (c # cs) =
     (if c = d then [] # splitn (Suc n) d cs
      else (case splitn (Suc (Suc n)) d cs of [] \<Rightarrow> [[c]] | p # ps \<Rightarrow> (c # p) # ps))"

definition nth_part :: "nat \<Rightarrow> string list \<Rightarrow> string option" where
  "nth_part n ps = (if n < length ps then Some (ps ! n) else None)"

lemma split_no_delim: "d \<notin> set s \<Longrightarrow> split d s = [s]"
  by (induction s) auto

lemma split_first: "d \<notin> set p \<Longrightarrow> split d (p @ d # s) = p # split d s"
  by (induction p) auto

lemma splitn_first: "d \<notin> set p \<Longrightarrow> splitn (Suc (Suc n)) d (p @ d # s) = p # splitn (Suc n) d s"
  by (induction p) auto

lemma split_nonempty [simp]: "split d s \<noteq> []"
  by (cases s) (auto split: list.splits)

end
