(* ===== verification/Json.thy ===== *)
theory Json
  imports Rust_Text
begin

text \<open>
  JSON values as the code matches on them (\<open>serde_json::Value\<close>): a number is an unsigned, a
  negative or a floating one, an object is its list of members.  The text parser itself is
  outside the repository and is a parameter of the definitions that call it.
\<close>

datatype number = PosInt nat | NegInt int | Float rat

datatype json =
    JNull
  | JBool bool
  | JNumber number
  | JString string
  | JArray "json list"
  | JObject "(string \<times> json) list"

fun number_as_i64 :: "number \<Rightarrow> int option" where
  "number_as_i64 (PosInt n) = i64_of (int n)"
| "number_as_i64 (NegInt i) = i64_of i"
| "number_as_i64 (Float _) = None"

fun as_i64 :: "json \<Rightarrow> int option" where
  "as_i64 (JNumber n) = number_as_i64 n"
| "as_i64 _ = None"

fun as_u64 :: "json \<Rightarrow> nat option" where
  "as_u64 (JNumber (PosInt n)) = Some n"
| "as_u64 _ = None"

fun as_str :: "json \<Rightarrow> string option" where
  "as_str (JString s) = Some s"
| "as_str _ = None"

fun as_bool :: "json \<Rightarrow> bool option" where
  "as_bool (JBool b) = Some b"
| "as_bool _ = None"

fun as_object :: "json \<Rightarrow> (string \<times> json) list option" where
  "as_object (JObject m) = Some m"
| "as_object _ = None"

fun as_array :: "json \<Rightarrow> json list option" where
  "as_array (JArray xs) = Some xs"
| "as_array _ = None"

definition jget :: "string \<Rightarrow> json \<Rightarrow> json option" where
  "jget k v = (case v of JObject m \<Rightarrow> map_of m k | _ \<Rightarrow> None)"

text \<open>A pointer \<open>/a/b\<close> is the path \<open>[a, b]\<close>; the code's pointers name object members only.\<close>

fun pointer :: "string list \<Rightarrow> json \<Rightarrow> json option" where
  "pointer [] v = Some v"
| "pointer (k # ks) v = Option.bind (jget k v) (pointer ks)"

lemma number_as_i64_range: "number_as_i64 n = Some i \<Longrightarrow> in_i64 i"
  by (cases n) auto

lemma as_i64_range: "as_i64 v = Some i \<Longrightarrow> in_i64 i"
  by (cases v) (auto intro: number_as_i64_range)

end
