(* ===== verification/Tables.thy ===== *)
theory Tables
  imports Prelude
begin

text \<open>
  The tables of the SQLite store as lists of rows in insertion (rowid) order, and the
  statements the queries are made of.  \<open>INSERT ... ON CONFLICT (key) DO UPDATE\<close> is
  \<open>tbl_upsert\<close>: the existing row with the new row's key is merged with it, or the new row is
  appended.  The locale states the interface of a table with a primary key once; each table of
  the store is an interpretation.
\<close>

section \<open>Statements\<close>

definition tbl_find :: "('r \<Rightarrow> 'k) \<Rightarrow> 'k \<Rightarrow> 'r list \<Rightarrow> 'r option" where
  "tbl_find key k t = List.find (\<lambda>r. key r = k) t"

definition tbl_update :: "('r \<Rightarrow> bool) \<Rightarrow> ('r \<Rightarrow> 'r) \<Rightarrow> 'r list \<Rightarrow> 'r list" where
  "tbl_update p f t = map (\<lambda>r. if p r then f r else r) t"

definition tbl_delete :: "('r \<Rightarrow> bool) \<Rightarrow> 'r list \<Rightarrow> 'r list" where
  "tbl_delete p t = filter (\<lambda>r. \<not> p r) t"

definition tbl_upsert :: "('r \<Rightarrow> 'k) \<Rightarrow> ('r \<Rightarrow> 'r \<Rightarrow> 'r) \<Rightarrow> 'r \<Rightarrow> 'r list \<Rightarrow> 'r list" where
  "tbl_upsert key merge n t =
     (if list_ex (\<lambda>r. key r = key n) t
      then tbl_update (\<lambda>r. key r = key n) (\<lambda>r. merge r n) t
      else t @ [n])"

lemma list_ex_key [table_simps]: "list_ex (\<lambda>r. key r = k) t \<longleftrightarrow> k \<in> key ` set t"
  by (induction t) auto

lemma find_map_key:
  assumes "\<And>r. r \<in> set t \<Longrightarrow> key (f r) = key r"
  shows "tbl_find key k (map f t) = map_option f (tbl_find key k t)"
  using assms by (induction t) (auto simp: tbl_find_def)

lemma find_append:
  "tbl_find key k (s @ t) = (case tbl_find key k s of Some r \<Rightarrow> Some r | None \<Rightarrow> tbl_find key k t)"
  by (induction s) (auto simp: tbl_find_def)

lemma find_Nil [simp]: "tbl_find key k [] = None"
  by (simp add: tbl_find_def)

lemma find_Cons [simp]: "tbl_find key k (r # t) = (if key r = k then Some r else tbl_find key k t)"
  by (simp add: tbl_find_def)

lemma find_Some_key: "tbl_find key k t = Some r \<Longrightarrow> key r = k \<and> r \<in> set t"
  by (induction t) (auto split: if_splits)

lemma find_None_iff_key: "tbl_find key k t = None \<longleftrightarrow> k \<notin> key ` set t"
  by (induction t) auto

lemma find_delete:
  "tbl_find key k (tbl_delete p t) = tbl_find key k t" if "\<And>r. r \<in> set t \<Longrightarrow> key r = k \<Longrightarrow> \<not> p r"
  using that by (induction t) (auto simp: tbl_delete_def)

lemma find_distinct:
  "distinct (map key t) \<Longrightarrow> r \<in> set t \<Longrightarrow> tbl_find key (key r) t = Some r"
  by (induction t) (auto simp: image_iff)

lemma find_update_same:
  assumes "\<And>r. key (f r) = key r"
  shows "tbl_find key b (tbl_update (\<lambda>r. key r = a) f t)
     = (if b = a then map_option f (tbl_find key a t) else tbl_find key b t)"
proof -
  have "tbl_find key b (tbl_update (\<lambda>r. key r = a) f t)
      = map_option (\<lambda>r. if key r = a then f r else r) (tbl_find key b t)"
    unfolding tbl_update_def by (rule find_map_key) (simp add: assms)
  then show ?thesis
    by (cases "tbl_find key b t") (auto dest: find_Some_key)
qed

lemma set_update: "set (tbl_update p f t) = (\<lambda>r. if p r then f r else r) ` set t"
  by (simp add: tbl_update_def)

lemma map_update_key:
  "(\<And>r. r \<in> set t \<Longrightarrow> p r \<Longrightarrow> g (f r) = g r) \<Longrightarrow> map g (tbl_update p f t) = map g t"
  by (induction t) (auto simp: tbl_update_def)

lemma distinct_delete: "distinct (map key t) \<Longrightarrow> distinct (map key (tbl_delete p t))"
  by (induction t) (auto simp: tbl_delete_def)

lemma set_delete: "set (tbl_delete p t) = {r \<in> set t. \<not> p r}"
  by (auto simp: tbl_delete_def)

section \<open>A table with a primary key\<close>

locale keyed_table =
  fixes key :: "'r \<Rightarrow> 'k" and merge :: "'r \<Rightarrow> 'r \<Rightarrow> 'r"
  assumes key_merge: "key r = key n \<Longrightarrow> key (merge r n) = key n"
begin

lemma find_upsert:
  "tbl_find key k (tbl_upsert key merge n t) =
     (if k = key n
      then Some (case tbl_find key k t of None \<Rightarrow> n | Some r \<Rightarrow> merge r n)
      else tbl_find key k t)"
proof (cases "list_ex (\<lambda>r. key r = key n) t")
  case True
  have "tbl_find key k (tbl_update (\<lambda>r. key r = key n) (\<lambda>r. merge r n) t)
      = map_option (\<lambda>r. if key r = key n then merge r n else r) (tbl_find key k t)"
    unfolding tbl_update_def by (rule find_map_key) (simp add: key_merge)
  moreover have "tbl_find key (key n) t \<noteq> None"
    using True by (simp add: find_None_iff_key table_simps)
  ultimately show ?thesis using True
    by (cases "tbl_find key k t") (auto simp: tbl_upsert_def dest: find_Some_key)
next
  case False
  then have "tbl_find key (key n) t = None"
    by (simp add: find_None_iff_key table_simps)
  with False show ?thesis
    by (auto simp: tbl_upsert_def find_append split: option.splits dest: find_Some_key)
qed

lemma keys_upsert:
  "map key (tbl_upsert key merge n t)
     = (if key n \<in> set (map key t) then map key t else map key t @ [key n])"
proof -
  have "map key (tbl_update (\<lambda>r. key r = key n) (\<lambda>r. merge r n) t) = map key t"
    by (rule map_update_key) (simp add: key_merge)
  then show ?thesis by (simp add: tbl_upsert_def table_simps)
qed

lemma distinct_upsert:
  "distinct (map key t) \<Longrightarrow> distinct (map key (tbl_upsert key merge n t))"
  by (simp add: keys_upsert)

text \<open>A loop of upserts over rows with distinct keys: every written row is found merged with what
  the table held, every other key is untouched.\<close>

lemma find_fold_other:
  "k \<notin> key ` set ns \<Longrightarrow> tbl_find key k (fold (tbl_upsert key merge) ns t) = tbl_find key k t"
  by (induction ns arbitrary: t) (auto simp: find_upsert)

lemma find_fold_same:
  "distinct (map key ns) \<Longrightarrow> n \<in> set ns \<Longrightarrow>
   tbl_find key (key n) (fold (tbl_upsert key merge) ns t)
     = Some (case tbl_find key (key n) t of None \<Rightarrow> n | Some r \<Rightarrow> merge r n)"
proof (induction ns arbitrary: t)
  case (Cons m ns)
  show ?case
  proof (cases "n = m")
    case True
    with Cons.prems have "key m \<notin> key ` set ns" by auto
    then show ?thesis unfolding True by (simp add: find_fold_other find_upsert)
  next
    case False
    with Cons.prems have "n \<in> set ns" "key n \<noteq> key m" by (auto simp: image_iff)
    with Cons show ?thesis by (simp add: find_upsert)
  qed
qed simp

lemma distinct_fold:
  "distinct (map key t) \<Longrightarrow> distinct (map key (fold (tbl_upsert key merge) ns t))"
  by (induction ns arbitrary: t) (auto intro: distinct_upsert)

lemma keys_fold:
  "set (map key (fold (tbl_upsert key merge) ns t)) = set (map key t) \<union> key ` set ns"
  by (induction ns arbitrary: t) (auto simp: keys_upsert simp del: set_map)

end

section \<open>ORDER BY ... LIMIT 1\<close>

text \<open>The first row, in table order, whose key is least.\<close>

fun first_min :: "('r \<Rightarrow> 'k::linorder) \<Rightarrow> 'r list \<Rightarrow> 'r option" where
  "first_min key [] = None"
| "first_min key (r # t) =
     (case first_min key t of
        None \<Rightarrow> Some r
      | Some m \<Rightarrow> if key m < key r then Some m else Some r)"

lemma first_min_None [simp]: "first_min key t = None \<longleftrightarrow> t = []"
  by (cases t) (auto split: option.splits)

lemma first_min_Some:
  "first_min key t = Some m \<Longrightarrow> m \<in> set t \<and> (\<forall>r \<in> set t. key m \<le> key r)"
proof (induction t arbitrary: m)
  case (Cons r t)
  show ?case
  proof (cases "first_min key t")
    case None
    with Cons.prems show ?thesis by simp
  next
    case (Some x)
    with Cons show ?thesis by (auto split: if_splits)
  qed
qed simp

end
