(* ===== verification/Settings.thy ===== *)
theory Settings
  imports App_Error Json Tables
begin

text \<open>
  Runtime settings: \<open>RuntimeSettings\<close> and \<open>json_i64\<close> of \<open>src/models.rs\<close>, their validation,
  storage and loading in \<open>src/db.rs\<close>.  The \<open>settings\<close> table holds one row per key; a value is
  the JSON value its text column encodes, \<open>updated_at\<close> the text of the time of the write.
\<close>

section \<open>RuntimeSettings\<close>

record runtime_settings =
  routing_strategy :: string
  proxy_max_attempts :: nat
  rate_limit_cooldown_seconds :: int
  sticky_session_ttl_seconds :: int
  usage_sample_retention_days :: int

definition settings_default :: runtime_settings where
  "settings_default = \<lparr>routing_strategy = ''usage_weighted'', proxy_max_attempts = 2,
     rate_limit_cooldown_seconds = 60, sticky_session_ttl_seconds = 7 * 24 * 60 * 60,
     usage_sample_retention_days = 30\<rparr>"

definition max_proxy_attempts :: int where
  "max_proxy_attempts = 10"

definition max_rate_limit_cooldown_seconds :: int where
  "max_rate_limit_cooldown_seconds = 60 * 60"

definition json_i64 :: "json \<Rightarrow> int option" where
  "json_i64 value =
     (case value of
        JNumber n \<Rightarrow> number_as_i64 n
      | JString s \<Rightarrow> parse_i64 (trim s)
      | _ \<Rightarrow> None)"

definition apply_setting :: "runtime_settings \<Rightarrow> string \<Rightarrow> json \<Rightarrow> runtime_settings" where
  "apply_setting s key value =
     (if key = ''routing_strategy'' then
        (case as_str value of
           Some strategy \<Rightarrow> if trim strategy = [] then s else s\<lparr>routing_strategy := trim strategy\<rparr>
         | None \<Rightarrow> s)
      else if key = ''proxy_max_attempts'' then
        (case json_i64 value of
           Some v \<Rightarrow> s\<lparr>proxy_max_attempts := nat (clamp 1 max_proxy_attempts v)\<rparr> | None \<Rightarrow> s)
      else if key = ''rate_limit_cooldown_seconds'' then
        (case json_i64 value of
           Some v \<Rightarrow> s\<lparr>rate_limit_cooldown_seconds := clamp 1 max_rate_limit_cooldown_seconds v\<rparr> | None \<Rightarrow> s)
      else if key = ''sticky_session_ttl_seconds'' then
        (case json_i64 value of
           Some v \<Rightarrow> s\<lparr>sticky_session_ttl_seconds := clamp 300 (30 * 24 * 60 * 60) v\<rparr> | None \<Rightarrow> s)
      else if key = ''usage_sample_retention_days'' then
        (case json_i64 value of
           Some v \<Rightarrow> s\<lparr>usage_sample_retention_days := clamp 1 365 v\<rparr> | None \<Rightarrow> s)
      else s)"

section \<open>Validation and storage\<close>

definition integer_range_message :: "string \<Rightarrow> int \<Rightarrow> int \<Rightarrow> string" where
  "integer_range_message key lo hi =
     key @ '' must be an integer from '' @ show_int lo @ '' through '' @ show_int hi"

definition validate_integer_setting :: "string \<Rightarrow> json \<Rightarrow> int \<Rightarrow> int \<Rightarrow> unit app_result" where
  "validate_integer_setting key value lo hi =
     (let parsed = (case as_i64 value of Some v \<Rightarrow> Some v | None \<Rightarrow> Option.bind (as_str value) parse_i64)
      in case parsed of
           Some v \<Rightarrow> if lo \<le> v \<and> v \<le> hi then Inr ()
                     else Inl (BadRequest (integer_range_message key lo hi))
         | None \<Rightarrow> Inl (BadRequest (integer_range_message key lo hi)))"

definition validate_setting :: "string \<Rightarrow> json \<Rightarrow> unit app_result" where
  "validate_setting key value =
     (if key = ''routing_strategy'' then
        (if as_str value = Some ''round_robin'' \<or> as_str value = Some ''usage_weighted'' then Inr ()
         else Inl (BadRequest ''routing_strategy must be round_robin or usage_weighted''))
      else if key = ''proxy_max_attempts'' then validate_integer_setting key value 1 10
      else if key = ''rate_limit_cooldown_seconds'' then validate_integer_setting key value 1 3600
      else if key = ''sticky_session_ttl_seconds'' then
        validate_integer_setting key value 300 (30 * 24 * 60 * 60)
      else if key = ''usage_sample_retention_days'' then validate_integer_setting key value 1 365
      else Inl (BadRequest (''unsupported runtime setting '' @ quoted key)))"

record setting_row =
  set_key :: string
  set_value :: json
  set_updated_at :: string

definition merge_setting :: "setting_row \<Rightarrow> setting_row \<Rightarrow> setting_row" where
  "merge_setting old new = old\<lparr>set_value := set_value new, set_updated_at := set_updated_at new\<rparr>"

fun validate_settings :: "(string \<times> json) list \<Rightarrow> unit app_result" where
  "validate_settings [] = Inr ()"
| "validate_settings ((k, v) # kvs) =
     (case validate_setting k v of Inl e \<Rightarrow> Inl e | Inr _ \<Rightarrow> validate_settings kvs)"

definition list_settings :: "setting_row list \<Rightarrow> setting_row list" where
  "list_settings t = sort_key set_key t"

definition upsert_settings ::
  "string \<Rightarrow> (string \<times> json) list \<Rightarrow> setting_row list \<Rightarrow> (setting_row list) app_result \<times> setting_row list" where
  "upsert_settings now kvs t =
     (case validate_settings kvs of
        Inl e \<Rightarrow> (Inl e, t)
      | Inr _ \<Rightarrow>
          (let t' = fold (\<lambda>(k, v). tbl_upsert set_key merge_setting
                            \<lparr>set_key = k, set_value = v, set_updated_at = now\<rparr>) kvs t
           in (Inr (list_settings t'), t')))"

definition runtime_keys :: "string list" where
  "runtime_keys = [''routing_strategy'', ''proxy_max_attempts'', ''rate_limit_cooldown_seconds'',
     ''sticky_session_ttl_seconds'', ''usage_sample_retention_days'']"

definition load_runtime_settings :: "setting_row list \<Rightarrow> runtime_settings" where
  "load_runtime_settings t =
     fold (\<lambda>row s. apply_setting s (set_key row) (set_value row))
       (sort_key set_key (filter (\<lambda>row. set_key row \<in> set runtime_keys) t)) settings_default"

section \<open>One field, one key\<close>

text \<open>Each runtime field is written by exactly one key; loading the table reads each field from
  the row of its key.\<close>

locale setting_field =
  fixes k :: string and f :: "runtime_settings \<Rightarrow> 'a"
  assumes other_key: "key \<noteq> k \<Longrightarrow> f (apply_setting s key v) = f s"
    and own_key: "f s = f s' \<Longrightarrow> f (apply_setting s k v) = f (apply_setting s' k v)"
    and runtime_key: "k \<in> set runtime_keys"
begin

lemma fold_field:
  "distinct (map set_key rows) \<Longrightarrow>
   f (fold (\<lambda>row s. apply_setting s (set_key row) (set_value row)) rows s0)
     = (case tbl_find set_key k rows of
          None \<Rightarrow> f s0 | Some row \<Rightarrow> f (apply_setting s0 k (set_value row)))"
proof (induction rows arbitrary: s0)
  case (Cons r rows)
  show ?case
  proof (cases "set_key r = k")
    case True
    with Cons.prems have "tbl_find set_key k rows = None" by (auto simp: find_None_iff_key)
    then show ?thesis using Cons True by simp
  next
    case False
    have "f (apply_setting (apply_setting s0 (set_key r) (set_value r)) k v) = f (apply_setting s0 k v)" for v
      by (rule own_key) (simp add: other_key False)
    then show ?thesis using Cons False by (simp add: other_key split: option.split)
  qed
qed simp

lemma load_field:
  assumes "distinct (map set_key t)"
  shows "f (load_runtime_settings t) =
    (case tbl_find set_key k t of
       None \<Rightarrow> f settings_default
     | Some row \<Rightarrow> f (apply_setting settings_default k (set_value row)))"
proof -
  let ?rows = "filter (\<lambda>row. set_key row \<in> set runtime_keys) t"
  have d: "distinct (map set_key (sort_key set_key ?rows))"
    using assms by (simp add: distinct_map inj_on_def)
  have "tbl_find set_key k (sort_key set_key ?rows) = tbl_find set_key k t"
  proof (cases "tbl_find set_key k t")
    case None
    then have "tbl_find set_key k (sort_key set_key ?rows) = None"
      by (simp add: find_None_iff_key image_iff)
    with None show ?thesis by simp
  next
    case (Some r)
    then have "r \<in> set (sort_key set_key ?rows)" "set_key r = k"
      using runtime_key by (auto dest: find_Some_key)
    with Some show ?thesis using find_distinct [OF d, of r] by simp
  qed
  then show ?thesis by (simp add: load_runtime_settings_def fold_field [OF d])
qed

end

interpretation strategy_field: setting_field "''routing_strategy''" routing_strategy
  by unfold_locales (auto simp: apply_setting_def runtime_keys_def split: option.splits)

interpretation attempts_field: setting_field "''proxy_max_attempts''" proxy_max_attempts
  by unfold_locales (auto simp: apply_setting_def runtime_keys_def split: option.splits)

interpretation cooldown_field: setting_field "''rate_limit_cooldown_seconds''" rate_limit_cooldown_seconds
  by unfold_locales (auto simp: apply_setting_def runtime_keys_def split: option.splits)

interpretation ttl_field: setting_field "''sticky_session_ttl_seconds''" sticky_session_ttl_seconds
  by unfold_locales (auto simp: apply_setting_def runtime_keys_def split: option.splits)

interpretation retention_field: setting_field "''usage_sample_retention_days''" usage_sample_retention_days
  by unfold_locales (auto simp: apply_setting_def runtime_keys_def split: option.splits)

interpretation settings_table: keyed_table set_key merge_setting
  by unfold_locales (simp add: merge_setting_def)

section \<open>Validation against application\<close>

definition settings_ok :: "runtime_settings \<Rightarrow> bool" where
  "settings_ok s \<longleftrightarrow> routing_strategy s \<noteq> []
     \<and> 1 \<le> proxy_max_attempts s \<and> proxy_max_attempts s \<le> 10
     \<and> 1 \<le> rate_limit_cooldown_seconds s \<and> rate_limit_cooldown_seconds s \<le> 3600
     \<and> 300 \<le> sticky_session_ttl_seconds s \<and> sticky_session_ttl_seconds s \<le> 2592000
     \<and> 1 \<le> usage_sample_retention_days s \<and> usage_sample_retention_days s \<le> 365"

lemma settings_ok_default: "settings_ok settings_default"
  by (simp add: settings_ok_def settings_default_def)

lemma clamp_bounds [simp]:
  "lo \<le> hi \<Longrightarrow> lo \<le> clamp lo hi x" "lo \<le> hi \<Longrightarrow> clamp lo hi x \<le> hi"
  by (simp_all add: clamp_range)

lemma nat_clamp_bounds: "1 \<le> nat (clamp 1 10 x) \<and> nat (clamp 1 10 x) \<le> 10"
  by (auto simp: clamp_def)

lemma settings_ok_apply: "settings_ok s \<Longrightarrow> settings_ok (apply_setting s k v)"
  using nat_clamp_bounds
  by (auto simp: settings_ok_def apply_setting_def max_proxy_attempts_def
      max_rate_limit_cooldown_seconds_def clamp_def split: option.splits)

lemma validate_integer_json_i64:
  "validate_integer_setting k v lo hi = Inr () \<Longrightarrow> \<exists>n. json_i64 v = Some n \<and> lo \<le> n \<and> n \<le> hi"
  by (cases v) (auto simp: validate_integer_setting_def json_i64_def Let_def parse_i64_trim
      split: option.splits if_splits)

lemma trim_strategy: "trim ''round_robin'' = ''round_robin''" "trim ''usage_weighted'' = ''usage_weighted''"
  by (rule trim_plain, simp add: plain_byte_def byte_def)+

text \<open>What an accepted value means for the field of its key: \<open>reads s k v\<close> is that \<open>s\<close> holds the
  value \<open>v\<close> for the key \<open>k\<close>, unchanged.\<close>

definition reads :: "runtime_settings \<Rightarrow> string \<Rightarrow> json \<Rightarrow> bool" where
  "reads s k v \<longleftrightarrow>
     (if k = ''routing_strategy'' then as_str v = Some (routing_strategy s)
      else if k = ''proxy_max_attempts'' then json_i64 v = Some (int (proxy_max_attempts s))
      else if k = ''rate_limit_cooldown_seconds'' then json_i64 v = Some (rate_limit_cooldown_seconds s)
      else if k = ''sticky_session_ttl_seconds'' then json_i64 v = Some (sticky_session_ttl_seconds s)
      else if k = ''usage_sample_retention_days'' then json_i64 v = Some (usage_sample_retention_days s)
      else False)"

lemma validated_key: "validate_setting k v = Inr () \<Longrightarrow> k \<in> set runtime_keys"
  by (simp add: validate_setting_def runtime_keys_def split: if_split_asm)

lemma validated_integer:
  "validate_setting ''proxy_max_attempts'' v = Inr () \<Longrightarrow> \<exists>n. json_i64 v = Some n \<and> 1 \<le> n \<and> n \<le> 10"
  "validate_setting ''rate_limit_cooldown_seconds'' v = Inr () \<Longrightarrow>
     \<exists>n. json_i64 v = Some n \<and> 1 \<le> n \<and> n \<le> 3600"
  "validate_setting ''sticky_session_ttl_seconds'' v = Inr () \<Longrightarrow>
     \<exists>n. json_i64 v = Some n \<and> 300 \<le> n \<and> n \<le> 2592000"
  "validate_setting ''usage_sample_retention_days'' v = Inr () \<Longrightarrow>
     \<exists>n. json_i64 v = Some n \<and> 1 \<le> n \<and> n \<le> 365"
  by (rule validate_integer_json_i64, simp add: validate_setting_def)+

lemma validated_strategy:
  "validate_setting ''routing_strategy'' v = Inr () \<Longrightarrow>
     v = JString ''round_robin'' \<or> v = JString ''usage_weighted''"
  by (cases v) (simp_all add: validate_setting_def split: if_split_asm)

lemma runtime_key_cases:
  assumes "k \<in> set runtime_keys"
  obtains "k = ''routing_strategy''" | "k = ''proxy_max_attempts''" | "k = ''rate_limit_cooldown_seconds''"
    | "k = ''sticky_session_ttl_seconds''" | "k = ''usage_sample_retention_days''"
  using assms unfolding runtime_keys_def list.set insert_iff empty_iff by (elim disjE FalseE)

lemma validated_reads:
  assumes "validate_setting k v = Inr ()"
  shows "reads (apply_setting s k v) k v"
proof -
  from validated_key [OF assms] show ?thesis
  proof (cases k rule: runtime_key_cases)
    case 1
    then show ?thesis using validated_strategy [of v] assms
      by (auto simp: reads_def apply_setting_def trim_strategy)
  next
    case 2
    then show ?thesis using validated_integer(1) [of v] assms
      by (auto simp: reads_def apply_setting_def max_proxy_attempts_def)
  next
    case 3
    then show ?thesis using validated_integer(2) [of v] assms
      by (auto simp: reads_def apply_setting_def max_rate_limit_cooldown_seconds_def)
  next
    case 4
    then show ?thesis using validated_integer(3) [of v] assms by (auto simp: reads_def apply_setting_def)
  next
    case 5
    then show ?thesis using validated_integer(4) [of v] assms by (auto simp: reads_def apply_setting_def)
  qed
qed

lemma reads_runtime_key: "reads s k v \<Longrightarrow> k \<in> set runtime_keys"
  by (simp add: reads_def runtime_keys_def split: if_split_asm)

lemma reads_load:
  assumes d: "distinct (map set_key t)" and row: "tbl_find set_key k t = Some row"
  shows "reads (load_runtime_settings t) k v = reads (apply_setting settings_default k (set_value row)) k v"
proof (cases "k \<in> set runtime_keys")
  case True
  then show ?thesis
  proof (cases k rule: runtime_key_cases)
    case 1
    then show ?thesis using row by (simp add: reads_def strategy_field.load_field [OF d])
  next
    case 2
    then show ?thesis using row by (simp add: reads_def attempts_field.load_field [OF d])
  next
    case 3
    then show ?thesis using row by (simp add: reads_def cooldown_field.load_field [OF d])
  next
    case 4
    then show ?thesis using row by (simp add: reads_def ttl_field.load_field [OF d])
  next
    case 5
    then show ?thesis using row by (simp add: reads_def retention_field.load_field [OF d])
  qed
qed (auto dest: reads_runtime_key)

lemma validate_settings_all:
  "validate_settings kvs = Inr () \<longleftrightarrow> (\<forall>(k, v) \<in> set kvs. validate_setting k v = Inr ())"
  by (induction kvs rule: validate_settings.induct) (auto split: sum.splits)

section \<open>Properties\<close>

text \<open>
  Whatever the settings table holds, malformed values and unknown keys included, the
  loaded runtime settings are within their safe bounds.\<close>

lemma load_runtime_settings_ok: "settings_ok (load_runtime_settings t)"
proof -
  have "settings_ok s \<Longrightarrow>
      settings_ok (fold (\<lambda>row s. apply_setting s (set_key row) (set_value row)) rows s)" for rows s
    by (induction rows arbitrary: s) (auto intro: settings_ok_apply)
  then show ?thesis unfolding load_runtime_settings_def using settings_ok_default by blast
qed

text \<open>C26: an accepted settings update reads back exactly: every posted key, loaded from the table
  after the update, is the posted value, with no clamping or defaulting in between; a rejected
  update leaves the table as it was.\<close>

theorem upsert_settings_reads_back:
  assumes "distinct (map set_key t)" and "distinct (map fst kvs)"
    and "upsert_settings now kvs t = (res, t')"
  shows "(res = Inl e \<longrightarrow> t' = t)
     \<and> (res = Inr rows \<longrightarrow> (\<forall>(k, v) \<in> set kvs. reads (load_runtime_settings t') k v))"
proof (cases "validate_settings kvs")
  case (Inl e')
  then show ?thesis using assms(3) by (auto simp: upsert_settings_def)
next
  case (Inr u)
  let ?row = "\<lambda>(k, v). \<lparr>set_key = k, set_value = v, set_updated_at = now\<rparr>"
  let ?ns = "map ?row kvs"
  have t': "t' = fold (tbl_upsert set_key merge_setting) ?ns t"
    using assms(3) Inr by (auto simp: upsert_settings_def Let_def fold_map comp_def case_prod_unfold)
  have dn: "distinct (map set_key ?ns)" using assms(2) by (simp add: comp_def case_prod_beta)
  have d': "distinct (map set_key t')" using assms(1) by (simp add: t' settings_table.distinct_fold)
  have "reads (load_runtime_settings t') k v" if kv: "(k, v) \<in> set kvs" for k v
  proof -
    have "?row (k, v) \<in> set ?ns" using kv by (force simp: image_iff)
    from settings_table.find_fold_same [OF dn this]
    obtain row where "tbl_find set_key k t' = Some row" "set_value row = v"
      by (auto simp: t' merge_setting_def split: option.splits)
    moreover have "validate_setting k v = Inr ()"
      using Inr kv by (cases u) (auto simp: validate_settings_all)
    ultimately show ?thesis using reads_load [OF d'] validated_reads by simp
  qed
  with assms(3) Inr show ?thesis by (auto simp: upsert_settings_def Let_def)
qed

theorem upsert_settings_reads_back_witness:
  "reads (load_runtime_settings
     (snd (upsert_settings ''now'' [(''proxy_max_attempts'', JString ''3'')]
        [\<lparr>set_key = ''proxy_max_attempts'', set_value = JNumber (PosInt 2), set_updated_at = ''t0''\<rparr>])))
     ''proxy_max_attempts'' (JString ''3'')"
proof -
  let ?t = "[\<lparr>set_key = ''proxy_max_attempts'', set_value = JNumber (PosInt 2), set_updated_at = ''t0''\<rparr>]"
  let ?kvs = "[(''proxy_max_attempts'', JString ''3'')]"
  have v: "validate_settings ?kvs = Inr ()" by code_simp
  obtain res t' where u: "upsert_settings ''now'' ?kvs ?t = (res, t')" by (cases "upsert_settings ''now'' ?kvs ?t")
  have d: "distinct (map set_key ?t)" "distinct (map fst ?kvs)" by simp_all
  obtain rows where "res = Inr rows" using u v by (auto simp: upsert_settings_def Let_def)
  with upsert_settings_reads_back [OF d u, of undefined rows] u show ?thesis by simp
qed

end
