(* ===== verification/Registry.thy ===== *)
theory Registry
  imports Prelude
begin

text \<open>
  The registry of live WebSocket connections (\<open>src/session_registry.rs\<close>): which connections a
  session key reaches, the canonical root of each key, and the reroute signal each connection
  holds.  The mutex makes every operation atomic, so an operation is a function on the state.
  Hash sets are sets, hash maps are partial maps (no operation depends on their iteration
  order), the watch channel of a connection is the value it currently holds.
\<close>

section \<open>State\<close>

record connection_entry =
  root_key_hash :: string
  aliases :: "string set"
  account_id :: uuid
  generation :: int
  signal :: "int option"

record registry =
  next_token :: "64 word"
  connections :: "64 word \<rightharpoonup> connection_entry"
  connections_by_key :: "string \<rightharpoonup> 64 word set"
  root_by_key :: "string \<rightharpoonup> string"
  generation_by_root :: "string \<rightharpoonup> int"

definition registry_default :: registry where
  "registry_default = \<lparr>next_token = 0, connections = Map.empty, connections_by_key = Map.empty,
     root_by_key = Map.empty, generation_by_root = Map.empty\<rparr>"

record session_connection_snapshot =
  connection_count :: nat
  snapshot_account_ids :: "uuid set"

record session_signal_result =
  matching_connections :: nat
  signaled_connections :: nat
  signal_account_ids :: "uuid set"

section \<open>Operations\<close>

definition canonical_root :: "registry \<Rightarrow> string \<Rightarrow> string set \<Rightarrow> string" where
  "canonical_root reg rt al =
     (case root_by_key reg rt of
        Some r \<Rightarrow> r
      | None \<Rightarrow> (let mapped = image_filter (root_by_key reg) al
                in if mapped = {} then rt else Min mapped))"

definition register ::
  "string \<Rightarrow> string set \<Rightarrow> uuid \<Rightarrow> int \<Rightarrow> registry \<Rightarrow> 64 word \<times> registry" where
  "register rt al acct gen reg =
     (let canonical = canonical_root reg rt al;
          al' = insert canonical al;
          current_generation = (case generation_by_root reg canonical of Some g \<Rightarrow> g | None \<Rightarrow> gen);
          initial_signal = (if gen < current_generation then Some current_generation else None);
          token = max (next_token reg + 1) 1;
          entry = \<lparr>root_key_hash = canonical, aliases = al', account_id = acct, generation = gen,
                   signal = initial_signal\<rparr>
      in (token, reg\<lparr>next_token := token,
            connections := (connections reg)(token \<mapsto> entry),
            connections_by_key := (\<lambda>k. if k \<in> al' then Some (insert token (lookup_set (connections_by_key reg) k))
                                       else connections_by_key reg k),
            root_by_key := (\<lambda>k. if k \<in> al' \<and> root_by_key reg k = None then Some canonical
                                else root_by_key reg k)\<rparr>))"

definition matching_tokens :: "registry \<Rightarrow> string \<Rightarrow> string set \<Rightarrow> 64 word set" where
  "matching_tokens reg rt al =
     (let keys = insert rt al;
          keys' = keys \<union> image_filter (root_by_key reg) keys
      in \<Union>k \<in> keys'. lookup_set (connections_by_key reg) k)"

definition token_accounts :: "registry \<Rightarrow> 64 word set \<Rightarrow> uuid set" where
  "token_accounts reg ts = account_id ` image_filter (connections reg) ts"

definition snapshot :: "registry \<Rightarrow> string \<Rightarrow> string set \<Rightarrow> session_connection_snapshot" where
  "snapshot reg rt al =
     (let tokens = matching_tokens reg rt al
      in \<lparr>connection_count = card tokens, snapshot_account_ids = token_accounts reg tokens\<rparr>)"

definition entry_older :: "registry \<Rightarrow> int \<Rightarrow> 64 word \<Rightarrow> bool" where
  "entry_older reg gen t = (case connections reg t of None \<Rightarrow> False | Some e \<Rightarrow> generation e < gen)"

definition reroute_entry :: "string \<Rightarrow> int \<Rightarrow> connection_entry \<Rightarrow> connection_entry" where
  "reroute_entry rt gen e =
     (let e' = e\<lparr>root_key_hash := rt\<rparr>
      in if generation e < gen then e'\<lparr>signal := Some gen\<rparr> else e')"

definition signal_reroute ::
  "string \<Rightarrow> string set \<Rightarrow> int \<Rightarrow> registry \<Rightarrow> session_signal_result \<times> registry" where
  "signal_reroute rt al gen reg =
     (let tokens = matching_tokens reg rt al
      in (\<lparr>matching_connections = card tokens,
           signaled_connections = card (Set.filter (entry_older reg gen) tokens),
           signal_account_ids = token_accounts reg tokens\<rparr>,
          reg\<lparr>generation_by_root := (generation_by_root reg)(rt \<mapsto>
                (case generation_by_root reg rt of Some cur \<Rightarrow> max cur gen | None \<Rightarrow> gen)),
              root_by_key := (\<lambda>k. if k = rt \<or> k \<in> al then Some rt else root_by_key reg k),
              connections := (\<lambda>t. if t \<in> tokens then map_option (reroute_entry rt gen) (connections reg t)
                                  else connections reg t),
              connections_by_key :=
                (if tokens = {} then connections_by_key reg
                 else (connections_by_key reg)(rt \<mapsto> lookup_set (connections_by_key reg) rt \<union> tokens))\<rparr>))"

definition unregister :: "64 word \<Rightarrow> registry \<Rightarrow> registry" where
  "unregister token reg =
     (case connections reg token of
        None \<Rightarrow> reg
      | Some e \<Rightarrow>
          (let keys = insert (root_key_hash e) (aliases e)
           in reg\<lparr>connections := (connections reg)(token := None),
                  connections_by_key := (\<lambda>k.
                    if k \<in> keys then
                      (case connections_by_key reg k of
                         None \<Rightarrow> None
                       | Some ts \<Rightarrow> if ts - {token} = {} then None else Some (ts - {token}))
                    else connections_by_key reg k)\<rparr>))"


section \<open>Histories\<close>

text \<open>
  Every state the daemon can build: connections register (while the 64-bit token counter has not
  wrapped), actions signal with a generation not below the one already known for their root (the
  store numbers the generations of a root upwards), and connections unregister when dropped.
\<close>

datatype registry_op =
    Register string "string set" uuid int
  | Signal string "string set" int
  | Unregister "64 word"

fun registry_step :: "registry_op \<Rightarrow> registry \<Rightarrow> registry" where
  "registry_step (Register rt al acct gen) reg = snd (register rt al acct gen reg)"
| "registry_step (Signal rt al gen) reg = snd (signal_reroute rt al gen reg)"
| "registry_step (Unregister t) reg = unregister t reg"

fun registry_op_ok :: "registry_op \<Rightarrow> registry \<Rightarrow> bool" where
  "registry_op_ok (Register rt al acct gen) reg \<longleftrightarrow> next_token reg \<noteq> - 1"
| "registry_op_ok (Signal rt al gen) reg \<longleftrightarrow>
     (case generation_by_root reg rt of None \<Rightarrow> True | Some g \<Rightarrow> g \<le> gen)"
| "registry_op_ok (Unregister t) reg \<longleftrightarrow> True"

inductive reachable_registry :: "registry \<Rightarrow> bool" where
  init: "reachable_registry registry_default"
| step: "reachable_registry reg \<Longrightarrow> registry_op_ok act reg \<Longrightarrow> reachable_registry (registry_step act reg)"

fun silent :: "registry_op \<Rightarrow> bool" where
  "silent (Signal _ _ _) = False"
| "silent _ = True"

section \<open>The index covers every live connection\<close>

definition entry_keys :: "connection_entry \<Rightarrow> string set" where
  "entry_keys e = insert (root_key_hash e) (aliases e)"

definition indexed :: "registry \<Rightarrow> bool" where
  "indexed reg \<longleftrightarrow>
     (\<forall>t e. connections reg t = Some e \<longrightarrow>
        t \<le> next_token reg \<and> (\<forall>k \<in> entry_keys e. t \<in> lookup_set (connections_by_key reg) k))"

definition stale_signaled :: "registry \<Rightarrow> bool" where
  "stale_signaled reg \<longleftrightarrow>
     (\<forall>t e g. connections reg t = Some e \<longrightarrow> generation_by_root reg (root_key_hash e) = Some g \<longrightarrow>
        generation e < g \<longrightarrow> signal e = Some g)"

lemma indexedD:
  "indexed reg \<Longrightarrow> connections reg t = Some e \<Longrightarrow> k \<in> entry_keys e
     \<Longrightarrow> t \<in> lookup_set (connections_by_key reg) k"
  by (simp add: indexed_def)

lemma fresh_token:
  fixes n :: "64 word"
  assumes "n \<noteq> - 1"
  shows "max (n + 1) 1 = n + 1" and "n < n + 1"
proof -
  have "unat n \<noteq> unat (- 1 :: 64 word)"
    using assms word_unat_eq_iff by blast
  moreover have "unat n < 2 ^ 64"
    using unsigned_less [of n] by simp
  ultimately have "unat n + 1 < 2 ^ 64"
    by (simp add: unsigned_minus_1_eq_mask mask_eq_exp_minus_1)
  then have "unat (n + 1) = unat n + 1"
    by (simp add: unat_word_ariths)
  then show "n < n + 1" and "max (n + 1) 1 = n + 1"
    by (simp_all add: word_less_nat_alt word_le_nat_alt max_def unat_eq_0)
qed

lemma lookup_set_upd [simp]:
  "lookup_set (\<lambda>k. if P k then Some (S k) else m k) k = (if P k then S k else lookup_set m k)"
  by (simp add: lookup_set_def)

lemma lookup_set_fun_upd [simp]:
  "lookup_set (m(a \<mapsto> s)) k = (if k = a then s else lookup_set m k)"
  by (simp add: lookup_set_def)

lemma lookup_set_drop:
  "lookup_set (\<lambda>k. if P k then (case m k of None \<Rightarrow> None
       | Some ts \<Rightarrow> if ts - {t} = {} then None else Some (ts - {t})) else m k) k
     = (if P k then lookup_set m k - {t} else lookup_set m k)"
  by (auto simp: lookup_set_def split: option.splits)

lemma register_token:
  "next_token reg \<noteq> - 1 \<Longrightarrow> fst (register rt al acct gen reg) = next_token reg + 1"
  by (simp add: register_def Let_def fresh_token)

lemma register_fields:
  fixes rt :: string and al :: "string set" and acct :: uuid and gen :: int and reg :: registry
  assumes "next_token reg \<noteq> - 1"
  defines "c \<equiv> canonical_root reg rt al" and "r \<equiv> snd (register rt al acct gen reg)"
  shows "next_token r = next_token reg + 1"
    and "connections r = (connections reg)(next_token reg + 1 \<mapsto>
           \<lparr>root_key_hash = c, aliases = insert c al, account_id = acct, generation = gen,
            signal = (case generation_by_root reg c of Some g \<Rightarrow> if gen < g then Some g else None
                                                     | None \<Rightarrow> None)\<rparr>)"
    and "lookup_set (connections_by_key r) k =
           (if k \<in> insert c al then insert (next_token reg + 1) (lookup_set (connections_by_key reg) k)
            else lookup_set (connections_by_key reg) k)"
    and "root_by_key r = (\<lambda>k. if k \<in> insert c al \<and> root_by_key reg k = None then Some c
                              else root_by_key reg k)"
    and "generation_by_root r = generation_by_root reg"
  using assms(1) by (auto simp: register_def Let_def fresh_token r_def c_def split: option.splits)

lemma signal_fields:
  fixes rt :: string and al :: "string set" and gen :: int and reg :: registry
  defines "r \<equiv> snd (signal_reroute rt al gen reg)"
  defines "ts \<equiv> matching_tokens reg rt al"
  shows "next_token r = next_token reg"
    and "connections r t = (if t \<in> ts then map_option (reroute_entry rt gen) (connections reg t)
                            else connections reg t)"
    and "lookup_set (connections_by_key r) k =
           (if k = rt then lookup_set (connections_by_key reg) k \<union> ts
            else lookup_set (connections_by_key reg) k)"
    and "root_by_key r k = (if k = rt \<or> k \<in> al then Some rt else root_by_key reg k)"
    and "generation_by_root r = (generation_by_root reg)(rt \<mapsto>
           (case generation_by_root reg rt of Some cur \<Rightarrow> max cur gen | None \<Rightarrow> gen))"
  by (auto simp: signal_reroute_def Let_def r_def ts_def)

lemma unregister_fields:
  "next_token (unregister t reg) = next_token reg"
  "connections (unregister t reg) = (connections reg)(t := None)"
  "lookup_set (connections_by_key (unregister t reg)) k =
     (case connections reg t of None \<Rightarrow> lookup_set (connections_by_key reg) k
      | Some e \<Rightarrow> if k \<in> entry_keys e then lookup_set (connections_by_key reg) k - {t}
                 else lookup_set (connections_by_key reg) k)"
  "root_by_key (unregister t reg) = root_by_key reg"
  "generation_by_root (unregister t reg) = generation_by_root reg"
  by (cases "connections reg t"; simp add: unregister_def Let_def lookup_set_drop entry_keys_def fun_upd_idem)+

lemma matching_direct:
  "t \<in> lookup_set (connections_by_key reg) k \<Longrightarrow> k \<in> insert rt al \<Longrightarrow> t \<in> matching_tokens reg rt al"
  by (auto simp: matching_tokens_def Let_def)


lemma indexed_step:
  assumes "indexed reg" and "registry_op_ok act reg"
  shows "indexed (registry_step act reg)"
proof (cases act)
  case (Register rt al acct gen)
  with assms(2) have ok: "next_token reg \<noteq> - 1" by simp
  have "t \<le> next_token reg + 1" if "t \<le> next_token reg" for t
    using that fresh_token(2) [OF ok] by simp
  with assms(1) show ?thesis
    by (auto simp: indexed_def register_fields [OF ok] Register entry_keys_def)
next
  case (Signal rt al gen)
  have "t \<le> next_token reg \<and> (\<forall>k \<in> entry_keys e. t \<in> lookup_set (connections_by_key (registry_step act reg)) k)"
    if "connections (registry_step act reg) t = Some e" for t e
  proof (cases "t \<in> matching_tokens reg rt al")
    case True
    with that obtain e0 where "connections reg t = Some e0" "e = reroute_entry rt gen e0"
      by (auto simp: Signal signal_fields)
    with True assms(1) show ?thesis
      by (auto simp: Signal signal_fields indexed_def entry_keys_def reroute_entry_def Let_def)
  next
    case False
    with that assms(1) show ?thesis
      by (auto simp: Signal signal_fields indexed_def)
  qed
  then show ?thesis by (simp add: indexed_def Signal signal_fields(1))
next
  case (Unregister t)
  with assms(1) show ?thesis
    by (auto simp: indexed_def unregister_fields split: option.splits)
qed

lemma stale_signaled_step:
  assumes "stale_signaled reg" "indexed reg" "registry_op_ok act reg"
  shows "stale_signaled (registry_step act reg)"
proof (cases act)
  case (Register rt al acct gen)
  with assms(3) have "next_token reg \<noteq> - 1" by simp
  with assms(1) show ?thesis
    by (auto simp: stale_signaled_def register_fields Register)
next
  case (Signal rt al gen)
  let ?r = "registry_step act reg"
  have top: "generation_by_root ?r = (generation_by_root reg)(rt \<mapsto> gen)"
    using assms(3) by (auto simp: Signal signal_fields split: option.splits)
  have "signal e = Some g"
    if e: "connections ?r t = Some e" and g: "generation_by_root ?r (root_key_hash e) = Some g"
      and less: "generation e < g" for t e g
  proof (cases "t \<in> matching_tokens reg rt al")
    case True
    with e obtain e0 where "connections reg t = Some e0" "e = reroute_entry rt gen e0"
      by (auto simp: Signal signal_fields)
    with g less top show ?thesis by (auto simp: reroute_entry_def Let_def split: if_splits)
  next
    case False
    with e have e0: "connections reg t = Some e" by (simp add: Signal signal_fields)
    have "root_key_hash e \<noteq> rt"
      using False indexedD [OF assms(2) e0, of "root_key_hash e"] matching_direct [of t reg rt rt al]
      by (auto simp: entry_keys_def)
    with g top less e0 assms(1) show ?thesis by (simp add: stale_signaled_def)
  qed
  then show ?thesis by (simp add: stale_signaled_def)
next
  case (Unregister t)
  with assms(1) show ?thesis by (auto simp: stale_signaled_def unregister_fields)
qed

lemma reachable_invariants:
  "reachable_registry reg \<Longrightarrow> indexed reg \<and> stale_signaled reg"
proof (induction rule: reachable_registry.induct)
  case init
  show ?case by (simp add: indexed_def stale_signaled_def registry_default_def)
next
  case (step reg act)
  then show ?case by (auto intro: indexed_step stale_signaled_step)
qed

lemma silent_keeps:
  assumes "\<forall>act \<in> set acts. silent act"
  shows "generation_by_root (fold registry_step acts reg) = generation_by_root reg"
    and "root_by_key reg k = Some r \<Longrightarrow> root_by_key (fold registry_step acts reg) k = Some r"
proof -
  have one: "generation_by_root (registry_step act reg) = generation_by_root reg
      \<and> (root_by_key reg k = Some r \<longrightarrow> root_by_key (registry_step act reg) k = Some r)"
    if "silent act" for act reg k r
    using that by (cases act) (auto simp: register_def Let_def unregister_fields)
  from assms show "generation_by_root (fold registry_step acts reg) = generation_by_root reg"
    by (induction acts arbitrary: reg) (auto simp: one)
  from assms show "root_by_key reg k = Some r \<Longrightarrow> root_by_key (fold registry_step acts reg) k = Some r"
    by (induction acts arbitrary: reg) (auto simp: one)
qed

section \<open>Properties\<close>

text \<open>
  C15: no live connection misses a reroute.  In every reachable state, a live connection whose
  root's newest signalled generation is above the connection's own generation holds exactly that
  generation in its reroute signal, whichever of the two came first.
\<close>

theorem stale_connection_signaled:
  assumes "reachable_registry reg" "connections reg t = Some e"
    and "generation_by_root reg (root_key_hash e) = Some g" "generation e < g"
  shows "signal e = Some g"
  using reachable_invariants [OF assms(1)] assms(2-4) by (simp add: stale_signaled_def)

lemma stale_connection_signaled_witness:
  "signal (the (connections (registry_step (Register ''b'' {} 5 6)
      (registry_step (Signal ''r'' {''b''} 7) registry_default)) 1)) = Some 7"
proof -
  let ?reg = "registry_step (Register ''b'' {} 5 6) (registry_step (Signal ''r'' {''b''} 7) registry_default)"
  let ?e = "\<lparr>root_key_hash = ''r'', aliases = {''r''}, account_id = 5, generation = 6, signal = Some 7\<rparr>"
  have r: "reachable_registry ?reg"
    by (rule reachable_registry.intros)+ (simp_all add: registry_default_def signal_reroute_def Let_def)
  have c: "connections ?reg 1 = Some ?e" "generation_by_root ?reg (root_key_hash ?e) = Some 7"
    by (simp_all add: registry_default_def register_def signal_reroute_def canonical_root_def
        matching_tokens_def image_filter_insert lookup_set_def Let_def)
  show ?thesis using stale_connection_signaled [OF r c] c(1) by simp
qed

text \<open>
  A signal reaches every live connection that shares a key with it: the connection is counted,
  moves to the action's root, and holds the new generation unless it was opened at that generation
  or later; its account, aliases and own generation do not change.  Connections the action does not
  match keep their entry.
\<close>

lemma signal_reroute_reaches:
  assumes "reachable_registry reg" "connections reg t = Some e"
  shows "(entry_keys e \<inter> insert rt al \<noteq> {} \<longrightarrow> t \<in> matching_tokens reg rt al)
    \<and> connections (snd (signal_reroute rt al gen reg)) t
           = Some (if t \<in> matching_tokens reg rt al
                   then e\<lparr>root_key_hash := rt,
                          signal := (if generation e < gen then Some gen else signal e)\<rparr>
                   else e)"
proof -
  have "t \<in> lookup_set (connections_by_key reg) k" if "k \<in> entry_keys e" for k
    using indexedD [OF _ assms(2) that] reachable_invariants [OF assms(1)] by blast
  then have "entry_keys e \<inter> insert rt al \<noteq> {} \<longrightarrow> t \<in> matching_tokens reg rt al"
    by (meson disjoint_iff matching_direct)
  with assms(2) show ?thesis
    by (auto simp: signal_fields reroute_entry_def Let_def)
qed

lemma signal_reroute_reaches_witness:
  "connections (snd (signal_reroute ''r'' {''a''} 2
       (registry_step (Register ''a'' {} 5 1) registry_default))) 1
     = Some \<lparr>root_key_hash = ''r'', aliases = {''a''}, account_id = 5, generation = 1, signal = Some 2\<rparr>"
proof -
  let ?reg = "registry_step (Register ''a'' {} 5 1) registry_default"
  have r: "reachable_registry ?reg"
    by (rule reachable_registry.intros)+ (simp add: registry_default_def)
  have c: "connections ?reg 1
      = Some \<lparr>root_key_hash = ''a'', aliases = {''a''}, account_id = 5, generation = 1, signal = None\<rparr>"
    by (simp add: registry_default_def register_def canonical_root_def Let_def)
  show ?thesis
    using signal_reroute_reaches [OF r c, of "''r''" "{''a''}" 2]
    by (auto simp: entry_keys_def simp del: registry_step.simps)
qed

text \<open>
  A connection that registers late, under a key of an action that was already signalled and with
  an older generation, starts signalled: after the signal, any registrations and
  unregistrations may happen first.
\<close>

lemma late_registration_signaled:
  assumes "k \<in> insert rt al" "gen' < gen" "\<forall>act \<in> set acts. silent act"
    and "next_token reg' \<noteq> - 1"
    and "reg' = fold registry_step acts (snd (signal_reroute rt al gen reg))"
  shows "\<exists>e g. connections (snd (register k al' acct gen' reg')) (fst (register k al' acct gen' reg')) = Some e
           \<and> root_key_hash e = rt \<and> signal e = Some g \<and> gen \<le> g"
proof -
  have "root_by_key reg' k = Some rt"
    unfolding assms(5) by (rule silent_keeps(2) [OF assms(3)]) (use assms(1) in \<open>auto simp: signal_fields\<close>)
  then have c: "canonical_root reg' k al' = rt" by (simp add: canonical_root_def)
  obtain g where "generation_by_root reg' rt = Some g" "gen \<le> g"
    unfolding assms(5) silent_keeps(1) [OF assms(3)]
    by (auto simp: signal_fields split: option.splits)
  with assms(2) show ?thesis
    by (auto simp: register_token [OF assms(4)] register_fields [OF assms(4)] c)
qed

lemma late_registration_signaled_witness:
  "let reg = fold registry_step [Register ''c'' {} 8 1, Unregister 1]
               (snd (signal_reroute ''r'' {''a''} 7 registry_default));
       res = register ''a'' {} 5 6 reg
   in \<exists>e g. connections (snd res) (fst res) = Some e \<and> root_key_hash e = ''r''
        \<and> signal e = Some g \<and> 7 \<le> g"
  unfolding Let_def
  by (rule late_registration_signaled [of _ _ "{''a''}", OF _ _ _ _ refl])
    (simp_all add: signal_fields(1) register_def unregister_fields(1) Let_def registry_default_def)

text \<open>
  Dropping a connection removes it and nothing else: every other connection keeps its entry and
  stays indexed under all its keys.  When the index lists the dropped token only under the keys of
  its entry, no key reaches it afterwards.
\<close>

lemma unregister_forgets:
  assumes "reachable_registry reg" "connections reg t = Some e"
  shows "connections (unregister t reg) t = None
    \<and> (\<forall>u. u \<noteq> t \<longrightarrow> connections (unregister t reg) u = connections reg u)
    \<and> indexed (unregister t reg)
    \<and> ((\<forall>k. t \<in> lookup_set (connections_by_key reg) k \<longrightarrow> k \<in> entry_keys e) \<longrightarrow>
        (\<forall>rt al. t \<notin> matching_tokens (unregister t reg) rt al))"
proof -
  have "indexed (registry_step (Unregister t) reg)"
    using reachable_invariants [OF assms(1)] by (intro indexed_step) auto
  then show ?thesis
    using assms(2) by (auto simp: unregister_fields matching_tokens_def Let_def split: if_splits)
qed

lemma unregister_forgets_witness:
  "snapshot (unregister 1 (snd (register ''a'' {} 5 1 registry_default))) ''a'' {}
     = \<lparr>connection_count = 0, snapshot_account_ids = {}\<rparr>"
proof -
  let ?reg = "snd (register ''a'' {} 5 1 registry_default)"
  let ?e = "\<lparr>root_key_hash = ''a'', aliases = {''a''}, account_id = 5, generation = 1, signal = None\<rparr>"
  have r: "reachable_registry ?reg"
    using reachable_registry.step [OF reachable_registry.init, of "Register ''a'' {} 5 1"]
    by (simp add: registry_default_def)
  have c: "connections ?reg = [1 \<mapsto> ?e]"
    and k: "lookup_set (connections_by_key ?reg) k = (if k = ''a'' then {1} else {})" for k
    by (simp_all add: registry_default_def register_def canonical_root_def Let_def lookup_set_def)
  have "matching_tokens (unregister 1 ?reg) ''a'' {} \<subseteq> {1}"
    by (auto simp: matching_tokens_def Let_def unregister_fields c k entry_keys_def split: if_splits)
  moreover have "1 \<notin> matching_tokens (unregister 1 ?reg) ''a'' {}"
    using unregister_forgets [OF r, of 1 ?e] k by (simp add: c entry_keys_def)
  ultimately have "matching_tokens (unregister 1 ?reg) ''a'' {} = {}" by blast
  then show ?thesis by (simp add: snapshot_def token_accounts_def)
qed

text \<open>
  The premise of the previous property is not idle.  A connection signalled under one root and
  then under another leaves its token in the index of the first root: when it has been dropped and
  no connection is live, a snapshot of the first root still counts one connection.
\<close>

lemma second_signal_leaks_token:
  "let reg = fold registry_step [Register ''a'' {} 5 1, Signal ''r'' {''a''} 2, Signal ''s'' {''a''} 3,
               Unregister 1] registry_default
   in reachable_registry reg \<and> connections reg = Map.empty
      \<and> snapshot reg ''r'' {} = \<lparr>connection_count = 1, snapshot_account_ids = {}\<rparr>"
proof -
  let ?r1 = "registry_step (Register ''a'' {} 5 1) registry_default"
  let ?r2 = "registry_step (Signal ''r'' {''a''} 2) ?r1"
  let ?r3 = "registry_step (Signal ''s'' {''a''} 3) ?r2"
  let ?r4 = "registry_step (Unregister 1) ?r3"
  let ?e1 = "\<lparr>root_key_hash = ''a'', aliases = {''a''}, account_id = 5, generation = 1, signal = None\<rparr>"
  have r1: "connections ?r1 = [1 \<mapsto> ?e1]" "generation_by_root ?r1 = Map.empty"
    "root_by_key ?r1 = [''a'' \<mapsto> ''a'']"
    "lookup_set (connections_by_key ?r1) k = (if k = ''a'' then {1} else {})" for k
    by (auto simp: registry_default_def register_def canonical_root_def Let_def lookup_set_def)
  have m1: "matching_tokens ?r1 ''r'' {''a''} = {1}"
    by (auto simp: matching_tokens_def Let_def r1 image_filter_insert simp del: registry_step.simps)
  have r2: "connections ?r2 = [1 \<mapsto> ?e1\<lparr>root_key_hash := ''r'', signal := Some 2\<rparr>]"
    "generation_by_root ?r2 = [''r'' \<mapsto> 2]"
    "root_by_key ?r2 = [''a'' \<mapsto> ''r'', ''r'' \<mapsto> ''r'']"
    "lookup_set (connections_by_key ?r2) k = (if k = ''a'' \<or> k = ''r'' then {1} else {})" for k
    unfolding registry_step.simps(2)
    by (auto simp: signal_fields r1 m1 reroute_entry_def Let_def fun_eq_iff simp del: registry_step.simps)
  have m2: "matching_tokens ?r2 ''s'' {''a''} = {1}"
    by (auto simp: matching_tokens_def Let_def r2 image_filter_insert simp del: registry_step.simps)
  have r3: "connections ?r3 = [1 \<mapsto> ?e1\<lparr>root_key_hash := ''s'', signal := Some 3\<rparr>]"
    "root_by_key ?r3 ''r'' = Some ''r''"
    "lookup_set (connections_by_key ?r3) k = (if k = ''a'' \<or> k = ''r'' \<or> k = ''s'' then {1} else {})" for k
    unfolding registry_step.simps(2) [of "''s''"]
    by (auto simp: signal_fields r2 m2 reroute_entry_def Let_def fun_eq_iff simp del: registry_step.simps)
  have r4: "connections ?r4 = Map.empty" "root_by_key ?r4 ''r'' = Some ''r''"
    "lookup_set (connections_by_key ?r4) ''r'' = {1}"
    unfolding registry_step.simps(3)
    by (auto simp: unregister_fields r3 entry_keys_def simp del: registry_step.simps)
  have "matching_tokens ?r4 ''r'' {} = {1}"
    by (auto simp: matching_tokens_def Let_def r4 image_filter_insert simp del: registry_step.simps)
  then have "snapshot ?r4 ''r'' {} = \<lparr>connection_count = 1, snapshot_account_ids = {}\<rparr>"
    by (simp add: snapshot_def token_accounts_def image_filter_def r4(1) del: registry_step.simps)
  moreover have "reachable_registry ?r4"
  proof (intro reachable_registry.intros)
    show "registry_op_ok (Register ''a'' {} 5 1) registry_default"
      by (simp add: registry_default_def)
  qed (simp_all add: r1(2) r2(2) del: registry_step.simps)
  ultimately show ?thesis
    using r4(1) by simp
qed

end
