(* ===== verification/Auth_File.thy ===== *)
theory Auth_File
  imports App_Error Json
begin

text \<open>
  Credential import (\<open>src/auth_file.rs\<close>): the Codex and OpenCode credential files, the claims read
  from their JWTs, and the timestamps they carry.  The base64 and JSON decoders and chrono's
  conversions are outside the repository: parameters \<open>b64_nopad\<close>, \<open>b64\<close>, \<open>json_parse\<close> and the
  record \<open>chrono\<close>.  A \<open>DateTime\<close> is its number of nanoseconds since the epoch.  serde's reading of
  a struct is written out: each field under one of its names, twice is an error.
\<close>

type_synonym datetime = int
type_synonym 'a any_result = "string + 'a"

record chrono =
  ts_seconds :: "int \<Rightarrow> datetime option"
  ts_millis :: "int \<Rightarrow> datetime option"
  rfc3339 :: "string \<Rightarrow> datetime option"
  datetime_of_str :: "string \<Rightarrow> datetime option"

record codecs =
  b64_nopad :: "string \<Rightarrow> string option"
  b64 :: "string \<Rightarrow> string option"
  json_parse :: "string \<Rightarrow> json option"

section \<open>Structures\<close>

record auth_tokens =
  tok_id :: string
  tok_access :: string
  tok_refresh :: string
  tok_account_id :: "string option"

record auth_file =
  api_key :: "string option"
  auth_toks :: auth_tokens
  auth_last_refresh_at :: "datetime option"

record auth_claims =
  cl_chatgpt_account_id :: "string option"
  cl_email :: string
  cl_plan_type :: string
  cl_access_expires_at :: "datetime option"
  cl_id_expires_at :: "datetime option"
  cl_workspace_id :: "string option"
  cl_workspace_name :: "string option"
  cl_workspace_role :: "string option"
  cl_workspace_is_default :: "bool option"

record workspace_claims =
  ws_id :: "string option"
  ws_name :: "string option"
  ws_role :: "string option"
  ws_is_default :: "bool option"

record opencode_record =
  oc_type :: "string option"
  oc_access :: string
  oc_refresh :: string
  oc_account_id :: "string option"
  oc_expires :: "json option"
  oc_id_token :: "string option"

definition or_else :: "'a option \<Rightarrow> 'a option \<Rightarrow> 'a option" where
  "or_else a b = (case a of Some _ \<Rightarrow> a | None \<Rightarrow> b)"

definition token_expires_at :: "auth_claims \<Rightarrow> datetime option" where
  "token_expires_at c = or_else (cl_access_expires_at c) (cl_id_expires_at c)"

definition redacted :: "string \<Rightarrow> string" where
  "redacted s = (if s = [] then ''[EMPTY]'' else ''[REDACTED]'')"

text \<open>The \<open>Debug\<close> rendering of credentials, as the list of its fields.\<close>

definition debug_tokens :: "auth_tokens \<Rightarrow> (string \<times> string) list \<times> string option" where
  "debug_tokens t = ([(''id_token'', redacted (tok_id t)), (''access_token'', redacted (tok_access t)),
     (''refresh_token'', redacted (tok_refresh t))], tok_account_id t)"

section \<open>Reading strings out of JSON\<close>

definition non_empty_str :: "json \<Rightarrow> string option" where
  "non_empty_str v = (case as_str v of None \<Rightarrow> None
     | Some s \<Rightarrow> if trim s = [] then None else Some (trim s))"

definition non_empty_owned :: "string option \<Rightarrow> string option" where
  "non_empty_owned v = (case v of None \<Rightarrow> None | Some s \<Rightarrow> if trim s = [] then None else Some (trim s))"

fun find_some :: "('a \<Rightarrow> 'b option) \<Rightarrow> 'a list \<Rightarrow> 'b option" where
  "find_some f [] = None"
| "find_some f (x # xs) = (case f x of Some y \<Rightarrow> Some y | None \<Rightarrow> find_some f xs)"

definition object_string :: "(string \<times> json) list \<Rightarrow> string list \<Rightarrow> string option" where
  "object_string m keys = find_some (\<lambda>k. Option.bind (map_of m k) non_empty_str) keys"

definition auth_claims_namespace :: string where
  "auth_claims_namespace = ''https://api.openai.com/auth''"

definition profile_claims_namespace :: string where
  "profile_claims_namespace = ''https://api.openai.com/profile''"

definition auth_claims_of :: "json \<Rightarrow> (string \<times> json) list option" where
  "auth_claims_of claims = Option.bind (jget auth_claims_namespace claims) as_object"

definition claim_string :: "json \<Rightarrow> string \<Rightarrow> string option" where
  "claim_string claims key =
     or_else (Option.bind (Option.bind (auth_claims_of claims) (\<lambda>m. map_of m key)) non_empty_str)
             (Option.bind (jget key claims) non_empty_str)"

definition email_claim :: "json \<Rightarrow> string option" where
  "email_claim claims =
     or_else (Option.bind (jget ''email'' claims) non_empty_str)
             (Option.bind (Option.bind (Option.bind (jget profile_claims_namespace claims) as_object)
                (\<lambda>m. map_of m ''email'')) non_empty_str)"

section \<open>Timestamps\<close>

definition epoch_timestamp :: "chrono \<Rightarrow> int \<Rightarrow> datetime option" where
  "epoch_timestamp ch raw = (if \<bar>raw\<bar> \<ge> 100000000000 then ts_millis ch raw else ts_seconds ch raw)"

fun as_f64 :: "json \<Rightarrow> rat option" where
  "as_f64 (JNumber (PosInt n)) = Some (of_nat n)"
| "as_f64 (JNumber (NegInt i)) = Some (of_int i)"
| "as_f64 (JNumber (Float q)) = Some q"
| "as_f64 _ = None"

text \<open>\<open>raw.trunc() as i64\<close>: truncation towards zero, saturating at the ends.\<close>

definition trunc_i64 :: "rat \<Rightarrow> int" where
  "trunc_i64 q = clamp i64_min i64_max (if 0 \<le> q then \<lfloor>q\<rfloor> else \<lceil>q\<rceil>)"

definition parse_timestamp :: "chrono \<Rightarrow> json \<Rightarrow> datetime option" where
  "parse_timestamp ch v =
     (case as_i64 v of Some raw \<Rightarrow> epoch_timestamp ch raw
      | None \<Rightarrow> (case Option.bind (as_u64 v) (\<lambda>n. i64_of (int n)) of Some raw \<Rightarrow> epoch_timestamp ch raw
      | None \<Rightarrow> (case as_f64 v of
          Some q \<Rightarrow> if of_int i64_min \<le> q \<and> q \<le> 2 ^ 63 then epoch_timestamp ch (trunc_i64 q) else None
        | None \<Rightarrow> (case as_str v of
            None \<Rightarrow> None
          | Some s \<Rightarrow> (case parse_i64 (trim s) of Some epoch \<Rightarrow> epoch_timestamp ch epoch
                      | None \<Rightarrow> rfc3339 ch (trim s))))))"

definition token_expiry :: "chrono \<Rightarrow> json \<Rightarrow> datetime option" where
  "token_expiry ch claims = Option.bind (jget ''exp'' claims) (parse_timestamp ch)"

section \<open>Workspaces\<close>

definition ws_default :: workspace_claims where
  "ws_default = \<lparr>ws_id = None, ws_name = None, ws_role = None, ws_is_default = None\<rparr>"

definition ws_merge :: "workspace_claims \<Rightarrow> workspace_claims \<Rightarrow> workspace_claims" where
  "ws_merge a b = \<lparr>ws_id = or_else (ws_id a) (ws_id b), ws_name = or_else (ws_name a) (ws_name b),
     ws_role = or_else (ws_role a) (ws_role b), ws_is_default = or_else (ws_is_default a) (ws_is_default b)\<rparr>"

definition workspace_from_object :: "(string \<times> json) list \<Rightarrow> workspace_claims" where
  "workspace_from_object m = \<lparr>ws_id = object_string m [''id'', ''workspace_id'', ''account_id''],
     ws_name = object_string m [''name'', ''title'', ''workspace_name''],
     ws_role = object_string m [''role'', ''workspace_role''],
     ws_is_default = Option.bind (or_else (map_of m ''is_default'') (map_of m ''isDefault'')) as_bool\<rparr>"

definition workspace_from_claims :: "json \<Rightarrow> workspace_claims" where
  "workspace_from_claims claims =
     (case auth_claims_of claims of
        None \<Rightarrow> ws_default
      | Some auth \<Rightarrow> (case Option.bind (map_of auth ''workspace'') as_object of
          Some w \<Rightarrow> workspace_from_object w
        | None \<Rightarrow> (case Option.bind (map_of auth ''organizations'') as_array of
            None \<Rightarrow> \<lparr>ws_id = object_string auth [''workspace_id'', ''chatgpt_workspace_id''],
                     ws_name = object_string auth [''workspace_name'', ''chatgpt_workspace_name'', ''workspace_title''],
                     ws_role = object_string auth [''workspace_role''],
                     ws_is_default = Option.bind (map_of auth ''workspace_is_default'') as_bool\<rparr>
          | Some orgs \<Rightarrow>
              (let objs = List.map_filter as_object orgs
               in case or_else (List.find (\<lambda>m. Option.bind (map_of m ''is_default'') as_bool = Some True) objs)
                               (case objs of [] \<Rightarrow> None | m # _ \<Rightarrow> Some m) of
                    Some m \<Rightarrow> workspace_from_object m
                  | None \<Rightarrow> ws_default))))"

section \<open>Claims\<close>

definition decode_jwt_payload :: "codecs \<Rightarrow> string \<Rightarrow> json option" where
  "decode_jwt_payload cs token =
     (case nth_part 1 (split CHR ''.'' (trim token)) of
        None \<Rightarrow> None
      | Some payload \<Rightarrow> Option.bind (or_else (b64_nopad cs payload) (b64 cs payload)) (json_parse cs))"

definition or_null :: "json option \<Rightarrow> json" where
  "or_null v = (case v of None \<Rightarrow> JNull | Some j \<Rightarrow> j)"

definition or_default :: "'a option \<Rightarrow> 'a \<Rightarrow> 'a" where
  "or_default v d = (case v of None \<Rightarrow> d | Some x \<Rightarrow> x)"

definition claims_from_auth :: "chrono \<Rightarrow> codecs \<Rightarrow> auth_file \<Rightarrow> auth_claims" where
  "claims_from_auth ch cs auth =
     (let id_claims = or_null (decode_jwt_payload cs (tok_id (auth_toks auth)));
          access_claims = or_null (decode_jwt_payload cs (tok_access (auth_toks auth)));
          account_from_claims = or_else (claim_string id_claims ''chatgpt_account_id'')
                                        (claim_string access_claims ''chatgpt_account_id'');
          plan_type = or_default (or_else (claim_string id_claims ''chatgpt_plan_type'')
                                   (claim_string access_claims ''chatgpt_plan_type'')) ''unknown'';
          email = or_default (or_else (email_claim id_claims) (email_claim access_claims)) ''unknown@example.com'';
          workspace = ws_merge (workspace_from_claims id_claims) (workspace_from_claims access_claims);
          chatgpt_account_id = or_else (non_empty_owned (tok_account_id (auth_toks auth))) account_from_claims
      in \<lparr>cl_chatgpt_account_id = chatgpt_account_id, cl_email = email, cl_plan_type = plan_type,
          cl_access_expires_at = token_expiry ch access_claims, cl_id_expires_at = token_expiry ch id_claims,
          cl_workspace_id = or_else (ws_id workspace) chatgpt_account_id,
          cl_workspace_name = ws_name workspace, cl_workspace_role = ws_role workspace,
          cl_workspace_is_default = ws_is_default workspace\<rparr>)"

section \<open>serde: a struct out of a JSON value\<close>

text \<open>
  A struct is read from an object, where each field is looked up under its names and given twice is
  an error, or from an array of at most as many elements as the struct has fields, by position.
\<close>

datatype field = Missing | Twice | Given json

definition struct_shape :: "nat \<Rightarrow> json \<Rightarrow> bool" where
  "struct_shape n v = (case v of JObject _ \<Rightarrow> True | JArray xs \<Rightarrow> length xs \<le> n | _ \<Rightarrow> False)"

definition struct_field :: "string list \<Rightarrow> nat \<Rightarrow> json \<Rightarrow> field" where
  "struct_field names i v =
     (case v of
        JObject m \<Rightarrow> (case filter (\<lambda>(k, _). k \<in> set names) m of
            [] \<Rightarrow> Missing | [(_, x)] \<Rightarrow> Given x | _ \<Rightarrow> Twice)
      | JArray xs \<Rightarrow> if i < length xs then Given (xs ! i) else Missing
      | _ \<Rightarrow> Missing)"

definition req_string :: "field \<Rightarrow> string option" where
  "req_string f = (case f of Given v \<Rightarrow> as_str v | _ \<Rightarrow> None)"

definition default_string :: "field \<Rightarrow> string option" where
  "default_string f = (case f of Missing \<Rightarrow> Some [] | Given v \<Rightarrow> as_str v | Twice \<Rightarrow> None)"

definition opt_field :: "(json \<Rightarrow> 'a option) \<Rightarrow> field \<Rightarrow> 'a option option" where
  "opt_field f x = (case x of Missing \<Rightarrow> Some None | Twice \<Rightarrow> None
     | Given v \<Rightarrow> if v = JNull then Some None else map_option Some (f v))"

definition de_tokens :: "json \<Rightarrow> auth_tokens option" where
  "de_tokens v =
     (if \<not> struct_shape 4 v then None else
      Option.bind (req_string (struct_field [''idToken'', ''id_token''] 0 v)) (\<lambda>i.
      Option.bind (req_string (struct_field [''accessToken'', ''access_token''] 1 v)) (\<lambda>a.
      Option.bind (req_string (struct_field [''refreshToken'', ''refresh_token''] 2 v)) (\<lambda>r.
      Option.bind (opt_field as_str (struct_field [''accountId'', ''account_id''] 3 v)) (\<lambda>acct.
      Some \<lparr>tok_id = i, tok_access = a, tok_refresh = r, tok_account_id = acct\<rparr>)))))"

definition de_auth_file :: "chrono \<Rightarrow> json \<Rightarrow> auth_file option" where
  "de_auth_file ch v =
     (if \<not> struct_shape 3 v then None else
      Option.bind (opt_field as_str (struct_field [''openai_api_key'', ''OPENAI_API_KEY''] 0 v)) (\<lambda>key.
      Option.bind (case struct_field [''tokens''] 1 v of Given t \<Rightarrow> de_tokens t | _ \<Rightarrow> None) (\<lambda>toks.
      Option.bind (opt_field (\<lambda>j. Option.bind (as_str j) (datetime_of_str ch))
          (struct_field [''lastRefreshAt'', ''last_refresh_at'', ''last_refresh''] 2 v)) (\<lambda>ts.
      Some \<lparr>api_key = key, auth_toks = toks, auth_last_refresh_at = ts\<rparr>))))"

definition de_opencode :: "json \<Rightarrow> opencode_record option" where
  "de_opencode v =
     (if \<not> struct_shape 6 v then None else
      Option.bind (opt_field as_str (struct_field [''type''] 0 v)) (\<lambda>ty.
      Option.bind (default_string (struct_field [''access''] 1 v)) (\<lambda>a.
      Option.bind (default_string (struct_field [''refresh''] 2 v)) (\<lambda>r.
      Option.bind (opt_field as_str (struct_field [''accountId'', ''account_id''] 3 v)) (\<lambda>acct.
      Option.bind (opt_field Some (struct_field [''expires''] 4 v)) (\<lambda>ex.
      Option.bind (opt_field as_str (struct_field [''idToken'', ''id_token'', ''id''] 5 v)) (\<lambda>i.
      Some \<lparr>oc_type = ty, oc_access = a, oc_refresh = r, oc_account_id = acct, oc_expires = ex,
            oc_id_token = i\<rparr>)))))))"

section \<open>Import\<close>

definition blank :: "string \<Rightarrow> bool" where
  "blank s \<longleftrightarrow> trim s = []"

definition parse_auth_json :: "chrono \<Rightarrow> codecs \<Rightarrow> json \<Rightarrow> (auth_file \<times> auth_claims) any_result" where
  "parse_auth_json ch cs value =
     (case de_auth_file ch value of
        None \<Rightarrow> Inl ''invalid auth.json payload''
      | Some auth \<Rightarrow>
          (let claims = claims_from_auth ch cs auth; t = auth_toks auth
           in if blank (tok_access t) \<or> blank (tok_refresh t) \<or> blank (tok_id t)
              then Inl ''auth.json is missing one or more tokens''
              else Inr (auth, claims)))"

definition is_opencode_provider :: "json \<Rightarrow> bool" where
  "is_opencode_provider v =
     (case as_object v of
        None \<Rightarrow> False
      | Some m \<Rightarrow>
          (case Option.bind (map_of m ''type'') as_str of
             Some ty \<Rightarrow> eq_ignore_ascii_case ty ''oauth'' | None \<Rightarrow> False)
          \<or> map_of m ''access'' \<noteq> None \<or> map_of m ''refresh'' \<noteq> None)"

definition provider_named :: "(string \<times> json) list \<Rightarrow> string \<Rightarrow> json option" where
  "provider_named m name = (case map_of m name of
     Some p \<Rightarrow> if is_opencode_provider p then Some p else None | None \<Rightarrow> None)"

definition find_opencode_provider :: "json \<Rightarrow> json option" where
  "find_opencode_provider v =
     (if is_opencode_provider v then Some v
      else case as_object v of
        None \<Rightarrow> None
      | Some m \<Rightarrow> (case find_some (provider_named m) [''openai'', ''codex''] of
          Some p \<Rightarrow> Some p
        | None \<Rightarrow> List.find is_opencode_provider (map snd m)))"

definition opencode_auth :: "opencode_record \<Rightarrow> auth_file" where
  "opencode_auth r =
     \<lparr>api_key = None,
      auth_toks = \<lparr>tok_id = (case oc_id_token r of Some i \<Rightarrow> if blank i then oc_access r else i
                                                | None \<Rightarrow> oc_access r),
                   tok_access = oc_access r, tok_refresh = oc_refresh r,
                   tok_account_id = non_empty_owned (oc_account_id r)\<rparr>,
      auth_last_refresh_at = None\<rparr>"

definition parse_opencode_auth_json ::
  "chrono \<Rightarrow> codecs \<Rightarrow> json \<Rightarrow> (auth_file \<times> auth_claims) any_result" where
  "parse_opencode_auth_json ch cs value =
     (case find_opencode_provider value of
        None \<Rightarrow> Inl ''OpenCode auth payload does not contain an OAuth provider''
      | Some provider \<Rightarrow> (case de_opencode provider of
          None \<Rightarrow> Inl ''invalid OpenCode OAuth provider payload''
        | Some r \<Rightarrow>
            if blank (oc_access r) \<or> blank (oc_refresh r)
            then Inl ''OpenCode OAuth provider is missing an access or refresh token''
            else (let auth = opencode_auth r;
                      claims = claims_from_auth ch cs auth
                  in Inr (auth, (case Option.bind (oc_expires r) (parse_timestamp ch) of
                                   Some t \<Rightarrow> claims\<lparr>cl_access_expires_at := Some t\<rparr>
                                 | None \<Rightarrow> claims)))))"

section \<open>Facts\<close>

lemma non_empty_owned_nonblank: "non_empty_owned v = Some s \<Longrightarrow> s \<noteq> []"
  by (auto simp: non_empty_owned_def split: option.splits if_splits)

lemma opencode_tokens_nonblank:
  "\<not> blank (oc_access r) \<Longrightarrow> \<not> blank (tok_id (auth_toks (opencode_auth r)))"
  by (auto simp: opencode_auth_def split: option.splits)

lemma parse_auth_tokens:
  "parse_auth_json ch cs v = Inr (auth, claims) \<Longrightarrow>
     \<not> blank (tok_access (auth_toks auth)) \<and> \<not> blank (tok_refresh (auth_toks auth))
     \<and> \<not> blank (tok_id (auth_toks auth)) \<and> claims = claims_from_auth ch cs auth"
  by (auto simp: parse_auth_json_def Let_def split: option.splits if_splits)

lemma parse_opencode_tokens:
  "parse_opencode_auth_json ch cs v = Inr (auth, claims) \<Longrightarrow>
     \<not> blank (tok_access (auth_toks auth)) \<and> \<not> blank (tok_refresh (auth_toks auth))
     \<and> \<not> blank (tok_id (auth_toks auth))"
  by (auto simp: parse_opencode_auth_json_def Let_def opencode_tokens_nonblank
      split: option.splits if_splits)
     (auto simp: opencode_auth_def)

section \<open>Properties\<close>

text \<open>
  An imported credential is usable: whichever format it comes from, none of the three tokens
  that are stored is blank (an OpenCode record without an identity token stores its access token).
\<close>

lemma imported_tokens_present:
  assumes "parse_auth_json ch cs v = Inr (auth, claims) \<or> parse_opencode_auth_json ch cs v = Inr (auth, claims)"
  shows "trim (tok_access (auth_toks auth)) \<noteq> [] \<and> trim (tok_refresh (auth_toks auth)) \<noteq> []
     \<and> trim (tok_id (auth_toks auth)) \<noteq> []"
  using assms parse_auth_tokens [of ch cs v auth claims] parse_opencode_tokens [of ch cs v auth claims]
  by (auto simp: blank_def)

definition no_codecs :: codecs where
  "no_codecs = \<lparr>b64_nopad = \<lambda>_. None, b64 = \<lambda>_. None, json_parse = \<lambda>_. None\<rparr>"

definition plain_chrono :: chrono where
  "plain_chrono = \<lparr>ts_seconds = \<lambda>s. Some (s * 10 ^ 9), ts_millis = \<lambda>m. Some (m * 10 ^ 6),
     rfc3339 = \<lambda>_. None, datetime_of_str = \<lambda>_. None\<rparr>"

lemma trim_ab: "trim ''a'' = ''a''" "trim ''b'' = ''b''"
  by (simp_all add: trim_plain plain_byte_def is_ascii_alphanumeric_def byte_def)

lemma imported_tokens_present_witness:
  "\<exists>auth claims.
     parse_opencode_auth_json plain_chrono no_codecs
       (JObject [(''access'', JString ''a''), (''refresh'', JString ''b'')]) = Inr (auth, claims)
     \<and> trim (tok_id (auth_toks auth)) \<noteq> []"
proof -
  let ?v = "JObject [(''access'', JString ''a''), (''refresh'', JString ''b'')]"
  obtain auth claims where p: "parse_opencode_auth_json plain_chrono no_codecs ?v = Inr (auth, claims)"
    by (simp add: parse_opencode_auth_json_def find_opencode_provider_def is_opencode_provider_def
        de_opencode_def struct_shape_def struct_field_def opt_field_def default_string_def blank_def trim_ab Let_def)
  then show ?thesis
    using imported_tokens_present [of plain_chrono no_codecs ?v auth claims] by blast
qed

text \<open>
  A provider record imports the same whether it is given directly or wrapped in a root object
  under \<open>openai\<close>, whatever other providers the root holds.
\<close>

lemma opencode_wrapped_provider:
  assumes "is_opencode_provider p" "map_of m ''openai'' = Some p" "\<not> is_opencode_provider (JObject m)"
  shows "parse_opencode_auth_json ch cs (JObject m) = parse_opencode_auth_json ch cs p"
  using assms by (simp add: parse_opencode_auth_json_def find_opencode_provider_def provider_named_def)

lemma opencode_wrapped_provider_witness:
  "parse_opencode_auth_json plain_chrono no_codecs
     (JObject [(''codex'', JObject [(''refresh'', JString ''c'')]), (''openai'', JObject [(''access'', JString ''a'')])])
   = parse_opencode_auth_json plain_chrono no_codecs (JObject [(''access'', JString ''a'')])"
  by (rule opencode_wrapped_provider) (simp_all add: is_opencode_provider_def)

end
