(* ===== verification/Database.thy ===== *)
theory Database
  imports App_Error Auth_File Settings Pricing
begin

text \<open>
  The SQLite store: one record per table row (\<open>migrations/\<close>, the row structs of
  \<open>src/models.rs\<close>), the database as a record of tables, the functions of SQLite the queries
  call, and the schema's keys and foreign keys as a well-formedness predicate.  A timestamp column
  holds text; an instant of the clock is SQLite's own representation, the milliseconds of the Julian
  day, and \<open>julianday('now')\<close> is that number of days, an exact rational.
\<close>

section \<open>Functions of SQLite and of the clock\<close>

text \<open>
  \<open>jd s\<close> is \<open>julianday(s)\<close>; \<open>jd_back s n\<close> is \<open>julianday(s, '-n seconds')\<close>; at the instant \<open>t\<close>,
  \<open>now_text t\<close> is \<open>strftime('%Y-%m-%dT%H:%M:%fZ', 'now')\<close>, \<open>now_plus t n\<close> the same with the modifier
  \<open>'+n seconds'\<close>, \<open>now_back_days t d\<close> with \<open>'-d days'\<close>; \<open>round6\<close> is \<open>ROUND(x, 6)\<close>;
  \<open>chrono_text t\<close> is \<open>Utc::now().format("%Y-%m-%dT%H:%M:%S%.9fZ")\<close> and \<open>dt_text\<close> the text sqlx
  stores for a \<open>DateTime\<close>; \<open>current_timestamp t\<close> is the column default \<open>CURRENT_TIMESTAMP\<close>.  The uuid crate's printer and parser are \<open>uuid_text\<close> and \<open>uuid_parse\<close>.
\<close>

type_synonym instant = nat

record sqlite =
  jd :: "string \<Rightarrow> rat option"
  jd_back :: "string \<Rightarrow> int \<Rightarrow> rat option"
  now_text :: "instant \<Rightarrow> string"
  now_plus :: "instant \<Rightarrow> int \<Rightarrow> string"
  now_back_days :: "instant \<Rightarrow> int \<Rightarrow> string"
  round6 :: "rat \<Rightarrow> rat"
  chrono_text :: "instant \<Rightarrow> string"
  dt_text :: "datetime \<Rightarrow> string"
  current_timestamp :: "instant \<Rightarrow> string"
  uuid_text :: "uuid \<Rightarrow> string"
  uuid_parse :: "string \<Rightarrow> uuid option"

definition now_jd :: "instant \<Rightarrow> rat" where
  "now_jd t = of_nat t / 86400000"

text \<open>What the code relies on of these functions: the texts it writes are read back as the instants
  they name, the textual order of its own timestamps is the order in time.\<close>

text \<open>The instants SQLite's date functions and four-digit years cover: from 0000-01-01 to the end of
  9999-12-31.\<close>

definition instant_ok :: "instant \<Rightarrow> bool" where
  "instant_ok t \<longleftrightarrow> 148699540800000 \<le> t \<and> t \<le> 464269060799999"

definition sqlite_ok :: "sqlite \<Rightarrow> bool" where
  "sqlite_ok q \<longleftrightarrow>
     (\<forall>t. instant_ok t \<longrightarrow> jd q (now_text q t) = Some (now_jd t))
     \<and> (\<forall>t. instant_ok t \<longrightarrow> jd q (chrono_text q t) = Some (now_jd t))
     \<and> (\<forall>t n. instant_ok t \<longrightarrow> instant_ok (t + 1000 * n) \<longrightarrow>
          jd q (now_plus q t (int n)) = Some (now_jd t + of_nat n / 86400))
     \<and> (\<forall>s t. instant_ok s \<longrightarrow> instant_ok t \<longrightarrow> s < t \<longrightarrow> chrono_text q s < chrono_text q t)"

text \<open>An instance: a timestamp is written as its number of milliseconds in unary.\<close>

definition unary :: "nat \<Rightarrow> string" where
  "unary n = replicate n CHR ''1''"

definition sample_sqlite :: sqlite where
  "sample_sqlite = \<lparr>jd = \<lambda>s. Some (of_nat (length s) / 86400000),
     jd_back = \<lambda>s n. Some (of_nat (length s) / 86400000 - of_int n / 86400),
     now_text = unary, now_plus = \<lambda>t n. unary (t + 1000 * nat n),
     now_back_days = \<lambda>t n. unary (t - 86400000 * nat n), round6 = \<lambda>x. x, chrono_text = unary,
     dt_text = \<lambda>n. unary (nat n), current_timestamp = unary, uuid_text = \<lambda>_. ''u'', uuid_parse = \<lambda>_. None\<rparr>"

lemma unary_less: "m < n \<Longrightarrow> unary m < unary n"
proof (induction n arbitrary: m)
  case (Suc n)
  then show ?case by (cases m) (auto simp: unary_def)
qed simp

lemma sample_sqlite_ok: "sqlite_ok sample_sqlite"
  by (auto simp: sqlite_ok_def sample_sqlite_def now_jd_def unary_less)
     (auto simp: unary_def field_simps of_nat_nat)

text \<open>Comparison of a nullable Julian day, NULL being neither.\<close>

definition jd_le :: "rat option \<Rightarrow> rat option \<Rightarrow> bool" where
  "jd_le a b = (case (a, b) of (Some x, Some y) \<Rightarrow> x \<le> y | _ \<Rightarrow> False)"

definition jd_gt :: "rat option \<Rightarrow> rat option \<Rightarrow> bool" where
  "jd_gt a b = (case (a, b) of (Some x, Some y) \<Rightarrow> x > y | _ \<Rightarrow> False)"

lemma jd_le_simps [simp]: "jd_le (Some x) (Some y) = (x \<le> y)" "jd_le None b = False" "jd_le a None = False"
  by (auto simp: jd_le_def split: option.splits)

lemma jd_gt_simps [simp]: "jd_gt (Some x) (Some y) = (x > y)" "jd_gt None b = False" "jd_gt a None = False"
  by (auto simp: jd_gt_def split: option.splits)

section \<open>Rows\<close>

record account =
  acc_id :: uuid
  acc_chatgpt_id :: "string option"
  acc_label :: string
  acc_email :: string
  acc_plan :: string
  acc_access :: string
  acc_refresh :: string
  acc_id_token :: string
  acc_last_refresh_at :: string
  acc_expires_at :: "string option"
  acc_usage_refresh_at :: "string option"
  acc_usage_error :: "string option"
  acc_status :: string
  acc_status_reason :: "string option"
  acc_created_at :: string
  acc_updated_at :: string

record runtime_row =
  rt_account :: uuid
  rt_last_selected_at :: "string option"
  rt_last_request_at :: "string option"
  rt_cooldown_until :: "string option"
  rt_cooldown_reason :: "string option"
  rt_failure_count :: int
  rt_inflight :: int
  rt_requests :: int
  rt_successful :: int
  rt_failed :: int
  rt_input :: int
  rt_output :: int
  rt_cached :: int
  rt_cache_write :: int
  rt_cost_lower :: int
  rt_cost_upper :: int
  rt_complete :: int
  rt_partial :: int
  rt_unpriced :: int
  rt_updated_at :: string

record usage_window =
  w_account :: uuid
  w_quota_key :: string
  w_quota_name :: string
  w_source_slot :: string
  w_kind :: string
  w_used_percent :: rat
  w_window_seconds :: "int option"
  w_reset_at :: "string option"
  w_fetched_at :: string

record usage_sample =
  smp_id :: int
  smp_account :: uuid
  smp_quota_key :: string
  smp_source_slot :: string
  smp_kind :: string
  smp_used_percent :: rat
  smp_reset_at :: "string option"
  smp_recorded_at :: string

record usage_snapshot =
  snp_id :: int
  snp_account :: uuid
  snp_recorded_at :: string
  snp_used_percent :: "rat option"
  snp_input :: "int option"
  snp_output :: "int option"
  snp_reset_at :: "string option"
  snp_raw :: json

record affinity_row =
  af_key :: string
  af_kind :: string
  af_account :: uuid
  af_created_at :: string
  af_last_used_at :: string
  af_generation :: int

datatype action_kind = Rebalance | Reroute

datatype action_status = Applied | Fallback | Pending | NoOp

fun action_kind_str :: "action_kind \<Rightarrow> string" where
  "action_kind_str Rebalance = ''rebalance''"
| "action_kind_str Reroute = ''reroute''"

fun action_status_str :: "action_status \<Rightarrow> string" where
  "action_status_str Applied = ''applied''"
| "action_status_str Fallback = ''fallback''"
| "action_status_str Pending = ''pending''"
| "action_status_str NoOp = ''no_op''"

record session_root =
  sr_root :: string
  sr_generation :: int
  sr_action :: "string option"
  sr_requested :: "uuid option"
  sr_effective :: "uuid option"
  sr_status :: "string option"
  sr_created_at :: string
  sr_updated_at :: string

record route_key_row =
  rk_key :: string
  rk_root :: string
  rk_kind :: string
  rk_created_at :: string
  rk_updated_at :: string

record log_row =
  log_id :: int
  log_request_id :: string
  log_account :: "uuid option"
  log_model :: "string option"
  log_status :: string
  log_selection_reason :: "string option"
  log_error_code :: "string option"
  log_error_message :: "string option"
  log_input :: "int option"
  log_output :: "int option"
  log_cached :: "int option"
  log_cache_write :: "int option"
  log_reasoning :: "int option"
  log_effective_model :: "string option"
  log_effective_tier :: "string option"
  log_pricing_version :: "string option"
  log_cost_status :: "string option"
  log_cost_lower :: "int option"
  log_cost_upper :: "int option"
  log_latency_ms :: "int option"
  log_created_at :: string

section \<open>The database\<close>

record db =
  t_accounts :: "account list"
  t_runtime :: "runtime_row list"
  t_windows :: "usage_window list"
  t_samples :: "usage_sample list"
  t_snapshots :: "usage_snapshot list"
  t_affinity :: "affinity_row list"
  t_roots :: "session_root list"
  t_route_keys :: "route_key_row list"
  t_logs :: "log_row list"
  t_settings :: "setting_row list"
  seq_samples :: int
  seq_snapshots :: int
  seq_logs :: int

definition empty_db :: db where
  "empty_db = \<lparr>t_accounts = [], t_runtime = [], t_windows = [], t_samples = [], t_snapshots = [],
     t_affinity = [], t_roots = [], t_route_keys = [], t_logs = [], t_settings = [],
     seq_samples = 0, seq_snapshots = 0, seq_logs = 0\<rparr>"

abbreviation get_account :: "uuid \<Rightarrow> db \<Rightarrow> account option" where
  "get_account aid d \<equiv> tbl_find acc_id aid (t_accounts d)"

abbreviation get_runtime :: "uuid \<Rightarrow> db \<Rightarrow> runtime_row option" where
  "get_runtime aid d \<equiv> tbl_find rt_account aid (t_runtime d)"

definition account_exists :: "uuid \<Rightarrow> db \<Rightarrow> bool" where
  "account_exists aid d \<longleftrightarrow> list_ex (\<lambda>a. acc_id a = aid) (t_accounts d)"

abbreviation update_runtime :: "uuid \<Rightarrow> (runtime_row \<Rightarrow> runtime_row) \<Rightarrow> db \<Rightarrow> db" where
  "update_runtime aid f d \<equiv> d\<lparr>t_runtime := tbl_update (\<lambda>r. rt_account r = aid) f (t_runtime d)\<rparr>"

text \<open>The texts SQLite reports for a violated constraint.\<close>

definition fk_error :: app_error where
  "fk_error = Database ''FOREIGN KEY constraint failed''"

definition unique_error :: "string \<Rightarrow> app_error" where
  "unique_error col = Database (''UNIQUE constraint failed: '' @ col)"

section \<open>Keys and foreign keys\<close>

definition opt_in :: "'a option \<Rightarrow> 'a set \<Rightarrow> bool" where
  "opt_in x A = (case x of None \<Rightarrow> True | Some v \<Rightarrow> v \<in> A)"

definition account_ids :: "db \<Rightarrow> uuid set" where
  "account_ids d = acc_id ` set (t_accounts d)"

definition chatgpt_unique :: "account list \<Rightarrow> bool" where
  "chatgpt_unique t \<longleftrightarrow>
     (\<forall>a \<in> set t. \<forall>b \<in> set t. acc_chatgpt_id a \<noteq> None \<longrightarrow> acc_chatgpt_id a = acc_chatgpt_id b \<longrightarrow> acc_id a = acc_id b)"

definition keys_ok :: "db \<Rightarrow> bool" where
  "keys_ok d \<longleftrightarrow> distinct (map acc_id (t_accounts d)) \<and> chatgpt_unique (t_accounts d) \<and> distinct (map rt_account (t_runtime d))
     \<and> distinct (map af_key (t_affinity d)) \<and> distinct (map sr_root (t_roots d))
     \<and> distinct (map rk_key (t_route_keys d))
     \<and> distinct (map (\<lambda>w. (w_account w, w_quota_key w, w_source_slot w)) (t_windows d))"

definition foreign_keys_ok :: "db \<Rightarrow> bool" where
  "foreign_keys_ok d \<longleftrightarrow>
     (\<forall>r \<in> set (t_runtime d). rt_account r \<in> account_ids d)
     \<and> (\<forall>w \<in> set (t_windows d). w_account w \<in> account_ids d)
     \<and> (\<forall>s \<in> set (t_samples d). smp_account s \<in> account_ids d)
     \<and> (\<forall>s \<in> set (t_snapshots d). snp_account s \<in> account_ids d)
     \<and> (\<forall>a \<in> set (t_affinity d). af_account a \<in> account_ids d)
     \<and> (\<forall>l \<in> set (t_logs d). opt_in (log_account l) (account_ids d))
     \<and> (\<forall>s \<in> set (t_roots d). opt_in (sr_requested s) (account_ids d) \<and> opt_in (sr_effective s) (account_ids d))
     \<and> (\<forall>k \<in> set (t_route_keys d). rk_root k \<in> sr_root ` set (t_roots d))"

text \<open>Routing joins an account with its runtime row: every account has one.\<close>

definition runtime_total :: "db \<Rightarrow> bool" where
  "runtime_total d \<longleftrightarrow> account_ids d \<subseteq> rt_account ` set (t_runtime d)"

definition db_ok :: "db \<Rightarrow> bool" where
  "db_ok d \<longleftrightarrow> keys_ok d \<and> foreign_keys_ok d \<and> runtime_total d"

lemma account_exists_iff: "account_exists aid d \<longleftrightarrow> aid \<in> account_ids d"
  by (auto simp: account_exists_def account_ids_def list_ex_iff)

lemma opt_in_simps [simp]: "opt_in None A" "opt_in (Some v) A = (v \<in> A)"
  by (simp_all add: opt_in_def)

lemma opt_in_mono: "A \<subseteq> B \<Longrightarrow> opt_in x A \<Longrightarrow> opt_in x B"
  by (cases x) auto

lemma empty_db_ok: "db_ok empty_db"
  by (simp add: db_ok_def keys_ok_def foreign_keys_ok_def runtime_total_def chatgpt_unique_def account_ids_def empty_db_def)

lemma find_update_runtime:
  "(\<And>r. rt_account (f r) = rt_account r) \<Longrightarrow>
   get_runtime b (update_runtime a f d)
     = (if b = a then map_option f (get_runtime a d) else get_runtime b d)"
  by (simp add: find_update_same)

section \<open>Updates that keep the keys\<close>

lemma image_update:
  assumes "\<And>r. g (f r) = g r"
  shows "g ` set (tbl_update p f t) = g ` set t"
proof -
  have "g (if p r then f r else r) = g r" for r
    by (simp add: assms)
  then show ?thesis by (simp only: set_update image_image)
qed

lemma ball_update:
  assumes "\<And>r. P (f r) = P r"
  shows "(\<forall>r \<in> set (tbl_update p f t). P r) \<longleftrightarrow> (\<forall>r \<in> set t. P r)"
proof -
  have "P (if p r then f r else r) = P r" for r
    by (simp add: assms)
  then show ?thesis by (simp only: set_update ball_simps)
qed

lemma distinct_update:
  "(\<And>r. g (f r) = g r) \<Longrightarrow> distinct (map g (tbl_update p f t)) = distinct (map g t)"
  by (subst map_update_key) simp_all

lemma db_ok_update_runtime:
  assumes "\<And>r. rt_account (f r) = rt_account r"
  shows "db_ok (d\<lparr>t_runtime := tbl_update p f (t_runtime d)\<rparr>) = db_ok d"
  by (simp add: db_ok_def keys_ok_def foreign_keys_ok_def runtime_total_def account_ids_def
      distinct_update assms image_update ball_update)

lemma db_ok_update_accounts:
  assumes "\<And>a. acc_id (f a) = acc_id a" "chatgpt_unique (t_accounts d) \<Longrightarrow> chatgpt_unique (tbl_update p f (t_accounts d))"
    and "db_ok d"
  shows "db_ok (d\<lparr>t_accounts := tbl_update p f (t_accounts d)\<rparr>)"
  using assms(2,3)
  by (simp add: db_ok_def keys_ok_def foreign_keys_ok_def runtime_total_def account_ids_def
      distinct_update assms(1) image_update)

lemma chatgpt_unique_pairs:
  "chatgpt_unique t \<longleftrightarrow> (\<forall>x \<in> (\<lambda>a. (acc_id a, acc_chatgpt_id a)) ` set t.
     \<forall>y \<in> (\<lambda>a. (acc_id a, acc_chatgpt_id a)) ` set t.
       snd x \<noteq> None \<longrightarrow> snd x = snd y \<longrightarrow> fst x = fst y)"
  by (simp add: chatgpt_unique_def)

lemma chatgpt_unique_update:
  assumes "\<And>a. acc_id (f a) = acc_id a \<and> acc_chatgpt_id (f a) = acc_chatgpt_id a"
  shows "chatgpt_unique (tbl_update p f t) = chatgpt_unique t"
  unfolding chatgpt_unique_pairs by (subst (1 2) image_update) (simp_all add: assms)

lemma db_ok_update_plain:
  "(\<And>a. acc_id (f a) = acc_id a \<and> acc_chatgpt_id (f a) = acc_chatgpt_id a) \<Longrightarrow> db_ok d
   \<Longrightarrow> db_ok (d\<lparr>t_accounts := tbl_update p f (t_accounts d)\<rparr>)"
  by (rule db_ok_update_accounts) (auto simp: chatgpt_unique_update)

end
