(* ===== verification/Accounts.thy ===== *)
theory Accounts
  imports Database
begin

text \<open>
  Accounts and their runtime rows: the account operations of \<open>src/db.rs\<close>.  Each operation is a
  function on the database that returns its result and the database after it; \<open>now\<close> is the instant
  SQLite's \<open>'now'\<close> reads, \<open>enc i\<close> the encryption of the \<open>i\<close>-th token (each call draws its own nonce).
\<close>

section \<open>Labels and statuses\<close>

definition label_byte :: "char \<Rightarrow> bool" where
  "label_byte c \<longleftrightarrow> is_ascii_alphanumeric c \<or> c = CHR ''-'' \<or> c = CHR ''_''"

definition normalize_label :: "string \<Rightarrow> string app_result" where
  "normalize_label label =
     (let value = to_ascii_lowercase (trim label)
      in if value = [] \<or> length value > 32 \<or> \<not> list_all label_byte value
         then Inl (BadRequest (''label must be 1-32 ASCII letters, numbers, '' @ quoted ''-'' @ '' or '' @ quoted ''_''))
         else Inr value)"

definition account_statuses :: "string list" where
  "account_statuses = [''active'', ''rate_limited'', ''quota_exceeded'', ''paused'', ''auth_failed'']"

definition validate_status_opt :: "string option \<Rightarrow> unit app_result" where
  "validate_status_opt status =
     (case status of
        None \<Rightarrow> Inr ()
      | Some s \<Rightarrow> if s \<in> set account_statuses then Inr ()
                  else Inl (BadRequest (''invalid account status '' @ quoted s)))"

definition opt_normalize_label :: "string option \<Rightarrow> string option app_result" where
  "opt_normalize_label label =
     (case label of None \<Rightarrow> Inr None | Some l \<Rightarrow> app_bind (normalize_label l) (\<lambda>v. Inr (Some v)))"

section \<open>Runtime rows\<close>

definition new_runtime_row :: "sqlite \<Rightarrow> instant \<Rightarrow> uuid \<Rightarrow> runtime_row" where
  "new_runtime_row q now aid = \<lparr>rt_account = aid, rt_last_selected_at = None, rt_last_request_at = None,
     rt_cooldown_until = None, rt_cooldown_reason = None, rt_failure_count = 0, rt_inflight = 0,
     rt_requests = 0, rt_successful = 0, rt_failed = 0, rt_input = 0, rt_output = 0, rt_cached = 0,
     rt_cache_write = 0, rt_cost_lower = 0, rt_cost_upper = 0, rt_complete = 0, rt_partial = 0,
     rt_unpriced = 0, rt_updated_at = now_text q now\<rparr>"

definition ensure_runtime_row :: "sqlite \<Rightarrow> instant \<Rightarrow> uuid \<Rightarrow> db \<Rightarrow> unit app_result \<times> db" where
  "ensure_runtime_row q now aid d =
     (if list_ex (\<lambda>r. rt_account r = aid) (t_runtime d) then (Inr (), d)
      else if \<not> account_exists aid d then (Inl fk_error, d)
      else (Inr (), d\<lparr>t_runtime := t_runtime d @ [new_runtime_row q now aid]\<rparr>))"

definition cooldown_account ::
  "sqlite \<Rightarrow> instant \<Rightarrow> uuid \<Rightarrow> int \<Rightarrow> string \<Rightarrow> db \<Rightarrow> unit app_result \<times> db" where
  "cooldown_account q now aid seconds reason d =
     (case ensure_runtime_row q now aid d of
        (Inl e, d') \<Rightarrow> (Inl e, d')
      | (Inr _, d') \<Rightarrow> (Inr (), update_runtime aid (\<lambda>r. r\<lparr>
            rt_cooldown_until := Some (now_plus q now seconds), rt_cooldown_reason := Some reason,
            rt_failure_count := rt_failure_count r + 1, rt_updated_at := now_text q now\<rparr>) d'))"

definition reset_inflight :: "db \<Rightarrow> db" where
  "reset_inflight d = d\<lparr>t_runtime := map (\<lambda>r. r\<lparr>rt_inflight := 0\<rparr>) (t_runtime d)\<rparr>"

section \<open>Accounts\<close>

abbreviation update_acc :: "uuid \<Rightarrow> (account \<Rightarrow> account) \<Rightarrow> db \<Rightarrow> db" where
  "update_acc aid f d \<equiv> d\<lparr>t_accounts := tbl_update (\<lambda>a. acc_id a = aid) f (t_accounts d)\<rparr>"

text \<open>The row an import inserts, and what it writes over the row that already has the same ChatGPT
  account.\<close>

definition imported_row ::
  "sqlite \<Rightarrow> instant \<Rightarrow> uuid \<Rightarrow> string \<Rightarrow> string \<Rightarrow> string \<Rightarrow> auth_file \<Rightarrow> auth_claims \<Rightarrow> string \<Rightarrow> account" where
  "imported_row q now new_id access refresh idt auth claims label =
     \<lparr>acc_id = new_id, acc_chatgpt_id = cl_chatgpt_account_id claims, acc_label = label,
      acc_email = cl_email claims, acc_plan = cl_plan_type claims, acc_access = access,
      acc_refresh = refresh, acc_id_token = idt,
      acc_last_refresh_at = (case auth_last_refresh_at auth of Some t \<Rightarrow> dt_text q t | None \<Rightarrow> now_text q now),
      acc_expires_at = map_option (dt_text q) (cl_access_expires_at claims),
      acc_usage_refresh_at = None, acc_usage_error = None, acc_status = ''active'', acc_status_reason = None,
      acc_created_at = now_text q now, acc_updated_at = now_text q now\<rparr>"

definition merge_imported :: "sqlite \<Rightarrow> instant \<Rightarrow> account \<Rightarrow> account \<Rightarrow> account" where
  "merge_imported q now old new = old\<lparr>
      acc_label := (if acc_label new = [] then acc_label old else acc_label new),
      acc_email := acc_email new, acc_plan := acc_plan new, acc_access := acc_access new,
      acc_refresh := acc_refresh new, acc_id_token := acc_id_token new,
      acc_last_refresh_at := acc_last_refresh_at new, acc_expires_at := acc_expires_at new,
      acc_status := ''active'', acc_status_reason := None, acc_updated_at := now_text q now\<rparr>"

definition same_chatgpt :: "account \<Rightarrow> account \<Rightarrow> bool" where
  "same_chatgpt n a \<longleftrightarrow> acc_chatgpt_id n \<noteq> None \<and> acc_chatgpt_id a = acc_chatgpt_id n"

definition insert_imported :: "sqlite \<Rightarrow> instant \<Rightarrow> account \<Rightarrow> db \<Rightarrow> account app_result \<times> db" where
  "insert_imported q now new d =
     (case List.find (same_chatgpt new) (t_accounts d) of
        Some old \<Rightarrow> (Inr (merge_imported q now old new),
                     update_acc (acc_id old) (\<lambda>a. merge_imported q now a new) d)
      | None \<Rightarrow> if account_exists (acc_id new) d then (Inl (unique_error ''accounts.id''), d)
                else (Inr new, d\<lparr>t_accounts := t_accounts d @ [new]\<rparr>))"

definition upsert_account ::
  "sqlite \<Rightarrow> instant \<Rightarrow> uuid \<Rightarrow> (nat \<Rightarrow> string \<Rightarrow> string any_result) \<Rightarrow> auth_file \<Rightarrow> auth_claims
     \<Rightarrow> string option \<Rightarrow> db \<Rightarrow> account app_result \<times> db" where
  "upsert_account q now new_id enc auth claims label d =
     (let t = auth_toks auth;
          row = app_bind (opt_normalize_label label) (\<lambda>l.
                app_bind (from_anyhow (enc 0 (tok_access t))) (\<lambda>a.
                app_bind (from_anyhow (enc 1 (tok_refresh t))) (\<lambda>r.
                app_bind (from_anyhow (enc 2 (tok_id t))) (\<lambda>i.
                Inr (imported_row q now new_id a r i auth claims (or_default l []))))))
      in case row of
           Inl e \<Rightarrow> (Inl e, d)
         | Inr new \<Rightarrow> (case insert_imported q now new d of
             (Inl e, d') \<Rightarrow> (Inl e, d')
           | (Inr acct, d') \<Rightarrow> (case ensure_runtime_row q now (acc_id acct) d' of
               (Inl e, d'') \<Rightarrow> (Inl e, d'')
             | (Inr _, d'') \<Rightarrow> (Inr acct, d''))))"

definition account_not_found :: "sqlite \<Rightarrow> uuid \<Rightarrow> app_error" where
  "account_not_found q aid = NotFound (''account '' @ uuid_text q aid @ '' not found'')"

definition update_account ::
  "sqlite \<Rightarrow> instant \<Rightarrow> uuid \<Rightarrow> string option \<Rightarrow> string option \<Rightarrow> string option \<Rightarrow> string option
     \<Rightarrow> db \<Rightarrow> account app_result \<times> db" where
  "update_account q now aid status label email plan_type d =
     (case app_bind (validate_status_opt status) (\<lambda>_. opt_normalize_label label) of
        Inl e \<Rightarrow> (Inl e, d)
      | Inr label' \<Rightarrow>
          (let d' = update_acc aid (\<lambda>a. a\<lparr>
                 acc_status := or_default status (acc_status a),
                 acc_label := or_default label' (acc_label a),
                 acc_email := or_default email (acc_email a),
                 acc_plan := or_default plan_type (acc_plan a),
                 acc_status_reason := (if status = Some ''active'' then None else acc_status_reason a),
                 acc_updated_at := now_text q now\<rparr>) d
           in (ok_or (get_account aid d') (account_not_found q aid), d')))"

text \<open>Deleting an account cascades to the rows that belong to it and clears the references the
  logs and the session roots hold.\<close>

definition forget :: "uuid \<Rightarrow> uuid option \<Rightarrow> uuid option" where
  "forget aid r = (if r = Some aid then None else r)"

definition cascade_account :: "uuid \<Rightarrow> db \<Rightarrow> db" where
  "cascade_account aid d = d\<lparr>
     t_accounts := tbl_delete (\<lambda>a. acc_id a = aid) (t_accounts d),
     t_runtime := tbl_delete (\<lambda>r. rt_account r = aid) (t_runtime d),
     t_windows := tbl_delete (\<lambda>w. w_account w = aid) (t_windows d),
     t_samples := tbl_delete (\<lambda>s. smp_account s = aid) (t_samples d),
     t_snapshots := tbl_delete (\<lambda>s. snp_account s = aid) (t_snapshots d),
     t_affinity := tbl_delete (\<lambda>f. af_account f = aid) (t_affinity d),
     t_logs := map (\<lambda>l. l\<lparr>log_account := forget aid (log_account l)\<rparr>) (t_logs d),
     t_roots := map (\<lambda>s. s\<lparr>sr_requested := forget aid (sr_requested s),
                           sr_effective := forget aid (sr_effective s)\<rparr>) (t_roots d)\<rparr>"

definition delete_account :: "sqlite \<Rightarrow> uuid \<Rightarrow> db \<Rightarrow> unit app_result \<times> db" where
  "delete_account q aid d =
     (if account_exists aid d then (Inr (), cascade_account aid d)
      else (Inl (account_not_found q aid), d))"

definition chatgpt_taken :: "uuid \<Rightarrow> string option \<Rightarrow> db \<Rightarrow> bool" where
  "chatgpt_taken aid c d \<longleftrightarrow>
     c \<noteq> None \<and> list_ex (\<lambda>a. acc_id a \<noteq> aid \<and> acc_chatgpt_id a = c) (t_accounts d)"

definition update_account_tokens ::
  "sqlite \<Rightarrow> instant \<Rightarrow> (nat \<Rightarrow> string \<Rightarrow> string any_result) \<Rightarrow> uuid \<Rightarrow> auth_file \<Rightarrow> auth_claims
     \<Rightarrow> db \<Rightarrow> account app_result \<times> db" where
  "update_account_tokens q now enc aid auth claims d =
     (let t = auth_toks auth;
          toks = app_bind (from_anyhow (enc 0 (tok_access t))) (\<lambda>a.
                 app_bind (from_anyhow (enc 1 (tok_refresh t))) (\<lambda>r.
                 app_bind (from_anyhow (enc 2 (tok_id t))) (\<lambda>i. Inr (a, r, i))))
      in case toks of
           Inl e \<Rightarrow> (Inl e, d)
         | Inr (a, r, i) \<Rightarrow>
             (if account_exists aid d \<and> chatgpt_taken aid (cl_chatgpt_account_id claims) d
              then (Inl (unique_error ''accounts.chatgpt_account_id''), d)
              else (let d' = update_acc aid (\<lambda>x. x\<lparr>
                       acc_access := a, acc_refresh := r, acc_id_token := i,
                       acc_chatgpt_id := or_else (cl_chatgpt_account_id claims) (acc_chatgpt_id x),
                       acc_email := cl_email claims, acc_plan := cl_plan_type claims,
                       acc_expires_at := or_else (map_option (dt_text q) (cl_access_expires_at claims)) (acc_expires_at x),
                       acc_last_refresh_at := now_text q now, acc_status := ''active'',
                       acc_status_reason := None, acc_updated_at := now_text q now\<rparr>) d
                    in (ok_or (get_account aid d') (account_not_found q aid), d'))))"

definition mark_auth_failed :: "sqlite \<Rightarrow> instant \<Rightarrow> uuid \<Rightarrow> string \<Rightarrow> db \<Rightarrow> db" where
  "mark_auth_failed q now aid reason d = update_acc aid (\<lambda>a. a\<lparr>acc_status := ''auth_failed'',
     acc_status_reason := Some reason, acc_updated_at := now_text q now\<rparr>) d"

definition mark_usage_error :: "sqlite \<Rightarrow> instant \<Rightarrow> uuid \<Rightarrow> string \<Rightarrow> db \<Rightarrow> db" where
  "mark_usage_error q now aid message d =
     update_acc aid (\<lambda>a. a\<lparr>acc_usage_error := Some message, acc_updated_at := now_text q now\<rparr>) d"

section \<open>Queries\<close>

definition account_count :: "db \<Rightarrow> nat" where
  "account_count d = length (filter (\<lambda>a. acc_status a = ''active'') (t_accounts d))"

definition active_accounts :: "db \<Rightarrow> account list" where
  "active_accounts d = sort_key acc_created_at (filter (\<lambda>a. acc_status a = ''active'') (t_accounts d))"

definition display_label :: "account \<Rightarrow> string" where
  "display_label a = (if acc_label a = [] then ''unlabeled'' else acc_label a)"

definition account_display_label :: "db \<Rightarrow> uuid \<Rightarrow> string app_result" where
  "account_display_label d aid =
     ok_or (map_option display_label (get_account aid d)) (NotFound ''account target no longer exists'')"

definition sql_trim :: "string \<Rightarrow> string" where
  "sql_trim s = rev (dropWhile (\<lambda>c. c = CHR '' '') (rev (dropWhile (\<lambda>c. c = CHR '' '') s)))"

definition labelled :: "string \<Rightarrow> db \<Rightarrow> account list" where
  "labelled l d = sort_key (\<lambda>a. (acc_created_at a, acc_id a))
     (filter (\<lambda>a. to_ascii_lowercase (sql_trim (acc_label a)) = l) (t_accounts d))"

record route_target =
  target_account :: uuid
  target_label :: string

definition resolve_session_route_target :: "sqlite \<Rightarrow> db \<Rightarrow> string \<Rightarrow> route_target app_result" where
  "resolve_session_route_target q d target0 =
     (let target = trim target0
      in if target = [] then Inl (BadRequest ''reroute target must not be empty'')
         else case uuid_parse q target of
           Some aid \<Rightarrow> (case account_display_label d aid of
               Inr l \<Rightarrow> Inr \<lparr>target_account = aid, target_label = l\<rparr>
             | Inl (NotFound _) \<Rightarrow> Inl (NotFound ''account target not found'')
             | Inl e \<Rightarrow> Inl e)
         | None \<Rightarrow> app_bind (normalize_label target) (\<lambda>normalized.
             (case take 2 (labelled normalized d) of
                [] \<Rightarrow> Inl (NotFound ''account target not found'')
              | [a] \<Rightarrow> Inr \<lparr>target_account = acc_id a, target_label = display_label a\<rparr>
              | _ \<Rightarrow> Inl (BadRequest ''account target label is ambiguous''))))"

section \<open>Every operation keeps the schema's constraints\<close>

lemma db_ok_add_runtime:
  assumes "db_ok d" "rt_account r \<in> account_ids d" "rt_account r \<notin> rt_account ` set (t_runtime d)"
  shows "db_ok (d\<lparr>t_runtime := t_runtime d @ [r]\<rparr>)"
  using assms by (auto simp: db_ok_def keys_ok_def foreign_keys_ok_def runtime_total_def account_ids_def)

lemma new_runtime_account [simp]: "rt_account (new_runtime_row q now aid) = aid"
  by (simp add: new_runtime_row_def)

lemma db_ok_ensure:
  assumes "db_ok d"
  shows "db_ok (snd (ensure_runtime_row q now aid d))"
  using assms by (auto simp: ensure_runtime_row_def account_exists_iff table_simps intro!: db_ok_add_runtime)

lemma db_ok_cooldown:
  assumes "db_ok d"
  shows "db_ok (snd (cooldown_account q now aid n reason d))"
  using db_ok_ensure [OF assms, of q now aid]
  by (auto simp: cooldown_account_def db_ok_update_runtime split: prod.splits sum.splits)

lemma db_ok_reset:
  assumes "db_ok d"
  shows "db_ok (reset_inflight d)"
proof -
  have "reset_inflight d = d\<lparr>t_runtime := tbl_update (\<lambda>_. True) (\<lambda>r. r\<lparr>rt_inflight := 0\<rparr>) (t_runtime d)\<rparr>"
    by (simp add: reset_inflight_def tbl_update_def)
  then show ?thesis using assms by (simp add: db_ok_update_runtime)
qed

lemma db_ok_update_account:
  "db_ok d \<Longrightarrow> db_ok (snd (update_account q now aid st l em pl d))"
  by (auto simp: update_account_def Let_def db_ok_update_plain split: sum.splits)

lemma db_ok_mark_auth_failed: "db_ok d \<Longrightarrow> db_ok (mark_auth_failed q now aid reason d)"
  by (simp add: mark_auth_failed_def db_ok_update_plain)

lemma db_ok_mark_usage_error: "db_ok d \<Longrightarrow> db_ok (mark_usage_error q now aid m d)"
  by (simp add: mark_usage_error_def db_ok_update_plain)

lemma chatgpt_unique_tokens:
  assumes "chatgpt_unique t" and "\<And>a. acc_id (f a) = acc_id a"
    and "\<And>a. acc_chatgpt_id (f a) = or_else c (acc_chatgpt_id a)"
    and "c \<noteq> None \<Longrightarrow> \<forall>a \<in> set t. acc_id a \<noteq> aid \<longrightarrow> acc_chatgpt_id a \<noteq> c"
  shows "chatgpt_unique (tbl_update (\<lambda>a. acc_id a = aid) f t)"
proof (cases c)
  case None
  then show ?thesis
    using assms(1-3) by (subst chatgpt_unique_update) (simp_all add: or_else_def)
next
  case (Some v)
  with assms(3) have fc: "acc_chatgpt_id (f a) = Some v" for a by (simp add: or_else_def)
  have other: "acc_chatgpt_id b \<noteq> Some v" if "b \<in> set t" "acc_id b \<noteq> aid" for b
    using assms(4) that Some by auto
  show ?thesis
    using assms(1,2) other unfolding chatgpt_unique_def set_update
    by (smt (verit) fc imageE)
qed

lemma db_ok_update_tokens:
  assumes "db_ok d"
  shows "db_ok (snd (update_account_tokens q now enc aid auth claims d))"
proof -
  have "\<forall>a \<in> set (t_accounts d). acc_id a \<noteq> aid \<longrightarrow> acc_chatgpt_id a \<noteq> cl_chatgpt_account_id claims"
    if "\<not> chatgpt_taken aid (cl_chatgpt_account_id claims) d" "cl_chatgpt_account_id claims \<noteq> None"
    using that by (auto simp: chatgpt_taken_def list_ex_iff)
  moreover have "tbl_update (\<lambda>a. acc_id a = aid) f (t_accounts d) = t_accounts d"
    if "\<not> account_exists aid d" for f
    using that by (auto simp: tbl_update_def account_exists_def list_ex_iff intro!: map_idI)
  ultimately show ?thesis using assms
    by (auto simp: update_account_tokens_def Let_def split: sum.splits
        intro!: db_ok_update_accounts intro: chatgpt_unique_tokens [where c = "cl_chatgpt_account_id claims"])
qed

lemma db_ok_add_account:
  assumes "db_ok d" "acc_id a \<notin> account_ids d" "rt_account r = acc_id a"
    and "acc_chatgpt_id a \<noteq> None \<Longrightarrow> \<forall>b \<in> set (t_accounts d). acc_chatgpt_id b \<noteq> acc_chatgpt_id a"
  shows "db_ok (d\<lparr>t_accounts := t_accounts d @ [a], t_runtime := t_runtime d @ [r]\<rparr>)"
proof -
  have ids: "account_ids d \<subseteq> account_ids (d\<lparr>t_accounts := t_accounts d @ [a], t_runtime := t_runtime d @ [r]\<rparr>)"
    by (auto simp: account_ids_def)
  have "chatgpt_unique (t_accounts d @ [a])"
    using assms unfolding chatgpt_unique_def db_ok_def keys_ok_def
    by (metis (no_types, lifting) UnE empty_iff insert_iff list.set(1,2) set_append)
  moreover have "rt_account r \<notin> rt_account ` set (t_runtime d)"
    using assms(1-3) by (auto simp: db_ok_def foreign_keys_ok_def)
  ultimately show ?thesis
    using assms(1-3) opt_in_mono [OF ids] ids
    by (auto simp: db_ok_def keys_ok_def foreign_keys_ok_def runtime_total_def account_ids_def)
qed

lemma merge_imported_keys [simp]:
  "acc_id (merge_imported q now old new) = acc_id old"
  "acc_chatgpt_id (merge_imported q now old new) = acc_chatgpt_id old"
  by (simp_all add: merge_imported_def)

lemma imported_row_fields [simp]:
  "acc_id (imported_row q now new_id a r i auth claims l) = new_id"
  "acc_status (imported_row q now new_id a r i auth claims l) = ''active''"
  "acc_chatgpt_id (imported_row q now new_id a r i auth claims l) = cl_chatgpt_account_id claims"
  by (simp_all add: imported_row_def)

lemma find_same_chatgpt: "List.find (same_chatgpt n) t = Some a \<Longrightarrow> a \<in> set t \<and> same_chatgpt n a"
  by (auto simp: find_Some_iff)

lemma insert_imported_exists:
  assumes "insert_imported q now new d = (Inr a, d1)"
  shows "account_exists (acc_id a) d1"
proof (cases "List.find (same_chatgpt new) (t_accounts d)")
  case None
  with assms show ?thesis by (auto simp: insert_imported_def account_exists_def split: if_splits)
next
  case (Some old)
  with assms find_same_chatgpt [OF Some] show ?thesis
    by (auto simp: insert_imported_def account_exists_iff account_ids_def image_update)
qed

lemma ensure_ok: "account_exists aid d \<Longrightarrow> fst (ensure_runtime_row q now aid d) = Inr ()"
  by (simp add: ensure_runtime_row_def)

text \<open>The two outcomes of an import that reaches the store.\<close>

lemma upsert_account_cases:
  assumes "upsert_account q now new_id enc auth claims label d = (Inr acct, d')" "db_ok d"
  obtains (created) new where "acct = new" "acc_id new = new_id" "acc_status new = ''active''"
      "acc_chatgpt_id new = cl_chatgpt_account_id claims" "new_id \<notin> account_ids d"
      "\<forall>b \<in> set (t_accounts d). \<not> same_chatgpt new b"
      "d' = d\<lparr>t_accounts := t_accounts d @ [new], t_runtime := t_runtime d @ [new_runtime_row q now new_id]\<rparr>"
  | (refreshed) old new where "old \<in> set (t_accounts d)" "same_chatgpt new old"
      "acc_chatgpt_id new = cl_chatgpt_account_id claims" "acct = merge_imported q now old new"
      "d' = update_acc (acc_id old) (\<lambda>a. merge_imported q now a new) d"
proof -
  from assms(1) obtain new d1 where n: "acc_id new = new_id" "acc_status new = ''active''"
      "acc_chatgpt_id new = cl_chatgpt_account_id claims"
    and ins: "insert_imported q now new d = (Inr acct, d1)"
    and ens: "ensure_runtime_row q now (acc_id acct) d1 = (Inr (), d')"
    unfolding upsert_account_def Let_def
    by (auto split: sum.splits prod.splits) (metis imported_row_fields)
  show thesis
  proof (cases "List.find (same_chatgpt new) (t_accounts d)")
    case (Some old)
    note old = find_same_chatgpt [OF Some]
    with ins Some have d1: "acct = merge_imported q now old new"
      "d1 = update_acc (acc_id old) (\<lambda>a. merge_imported q now a new) d"
      by (auto simp: insert_imported_def)
    have "acc_id old \<in> rt_account ` set (t_runtime d)"
      using old assms(2) by (auto simp: db_ok_def runtime_total_def account_ids_def)
    with ens d1 have "d' = d1" by (auto simp: ensure_runtime_row_def table_simps)
    with old n d1 show ?thesis by (intro refreshed) auto
  next
    case None
    with ins n(1) have d1: "acct = new" "new_id \<notin> account_ids d"
        "d1 = d\<lparr>t_accounts := t_accounts d @ [new]\<rparr>"
      by (auto simp: insert_imported_def account_exists_iff split: if_splits)
    have "new_id \<notin> rt_account ` set (t_runtime d)"
      using d1(2) assms(2) by (auto simp: db_ok_def foreign_keys_ok_def)
    with ens d1 n(1) have "d' = d1\<lparr>t_runtime := t_runtime d1 @ [new_runtime_row q now new_id]\<rparr>"
      by (auto simp: ensure_runtime_row_def table_simps account_exists_def)
    with d1 n None show ?thesis by (intro created) (auto simp: find_None_iff)
  qed
qed

lemma upsert_account_error:
  assumes "upsert_account q now new_id enc auth claims label d = (Inl e, d')"
  shows "d' = d"
proof -
  have "d1 = d" if "insert_imported q now new d = (Inl er, d1)" for new er d1
    using that by (auto simp: insert_imported_def split: option.splits if_splits)
  moreover have "ensure_runtime_row q now (acc_id a) d1 \<noteq> (Inl er, d2)"
    if "insert_imported q now new d = (Inr a, d1)" for new a d1 er d2
    using ensure_ok [OF insert_imported_exists [OF that], of q now] by auto
  ultimately show ?thesis
    using assms by (auto simp: upsert_account_def Let_def split: sum.splits prod.splits)
qed

lemma db_ok_upsert:
  assumes "db_ok d"
  shows "db_ok (snd (upsert_account q now new_id enc auth claims label d))"
proof (cases "upsert_account q now new_id enc auth claims label d")
  case (Pair res d')
  show ?thesis
  proof (cases res)
    case (Inl e)
    with Pair upsert_account_error assms show ?thesis by force
  next
    case (Inr acct)
    with Pair have *: "upsert_account q now new_id enc auth claims label d = (Inr acct, d')" by simp
    show ?thesis
    proof (cases rule: upsert_account_cases [OF * assms])
      case (1 new)
      with Pair assms show ?thesis
        by (auto simp: same_chatgpt_def intro!: db_ok_add_account)
    next
      case (2 old new)
      with Pair assms show ?thesis by (simp add: db_ok_update_plain)
    qed
  qed
qed

lemma forget_in: "opt_in x A \<Longrightarrow> opt_in (forget aid x) (A - {aid})"
  by (cases x) (auto simp: forget_def)

lemma cascade_ids: "account_ids (cascade_account aid d) = account_ids d - {aid}"
  by (auto simp: account_ids_def cascade_account_def set_delete)

lemma cascade_keys: "keys_ok d \<Longrightarrow> keys_ok (cascade_account aid d)"
  by (auto simp: keys_ok_def cascade_account_def distinct_delete chatgpt_unique_def set_delete comp_def)

lemma cascade_foreign:
  assumes "foreign_keys_ok d"
  shows "foreign_keys_ok (cascade_account aid d)"
proof -
  let ?c = "cascade_account aid d"
  have "opt_in (log_account l) (account_ids d - {aid})" if "l \<in> set (t_logs ?c)" for l
    using that assms forget_in by (fastforce simp: cascade_account_def foreign_keys_ok_def)
  moreover have "opt_in (sr_requested s) (account_ids d - {aid}) \<and> opt_in (sr_effective s) (account_ids d - {aid})"
    if "s \<in> set (t_roots ?c)" for s
    using that assms forget_in by (fastforce simp: cascade_account_def foreign_keys_ok_def)
  moreover have "sr_root ` set (t_roots ?c) = sr_root ` set (t_roots d)"
    by (simp add: cascade_account_def image_image)
  ultimately show ?thesis
    using assms unfolding foreign_keys_ok_def cascade_ids
    by (simp add: cascade_account_def set_delete)
qed

lemma db_ok_cascade:
  assumes "db_ok d"
  shows "db_ok (cascade_account aid d)"
proof -
  have "runtime_total (cascade_account aid d)"
    using assms unfolding runtime_total_def cascade_ids
    by (force simp: cascade_account_def set_delete db_ok_def runtime_total_def)
  with assms show ?thesis by (simp add: db_ok_def cascade_keys cascade_foreign)
qed

lemma db_ok_delete: "db_ok d \<Longrightarrow> db_ok (snd (delete_account q aid d))"
  by (simp add: delete_account_def db_ok_cascade)

section \<open>Label facts\<close>

lemma lower_idem: "to_ascii_lowercase (to_ascii_lowercase s) = to_ascii_lowercase s"
  by (simp add: to_ascii_lowercase_def to_ascii_lower_def is_ascii_upper_def byte_def)

lemma label_byte_plain: "label_byte c \<Longrightarrow> plain_byte c"
  by (auto simp: label_byte_def plain_byte_def is_ascii_alphanumeric_def is_ascii_digit_def
      is_ascii_lower_def is_ascii_upper_def byte_def)

lemma normalize_label_Inr:
  "normalize_label l = Inr v \<longleftrightarrow> v = to_ascii_lowercase (trim l) \<and> v \<noteq> [] \<and> length v \<le> 32 \<and> list_all label_byte v"
  by (auto simp: normalize_label_def Let_def)

lemma normalize_label_idem: "normalize_label l = Inr v \<Longrightarrow> normalize_label v = Inr v"
  unfolding normalize_label_Inr
  by (metis (no_types, lifting) label_byte_plain list_all_iff lower_idem trim_plain)

section \<open>Properties\<close>

text \<open>
  C21: importing a credential leaves exactly one usable account.  The returned account is what the
  store holds under its id, it is active and has a runtime row, so routing sees it; every other
  account is untouched; its id is the fresh one, or that of the account that already had the same
  ChatGPT account id.
\<close>

theorem upsert_account_stores:
  assumes "db_ok d" "upsert_account q now new_id enc auth claims label d = (Inr acct, d')"
  shows "db_ok d' \<and> get_account (acc_id acct) d' = Some acct \<and> acc_status acct = ''active''
     \<and> get_runtime (acc_id acct) d' \<noteq> None
     \<and> (\<forall>b. b \<noteq> acc_id acct \<longrightarrow> get_account b d' = get_account b d)
     \<and> (if acc_id acct \<in> account_ids d
        then acc_chatgpt_id acct = cl_chatgpt_account_id claims \<and> acc_chatgpt_id acct \<noteq> None
        else acc_id acct = new_id)"
proof -
  have ok: "db_ok d'" using db_ok_upsert [OF assms(1), of q now new_id enc auth claims label] assms(2) by simp
  have rt: "get_runtime b d' \<noteq> None" if "b \<in> account_ids d'" for b
    using that ok by (auto simp: db_ok_def runtime_total_def find_None_iff_key)
  show ?thesis
  proof (cases rule: upsert_account_cases [OF assms(2,1)])
    case (1 new)
    then have "get_account new_id d = None" by (simp add: find_None_iff_key account_ids_def)
    with 1 ok rt show ?thesis
      by (auto simp: find_append account_ids_def split: option.splits)
  next
    case (2 old new)
    have "get_account (acc_id old) d = Some old"
      using 2 assms(1) by (auto simp: db_ok_def keys_ok_def intro: find_distinct)
    with 2 ok rt show ?thesis
      by (auto simp: find_update_same account_ids_def same_chatgpt_def image_update)
         (auto simp: merge_imported_def)
  qed
qed

definition sample_auth :: auth_file where
  "sample_auth = \<lparr>api_key = None, auth_toks = \<lparr>tok_id = ''i'', tok_access = ''a'', tok_refresh = ''r'',
     tok_account_id = None\<rparr>, auth_last_refresh_at = None\<rparr>"

definition sample_claims :: auth_claims where
  "sample_claims = \<lparr>cl_chatgpt_account_id = Some ''c'', cl_email = ''e'', cl_plan_type = ''plus'',
     cl_access_expires_at = None, cl_id_expires_at = None, cl_workspace_id = None,
     cl_workspace_name = None, cl_workspace_role = None, cl_workspace_is_default = None\<rparr>"

lemma upsert_account_stores_witness:
  "\<exists>acct d'. upsert_account sample_sqlite 5 7 (\<lambda>_. Inr) sample_auth sample_claims None empty_db = (Inr acct, d')
     \<and> get_account 7 d' = Some acct \<and> acc_status acct = ''active''"
proof -
  obtain acct d' where u: "upsert_account sample_sqlite 5 7 (\<lambda>_. Inr) sample_auth sample_claims None empty_db
      = (Inr acct, d')"
    by (simp add: upsert_account_def Let_def opt_normalize_label_def insert_imported_def account_exists_def
        ensure_runtime_row_def empty_db_def)
  with upsert_account_stores [OF empty_db_ok u] show ?thesis
    by (auto simp: account_ids_def empty_db_def)
qed



text \<open>
  A stored label is canonical: 1 to 32 lower-case letters, digits, dashes or underscores, equal
  to its own normal form, and the same for every spelling of it in other case or with blanks around.
\<close>

lemma normalize_label_canonical:
  assumes "normalize_label l = Inr v"
  shows "v \<noteq> [] \<and> length v \<le> 32 \<and> (\<forall>c \<in> set v. label_byte c \<and> \<not> is_ascii_upper c)
     \<and> normalize_label v = Inr v
     \<and> (\<forall>l'. eq_ignore_ascii_case (trim l') v \<longrightarrow> normalize_label l' = Inr v)"
proof -
  have "\<not> is_ascii_upper (to_ascii_lower c)" for c
    by (auto simp: to_ascii_lower_def is_ascii_upper_def byte_def)
  then show ?thesis
    using assms normalize_label_idem [OF assms]
    by (auto simp: normalize_label_Inr list_all_iff to_ascii_lowercase_def eq_ignore_ascii_case_def)
      (simp add: to_ascii_lower_def)
qed

lemma normalize_label_canonical_witness: "normalize_label ''b'' = Inr ''b'' \<and> label_byte CHR ''b''"
proof -
  have "trim ''b'' = ''b''"
    by (simp add: trim_plain plain_byte_def is_ascii_alphanumeric_def byte_def)
  then have "normalize_label ''b'' = Inr ''b''"
    by (simp add: normalize_label_def to_ascii_lowercase_def to_ascii_lower_def is_ascii_upper_def byte_def
        label_byte_def is_ascii_alphanumeric_def is_ascii_lower_def)
  with normalize_label_canonical [OF this] show ?thesis by simp
qed

end
