(* ===== verification/Leases.thy ===== *)
theory Leases
  imports Prelude "HOL-Library.Multiset"
begin

text \<open>
  The interface between the store and the code that sends requests: a request takes a lease on an
  account and gives it back when it ends.  A pool counts the leases of each key; the clients (the
  HTTP proxy, the WebSocket bridge) rely on the laws below and on nothing else of the store.
\<close>

locale lease_pool =
  fixes load :: "'d \<Rightarrow> 'k \<Rightarrow> int option"
    and take_lease :: "'p \<Rightarrow> 'k \<Rightarrow> 'd \<Rightarrow> 'd"
    and give_back :: "'q \<Rightarrow> 'k \<Rightarrow> 'd \<Rightarrow> 'd"
  assumes load_take: "load (take_lease p k d) j = (if j = k then map_option (\<lambda>n. n + 1) (load d j) else load d j)"
    and load_give: "load (give_back q k d) j = (if j = k then map_option (\<lambda>n. max 0 (n - 1)) (load d j) else load d j)"
begin

text \<open>\<open>held d M\<close>: the counters of \<open>d\<close> are the numbers of leases outstanding in \<open>M\<close>.\<close>

definition held :: "'d \<Rightarrow> 'k multiset \<Rightarrow> bool" where
  "held d M \<longleftrightarrow> (\<forall>k n. load d k = Some n \<longrightarrow> n = int (count M k))"

lemma held_same: "(\<And>k n. load d' k = Some n \<Longrightarrow> load d k = Some n) \<Longrightarrow> held d M \<Longrightarrow> held d' M"
  by (auto simp: held_def)

lemma held_take: "held d M \<Longrightarrow> held (take_lease p k d) (add_mset k M)"
  by (auto simp: held_def load_take split: if_splits)

lemma held_give: "held d M \<Longrightarrow> k \<in># M \<Longrightarrow> held (give_back q k d) (M - {#k#})"
proof -
  assume h: "held d M" and k: "k \<in># M"
  have "n = int (count (M - {#k#}) j)" if "load (give_back q k d) j = Some n" for j n
  proof (cases "j = k")
    case True
    with that obtain m where "load d k = Some m" "n = max 0 (m - 1)" by (auto simp: load_give)
    moreover have "m = int (count M k)" using h calculation(1) by (auto simp: held_def)
    moreover have "1 \<le> count M k" using k by simp
    ultimately show ?thesis using True by (simp add: of_nat_diff)
  next
    case False
    with that h show ?thesis by (auto simp: held_def load_give)
  qed
  then show ?thesis by (simp add: held_def)
qed

text \<open>A lease that is taken and given back leaves every counter as it was.\<close>

lemma give_take:
  assumes "\<And>n. load d k = Some n \<Longrightarrow> 0 \<le> n"
  shows "load (give_back q k (take_lease p k d)) j = load d j"
  using assms by (cases "load d j") (auto simp: load_take load_give)

lemma held_nonneg: "held d M \<Longrightarrow> load d k = Some n \<Longrightarrow> 0 \<le> n"
  by (metis held_def of_nat_0_le_iff)

end

end
