(* ===== verification/Routing.thy ===== *)
theory Routing
  imports Accounts Leases
begin

text \<open>
  Account selection (\<open>select_account_for_request\<close> and the queries it is built from, \<open>src/db.rs\<close>):
  eligibility, the quota pressure of an account, the routing order, the sticky path, and the
  in-flight counter a selection takes and a release gives back.
\<close>

section \<open>Constants and types\<close>

definition min_freshness_seconds :: nat where
  "min_freshness_seconds = 300"

definition freshness_intervals :: nat where
  "freshness_intervals = 3"

definition clock_skew_seconds :: rat where
  "clock_skew_seconds = 300"

definition unknown_pressure :: rat where
  "unknown_pressure = 100"

definition inflight_penalty :: rat where
  "inflight_penalty = 2"

datatype selection_reason = Sticky | UsageWeighted | RoundRobin | Failover | WebsocketReuse

fun selection_reason_str :: "selection_reason \<Rightarrow> string" where
  "selection_reason_str Sticky = ''sticky''"
| "selection_reason_str UsageWeighted = ''usage_weighted''"
| "selection_reason_str RoundRobin = ''round_robin''"
| "selection_reason_str Failover = ''failover''"
| "selection_reason_str WebsocketReuse = ''websocket_reuse''"

record account_tokens =
  at_access :: string
  at_refresh :: string
  at_id :: string

record selected =
  sel_account :: account
  sel_tokens :: account_tokens
  sel_reason :: selection_reason

section \<open>The clock of a selection\<close>

text \<open>\<open>as_secs().saturating_mul(3).max(300).min(i64::MAX as u64)\<close>, in days.\<close>

definition freshness_seconds :: "nat \<Rightarrow> nat" where
  "freshness_seconds secs =
     min (2 ^ 63 - 1) (max min_freshness_seconds (min (2 ^ 64 - 1) (secs * freshness_intervals)))"

record clock =
  now_day :: rat
  fresh_days :: rat
  skew_days :: rat

text \<open>\<open>julianday(selected_at)\<close>, never NULL: the text is the code's own.\<close>

definition text_day :: "sqlite \<Rightarrow> string \<Rightarrow> rat" where
  "text_day q s = (case jd q s of Some j \<Rightarrow> j | None \<Rightarrow> 0)"

definition routing_clock :: "sqlite \<Rightarrow> string \<Rightarrow> nat \<Rightarrow> clock" where
  "routing_clock q selected_at interval =
     \<lparr>now_day = text_day q selected_at, fresh_days = of_nat (freshness_seconds interval) / 86400,
      skew_days = clock_skew_seconds / 86400\<rparr>"

section \<open>Pressure\<close>

datatype score_kind = ScoreUnknown | ScoreReset | ScoreRaw | ScoreTimed

definition clamped_used :: "usage_window \<Rightarrow> rat" where
  "clamped_used w = min 100 (max 0 (w_used_percent w))"

definition reset_day :: "sqlite \<Rightarrow> usage_window \<Rightarrow> rat option" where
  "reset_day q w = Option.bind (w_reset_at w) (jd q)"

definition malformed_window :: "sqlite \<Rightarrow> clock \<Rightarrow> usage_window \<Rightarrow> bool" where
  "malformed_window q c w \<longleftrightarrow>
     w_reset_at w \<noteq> None \<and> reset_day q w = None
     \<or> (case w_window_seconds w of Some s \<Rightarrow> s \<le> 0 | None \<Rightarrow> False)
     \<or> (case (reset_day q w, w_window_seconds w) of
          (Some x, Some s) \<Rightarrow> x > now_day c + of_int s / 86400 + skew_days c | _ \<Rightarrow> False)"

definition stale_fetch :: "sqlite \<Rightarrow> clock \<Rightarrow> usage_window \<Rightarrow> bool" where
  "stale_fetch q c w \<longleftrightarrow>
     (case jd q (w_fetched_at w) of None \<Rightarrow> True
      | Some x \<Rightarrow> x < now_day c - fresh_days c \<or> x > now_day c + skew_days c)"

definition classify :: "sqlite \<Rightarrow> clock \<Rightarrow> usage_window \<Rightarrow> score_kind" where
  "classify q c w =
     (if malformed_window q c w then ScoreUnknown
      else if (case reset_day q w of Some x \<Rightarrow> x \<le> now_day c \<and> x \<ge> now_day c - fresh_days c | None \<Rightarrow> False)
      then ScoreReset
      else if (case reset_day q w of Some x \<Rightarrow> x < now_day c - fresh_days c | None \<Rightarrow> False) then ScoreUnknown
      else if stale_fetch q c w then ScoreUnknown
      else if w_reset_at w = None \<or> w_window_seconds w = None then ScoreRaw
      else ScoreTimed)"

definition timed_pressure :: "sqlite \<Rightarrow> clock \<Rightarrow> usage_window \<Rightarrow> rat" where
  "timed_pressure q c w =
     (case (reset_day q w, w_window_seconds w) of
        (Some x, Some s) \<Rightarrow>
          clamped_used w - 100 * (1 - min 1 (max 0 ((x - now_day c) * 86400 / of_int s)))
      | _ \<Rightarrow> clamped_used w)"

definition window_pressure :: "sqlite \<Rightarrow> clock \<Rightarrow> usage_window \<Rightarrow> rat" where
  "window_pressure q c w =
     (case classify q c w of
        ScoreTimed \<Rightarrow> timed_pressure q c w
      | ScoreRaw \<Rightarrow> clamped_used w
      | ScoreReset \<Rightarrow> 0
      | ScoreUnknown \<Rightarrow> unknown_pressure)"

definition window_quality :: "sqlite \<Rightarrow> clock \<Rightarrow> usage_window \<Rightarrow> nat" where
  "window_quality q c w =
     (case classify q c w of ScoreUnknown \<Rightarrow> 2 | ScoreReset \<Rightarrow> 1 | _ \<Rightarrow> 0)"

definition window_effective_used :: "sqlite \<Rightarrow> clock \<Rightarrow> usage_window \<Rightarrow> rat" where
  "window_effective_used q c w =
     (case classify q c w of ScoreUnknown \<Rightarrow> unknown_pressure | ScoreReset \<Rightarrow> 0 | _ \<Rightarrow> clamped_used w)"

text \<open>\<open>MAX(...) ... GROUP BY account_id\<close> under a LEFT JOIN: NULL for an account with no window.\<close>

definition max_of :: "'a::linorder list \<Rightarrow> 'a option" where
  "max_of xs = (case xs of [] \<Rightarrow> None | x # ys \<Rightarrow> Some (fold max ys x))"

definition codex_windows :: "db \<Rightarrow> uuid \<Rightarrow> usage_window list" where
  "codex_windows d aid = filter (\<lambda>w. w_account w = aid \<and> w_quota_key w = ''codex'') (t_windows d)"

definition account_pressure :: "sqlite \<Rightarrow> clock \<Rightarrow> db \<Rightarrow> uuid \<Rightarrow> rat" where
  "account_pressure q c d aid =
     or_default (max_of (map (window_pressure q c) (codex_windows d aid))) unknown_pressure"

definition account_quality :: "sqlite \<Rightarrow> clock \<Rightarrow> db \<Rightarrow> uuid \<Rightarrow> nat" where
  "account_quality q c d aid = or_default (max_of (map (window_quality q c) (codex_windows d aid))) 2"

definition account_effective_used :: "sqlite \<Rightarrow> clock \<Rightarrow> db \<Rightarrow> uuid \<Rightarrow> rat" where
  "account_effective_used q c d aid =
     or_default (max_of (map (window_effective_used q c) (codex_windows d aid))) unknown_pressure"

section \<open>Eligibility\<close>

text \<open>The conditions every query that may pick an account repeats: it is active, not cooling down at
  the given day, and has no exhausted Codex window that has not reset.\<close>

definition window_exhausted :: "sqlite \<Rightarrow> rat \<Rightarrow> usage_window \<Rightarrow> bool" where
  "window_exhausted q day w \<longleftrightarrow>
     w_used_percent w \<ge> 100
     \<and> (case w_reset_at w of None \<Rightarrow> True
        | Some s \<Rightarrow> (case jd q s of None \<Rightarrow> True | Some x \<Rightarrow> x > day))"

definition quota_free :: "sqlite \<Rightarrow> rat \<Rightarrow> db \<Rightarrow> uuid \<Rightarrow> bool" where
  "quota_free q day d aid \<longleftrightarrow> \<not> list_ex (window_exhausted q day) (codex_windows d aid)"

definition cooled_down :: "sqlite \<Rightarrow> rat \<Rightarrow> runtime_row \<Rightarrow> bool" where
  "cooled_down q day r \<longleftrightarrow>
     (case rt_cooldown_until r of None \<Rightarrow> True | Some s \<Rightarrow> jd_le (jd q s) (Some day))"

definition row_eligible :: "sqlite \<Rightarrow> rat \<Rightarrow> db \<Rightarrow> account \<times> runtime_row \<Rightarrow> bool" where
  "row_eligible q day d = (\<lambda>(a, r). acc_status a = ''active'' \<and> cooled_down q day r \<and> quota_free q day d (acc_id a))"

text \<open>\<open>accounts INNER JOIN account_runtime_state\<close>, in the order of the accounts' rowids.\<close>

definition joined :: "db \<Rightarrow> (account \<times> runtime_row) list" where
  "joined d = List.map_filter (\<lambda>a. map_option (\<lambda>r. (a, r)) (get_runtime (acc_id a) d)) (t_accounts d)"

section \<open>The routing order\<close>

definition epoch_text :: string where
  "epoch_text = ''1970-01-01T00:00:00.000Z''"

definition last_selected :: "runtime_row \<Rightarrow> string" where
  "last_selected r = or_default (rt_last_selected_at r) epoch_text"

definition weighted_key ::
  "sqlite \<Rightarrow> clock \<Rightarrow> db \<Rightarrow> account \<times> runtime_row \<Rightarrow> rat \<times> nat \<times> rat \<times> int \<times> string \<times> string \<times> uuid" where
  "weighted_key q c d = (\<lambda>(a, r).
     (round6 q (account_pressure q c d (acc_id a) + inflight_penalty * of_int (max (rt_inflight r) 0)),
      account_quality q c d (acc_id a), account_effective_used q c d (acc_id a), max (rt_inflight r) 0,
      last_selected r, acc_created_at a, acc_id a))"

definition round_robin_key :: "account \<times> runtime_row \<Rightarrow> string \<times> string" where
  "round_robin_key = (\<lambda>(a, r). (last_selected r, acc_created_at a))"

definition candidates :: "sqlite \<Rightarrow> rat \<Rightarrow> uuid set \<Rightarrow> db \<Rightarrow> (account \<times> runtime_row) list" where
  "candidates q day excluded d =
     filter (\<lambda>p. row_eligible q day d p \<and> acc_id (fst p) \<notin> excluded) (joined d)"

definition usage_weighted :: "runtime_settings \<Rightarrow> bool" where
  "usage_weighted st \<longleftrightarrow> routing_strategy st \<noteq> ''round_robin''"

definition smart_candidate ::
  "sqlite \<Rightarrow> string \<Rightarrow> runtime_settings \<Rightarrow> nat \<Rightarrow> uuid set \<Rightarrow> db \<Rightarrow> uuid option" where
  "smart_candidate q selected_at st interval excluded d =
     (let c = routing_clock q selected_at interval;
          rows = candidates q (now_day c) excluded d
      in map_option (\<lambda>p. acc_id (fst p))
           (if usage_weighted st then first_min (weighted_key q c d) rows
            else first_min round_robin_key rows))"

section \<open>Acquire and release\<close>

definition expired :: "sqlite \<Rightarrow> instant \<Rightarrow> runtime_row \<Rightarrow> bool" where
  "expired q now r \<longleftrightarrow>
     (case rt_cooldown_until r of None \<Rightarrow> False | Some s \<Rightarrow> jd_le (jd q s) (Some (now_jd now)))"

definition acquire_row :: "sqlite \<Rightarrow> instant \<Rightarrow> runtime_row \<Rightarrow> runtime_row" where
  "acquire_row q now r = r\<lparr>rt_last_selected_at := Some (now_text q now),
     rt_cooldown_until := (if expired q now r then None else rt_cooldown_until r),
     rt_cooldown_reason := (if expired q now r then None else rt_cooldown_reason r),
     rt_inflight := rt_inflight r + 1, rt_updated_at := now_text q now\<rparr>"

definition acquirable :: "sqlite \<Rightarrow> instant \<Rightarrow> uuid \<Rightarrow> db \<Rightarrow> bool" where
  "acquirable q now aid d \<longleftrightarrow>
     list_ex (\<lambda>a. acc_id a = aid \<and> acc_status a = ''active'') (t_accounts d)
     \<and> list_ex (\<lambda>r. rt_account r = aid \<and> cooled_down q (now_jd now) r) (t_runtime d)
     \<and> quota_free q (now_jd now) d aid"

definition acquire_account_if_available :: "sqlite \<Rightarrow> instant \<Rightarrow> uuid \<Rightarrow> db \<Rightarrow> bool \<times> db" where
  "acquire_account_if_available q now aid d =
     (if acquirable q now aid d then (True, update_runtime aid (acquire_row q now) d) else (False, d))"

definition release_account_inner :: "sqlite \<Rightarrow> instant \<Rightarrow> bool \<Rightarrow> uuid \<Rightarrow> db \<Rightarrow> db" where
  "release_account_inner q now update_last_request aid d =
     update_runtime aid (\<lambda>r. r\<lparr>rt_inflight := max 0 (rt_inflight r - 1),
       rt_last_request_at := (if update_last_request then Some (now_text q now) else rt_last_request_at r),
       rt_updated_at := now_text q now\<rparr>) d"

definition release_account :: "sqlite \<Rightarrow> instant \<Rightarrow> uuid \<Rightarrow> db \<Rightarrow> db" where
  "release_account q now = release_account_inner q now True"

definition release_account_reservation :: "sqlite \<Rightarrow> instant \<Rightarrow> uuid \<Rightarrow> db \<Rightarrow> db" where
  "release_account_reservation q now = release_account_inner q now False"

section \<open>Selection\<close>

definition selected_account ::
  "sqlite \<Rightarrow> (string \<Rightarrow> string any_result) \<Rightarrow> db \<Rightarrow> uuid \<Rightarrow> selection_reason \<Rightarrow> selected app_result" where
  "selected_account q dec d aid reason =
     app_bind (ok_or (get_account aid d) (account_not_found q aid)) (\<lambda>a.
     app_bind (from_anyhow (dec (acc_access a))) (\<lambda>x.
     app_bind (from_anyhow (dec (acc_refresh a))) (\<lambda>y.
     app_bind (from_anyhow (dec (acc_id_token a))) (\<lambda>z.
     Inr \<lparr>sel_account = a, sel_tokens = \<lparr>at_access = x, at_refresh = y, at_id = z\<rparr>, sel_reason = reason\<rparr>))))"

definition pinned_account :: "sqlite \<Rightarrow> string \<Rightarrow> runtime_settings \<Rightarrow> db \<Rightarrow> string \<Rightarrow> uuid option" where
  "pinned_account q selected_at st d key =
     (case tbl_find af_key key (t_affinity d) of
        None \<Rightarrow> None
      | Some f \<Rightarrow> (case (get_account (af_account f) d, get_runtime (af_account f) d) of
          (Some a, Some r) \<Rightarrow>
            if row_eligible q (text_day q selected_at) d (a, r)
               \<and> jd_le (jd_back q selected_at (sticky_session_ttl_seconds st)) (jd q (af_last_used_at f))
            then Some (acc_id a) else None
        | _ \<Rightarrow> None))"

text \<open>Take the reservation's result; a failure to decrypt gives the reservation back.\<close>

definition finish_selection ::
  "sqlite \<Rightarrow> (string \<Rightarrow> string any_result) \<Rightarrow> instant \<Rightarrow> db \<Rightarrow> uuid \<Rightarrow> selection_reason \<Rightarrow> selected app_result \<times> db" where
  "finish_selection q dec now d aid reason =
     (case selected_account q dec d aid reason of
        Inr s \<Rightarrow> (Inr s, d)
      | Inl e \<Rightarrow> (Inl e, release_account q now aid d))"

definition select_row :: "sqlite \<Rightarrow> instant \<Rightarrow> string \<Rightarrow> runtime_row \<Rightarrow> runtime_row" where
  "select_row q now selected_at r = r\<lparr>rt_last_selected_at := Some selected_at, rt_cooldown_until := None,
     rt_cooldown_reason := None, rt_inflight := rt_inflight r + 1, rt_updated_at := now_text q now\<rparr>"

lemma lease_rows [simp]:
  "rt_account (select_row q now s r) = rt_account r" "rt_account (acquire_row q now r) = rt_account r"
  by (simp_all add: select_row_def acquire_row_def)

definition smart_reason :: "uuid set \<Rightarrow> runtime_settings \<Rightarrow> selection_reason" where
  "smart_reason excluded st =
     (if excluded \<noteq> {} then Failover else if usage_weighted st then UsageWeighted else RoundRobin)"

definition no_eligible :: app_error where
  "no_eligible = Unavailable ''no eligible accounts are available; retry after the current cooldown''"

definition select_smart ::
  "sqlite \<Rightarrow> (string \<Rightarrow> string any_result) \<Rightarrow> instant \<Rightarrow> string \<Rightarrow> uuid set \<Rightarrow> runtime_settings \<Rightarrow> nat
     \<Rightarrow> db \<Rightarrow> selected app_result \<times> db" where
  "select_smart q dec now selected_at excluded st interval d =
     (case smart_candidate q selected_at st interval excluded d of
        None \<Rightarrow> (Inl no_eligible, d)
      | Some aid \<Rightarrow> finish_selection q dec now (update_runtime aid (select_row q now selected_at) d) aid
                     (smart_reason excluded st))"

text \<open>\<open>sel\<close> is the instant the call formats as \<open>selected_at\<close>, \<open>now\<close> the one its later statements read.\<close>

definition select_account_for_request ::
  "sqlite \<Rightarrow> (string \<Rightarrow> string any_result) \<Rightarrow> instant \<Rightarrow> instant \<Rightarrow> string option \<Rightarrow> uuid set \<Rightarrow> runtime_settings
     \<Rightarrow> nat \<Rightarrow> db \<Rightarrow> selected app_result \<times> db" where
  "select_account_for_request q dec sel now affinity excluded st interval d =
     (let selected_at = chrono_text q sel;
          pinned = Option.bind affinity (pinned_account q selected_at st d)
      in case pinned of
           Some aid \<Rightarrow>
             if aid \<notin> excluded \<and> fst (acquire_account_if_available q now aid d)
             then finish_selection q dec now (snd (acquire_account_if_available q now aid d)) aid
                    (if excluded = {} then Sticky else Failover)
             else select_smart q dec now selected_at excluded st interval d
         | None \<Rightarrow> select_smart q dec now selected_at excluded st interval d)"

section \<open>Previews\<close>

record account_preview =
  preview_account :: uuid
  preview_label :: string

definition preview_smart_account ::
  "sqlite \<Rightarrow> instant \<Rightarrow> runtime_settings \<Rightarrow> nat \<Rightarrow> uuid set \<Rightarrow> db \<Rightarrow> account_preview option app_result" where
  "preview_smart_account q sel st interval excluded d =
     (case smart_candidate q (chrono_text q sel) st interval excluded d of
        None \<Rightarrow> Inr None
      | Some aid \<Rightarrow> app_bind (account_display_label d aid) (\<lambda>l.
          Inr (Some \<lparr>preview_account = aid, preview_label = l\<rparr>)))"

definition account_is_eligible :: "sqlite \<Rightarrow> string \<Rightarrow> db \<Rightarrow> uuid \<Rightarrow> bool" where
  "account_is_eligible q selected_at d aid \<longleftrightarrow>
     length (filter (\<lambda>p. acc_id (fst p) = aid \<and> row_eligible q (text_day q selected_at) d p) (joined d)) = 1"

section \<open>Facts about the join and the candidates\<close>

lemma in_joined: "(a, r) \<in> set (joined d) \<longleftrightarrow> a \<in> set (t_accounts d) \<and> get_runtime (acc_id a) d = Some r"
  by (force simp: joined_def List.map_filter_def)

lemma in_candidates:
  "(a, r) \<in> set (candidates q day excluded d) \<longleftrightarrow>
     a \<in> set (t_accounts d) \<and> get_runtime (acc_id a) d = Some r \<and> row_eligible q day d (a, r) \<and> acc_id a \<notin> excluded"
  by (auto simp: candidates_def in_joined)

lemma distinct_joined: "distinct (map acc_id (t_accounts d)) \<Longrightarrow> distinct (map (acc_id \<circ> fst) (joined d))"
proof -
  have "map (acc_id \<circ> fst) (List.map_filter (\<lambda>a. map_option (\<lambda>r. (a, r)) (get_runtime (acc_id a) d)) as)
      = map acc_id (filter (\<lambda>a. get_runtime (acc_id a) d \<noteq> None) as)" for as :: "account list"
    by (induction as) (auto simp: List.map_filter_def)
  then show "distinct (map acc_id (t_accounts d)) \<Longrightarrow> distinct (map (acc_id \<circ> fst) (joined d))"
    by (simp only: joined_def distinct_map_filter)
qed

lemma db_ok_find_account: "db_ok d \<Longrightarrow> a \<in> set (t_accounts d) \<Longrightarrow> get_account (acc_id a) d = Some a"
  by (auto simp: db_ok_def keys_ok_def intro: find_distinct)

lemma find_account_in: "get_account aid d = Some a \<Longrightarrow> a \<in> set (t_accounts d) \<and> acc_id a = aid"
  by (auto dest: find_Some_key)

lemma find_runtime_in: "get_runtime aid d = Some r \<Longrightarrow> r \<in> set (t_runtime d) \<and> rt_account r = aid"
  by (auto dest: find_Some_key)

text \<open>The eligibility of an account, read off its two rows.\<close>

definition eligible :: "sqlite \<Rightarrow> rat \<Rightarrow> db \<Rightarrow> uuid \<Rightarrow> bool" where
  "eligible q day d aid \<longleftrightarrow>
     (case (get_account aid d, get_runtime aid d) of
        (Some a, Some r) \<Rightarrow> row_eligible q day d (a, r) | _ \<Rightarrow> False)"

lemma eligibleI:
  "get_account aid d = Some a \<Longrightarrow> get_runtime aid d = Some r \<Longrightarrow> row_eligible q day d (a, r) \<Longrightarrow> eligible q day d aid"
  by (simp add: eligible_def)

lemma eligibleE:
  assumes "eligible q day d aid"
  obtains a r where "get_account aid d = Some a" "get_runtime aid d = Some r" "row_eligible q day d (a, r)"
  using assms by (auto simp: eligible_def split: option.splits)

lemma candidate_iff:
  assumes "db_ok d"
  shows "(\<exists>p \<in> set (candidates q day excluded d). acc_id (fst p) = aid) \<longleftrightarrow> eligible q day d aid \<and> aid \<notin> excluded"
  (is "?l \<longleftrightarrow> ?r")
proof
  assume ?l
  then obtain a r where "(a, r) \<in> set (candidates q day excluded d)" "acc_id a = aid" by auto
  then show ?r using db_ok_find_account [OF assms, of a] by (auto simp: in_candidates eligible_def)
next
  assume ?r
  then obtain a r where *: "get_account aid d = Some a" "get_runtime aid d = Some r" "row_eligible q day d (a, r)"
    by (auto elim: eligibleE)
  with \<open>?r\<close> find_account_in [OF *(1)] have "(a, r) \<in> set (candidates q day excluded d)"
    by (auto simp: in_candidates)
  then show ?l using find_account_in [OF *(1)] by force
qed

lemma acquirable_iff:
  assumes "db_ok d"
  shows "acquirable q now aid d \<longleftrightarrow> eligible q (now_jd now) d aid"
proof -
  have run: "(\<exists>r \<in> set (t_runtime d). rt_account r = aid \<and> P r)
      \<longleftrightarrow> (\<exists>r. get_runtime aid d = Some r \<and> P r)" for P
    using assms find_distinct [of rt_account "t_runtime d"]
    by (auto simp: db_ok_def keys_ok_def dest: find_Some_key)
  have acc: "(\<exists>a \<in> set (t_accounts d). acc_id a = aid \<and> P a)
      \<longleftrightarrow> (\<exists>a. get_account aid d = Some a \<and> P a)" for P
    using db_ok_find_account [OF assms] by (auto dest: find_Some_key)
  show ?thesis
    by (auto simp: acquirable_def list_ex_iff run acc eligible_def row_eligible_def
        dest: find_account_in split: option.splits)
qed

lemma eligible_count:
  assumes "db_ok d"
  shows "account_is_eligible q s d aid \<longleftrightarrow> eligible q (text_day q s) d aid"
proof -
  let ?P = "\<lambda>p. acc_id (fst p) = aid \<and> row_eligible q (text_day q s) d p"
  have dist: "distinct (map (acc_id \<circ> fst) (filter ?P (joined d)))"
    using assms by (intro distinct_map_filter distinct_joined) (auto simp: db_ok_def keys_ok_def)
  have "length xs = 1 \<longleftrightarrow> xs \<noteq> []"
    if "distinct (map f xs)" "\<forall>x \<in> set xs. f x = c" for f :: "account \<times> runtime_row \<Rightarrow> uuid" and xs c
    using that by (cases xs; cases "tl xs") auto
  from this [OF dist, of aid]
  have "account_is_eligible q s d aid \<longleftrightarrow> (\<exists>p \<in> set (joined d). ?P p)"
    by (auto simp: account_is_eligible_def filter_empty_conv)
  also have "\<dots> \<longleftrightarrow> eligible q (text_day q s) d aid"
    unfolding candidate_iff [OF assms, of q "text_day q s" "{}" aid, simplified, symmetric]
    by (auto simp: candidates_def simp del: split_paired_Ex split_paired_All)
  finally show ?thesis .
qed

section \<open>The in-flight counters are a lease pool\<close>

definition load :: "db \<Rightarrow> uuid \<Rightarrow> int option" where
  "load d aid = map_option rt_inflight (get_runtime aid d)"

lemma load_update:
  assumes "\<And>r. rt_account (f r) = rt_account r" "\<And>r. rt_inflight (f r) = g (rt_inflight r)"
  shows "load (update_runtime k f d) j = (if j = k then map_option g (load d j) else load d j)"
  by (simp add: load_def find_update_same assms option.map_comp comp_def)

lemma load_same:
  "t_runtime d' = t_runtime d \<Longrightarrow> load d' = load d"
  by (simp add: load_def fun_eq_iff)

definition take_smart :: "sqlite \<times> instant \<times> string \<Rightarrow> uuid \<Rightarrow> db \<Rightarrow> db" where
  "take_smart = (\<lambda>(q, now, s) k d. update_runtime k (select_row q now s) d)"

definition take_pinned :: "sqlite \<times> instant \<Rightarrow> uuid \<Rightarrow> db \<Rightarrow> db" where
  "take_pinned = (\<lambda>(q, now) k d. update_runtime k (acquire_row q now) d)"

definition give_lease :: "sqlite \<times> instant \<times> bool \<Rightarrow> uuid \<Rightarrow> db \<Rightarrow> db" where
  "give_lease = (\<lambda>(q, now, last) k d. release_account_inner q now last k d)"

interpretation smart_pool: lease_pool load take_smart give_lease
proof
  show "load (take_smart p k d) j = (if j = k then map_option (\<lambda>n. n + 1) (load d j) else load d j)" for p k d j
    by (cases p) (simp add: take_smart_def load_update select_row_def)
  show "load (give_lease g k d) j = (if j = k then map_option (\<lambda>n. max 0 (n - 1)) (load d j) else load d j)" for g k d j
    by (cases g) (simp add: give_lease_def release_account_inner_def load_update)
qed

interpretation pinned_pool: lease_pool load take_pinned give_lease
proof
  show "load (take_pinned p k d) j = (if j = k then map_option (\<lambda>n. n + 1) (load d j) else load d j)" for p k d j
    by (cases p) (simp add: take_pinned_def load_update acquire_row_def)
qed (rule smart_pool.load_give)

lemma release_is_give:
  "release_account q now aid d = give_lease (q, now, True) aid d"
  "release_account_reservation q now aid d = give_lease (q, now, False) aid d"
  by (simp_all add: release_account_def release_account_reservation_def give_lease_def)

section \<open>What a selection does\<close>

lemma smart_candidate_Some:
  assumes "smart_candidate q s st interval excluded d = Some aid" "db_ok d"
  shows "eligible q (text_day q s) d aid \<and> aid \<notin> excluded"
proof -
  let ?rows = "candidates q (text_day q s) excluded d"
  obtain p where "p \<in> set ?rows" "acc_id (fst p) = aid"
    using assms(1) first_min_Some [of "weighted_key q (routing_clock q s interval) d" ?rows]
      first_min_Some [of round_robin_key ?rows]
    by (auto simp: smart_candidate_def Let_def routing_clock_def split: if_splits)
  then show ?thesis using candidate_iff [OF assms(2)] by blast
qed

lemma smart_candidate_None:
  assumes "db_ok d"
  shows "smart_candidate q s st interval excluded d = None \<longleftrightarrow>
     (\<forall>aid. eligible q (text_day q s) d aid \<longrightarrow> aid \<in> excluded)"
proof -
  let ?rows = "candidates q (text_day q s) excluded d"
  have "smart_candidate q s st interval excluded d = None \<longleftrightarrow> ?rows = []"
    by (simp add: smart_candidate_def Let_def routing_clock_def)
  also have "\<dots> \<longleftrightarrow> (\<forall>aid. \<not> (\<exists>p \<in> set ?rows. acc_id (fst p) = aid))"
    by (cases ?rows) auto
  finally show ?thesis using candidate_iff [OF assms] by blast
qed

lemma pinned_eligible:
  assumes "pinned_account q s st d key = Some aid" "db_ok d"
  shows "eligible q (text_day q s) d aid"
  using assms(1) find_account_in
  by (fastforce simp: pinned_account_def eligible_def split: option.splits if_splits)

text \<open>The three ways a selection goes.\<close>

lemma select_cases:
  obtains (none) "smart_candidate q (chrono_text q sel) st interval excluded d = None"
      "select_account_for_request q dec sel now affinity excluded st interval d = (Inl no_eligible, d)"
  | (smart) aid where "smart_candidate q (chrono_text q sel) st interval excluded d = Some aid"
      "select_account_for_request q dec sel now affinity excluded st interval d
         = finish_selection q dec now (take_smart (q, now, chrono_text q sel) aid d) aid (smart_reason excluded st)"
  | (sticky) key aid where "affinity = Some key" "pinned_account q (chrono_text q sel) st d key = Some aid"
      "aid \<notin> excluded" "acquirable q now aid d"
      "select_account_for_request q dec sel now affinity excluded st interval d
         = finish_selection q dec now (take_pinned (q, now) aid d) aid (if excluded = {} then Sticky else Failover)"
proof -
  let ?sel = "select_account_for_request q dec sel now affinity excluded st interval d"
  let ?smart = "select_smart q dec now (chrono_text q sel) excluded st interval d"
  consider (one) "?sel = ?smart" | (two) key aid where "affinity = Some key"
      "pinned_account q (chrono_text q sel) st d key = Some aid" "aid \<notin> excluded" "acquirable q now aid d"
      "?sel = finish_selection q dec now (take_pinned (q, now) aid d) aid (if excluded = {} then Sticky else Failover)"
  proof (cases "Option.bind affinity (pinned_account q (chrono_text q sel) st d)")
    case None
    then show ?thesis by (intro one) (simp add: select_account_for_request_def Let_def)
  next
    case (Some aid)
    then obtain key where key: "affinity = Some key" "pinned_account q (chrono_text q sel) st d key = Some aid"
      by (auto simp: bind_eq_Some_conv)
    show ?thesis
    proof (cases "aid \<notin> excluded \<and> acquirable q now aid d")
      case True
      with key show ?thesis
        by (intro two [of key aid]) (auto simp: select_account_for_request_def Let_def
            acquire_account_if_available_def take_pinned_def)
    next
      case False
      with key show ?thesis
        by (intro one) (auto simp: select_account_for_request_def Let_def acquire_account_if_available_def)
    qed
  qed
  then show thesis
  proof cases
    case one
    show thesis
    proof (cases "smart_candidate q (chrono_text q sel) st interval excluded d")
      case None
      with one show thesis by (intro none) (auto simp: select_smart_def)
    next
      case (Some aid)
      with one show thesis by (intro smart) (auto simp: select_smart_def take_smart_def)
    qed
  next
    case two
    then show thesis by (rule sticky)
  qed
qed

lemma finish_Inr:
  "finish_selection q dec now d aid reason = (Inr s, d') \<longleftrightarrow> d' = d \<and> selected_account q dec d aid reason = Inr s"
  by (auto simp: finish_selection_def split: sum.splits)

lemma finish_Inl:
  "finish_selection q dec now d aid reason = (Inl e, d') \<longleftrightarrow>
     d' = release_account q now aid d \<and> selected_account q dec d aid reason = Inl e"
  by (auto simp: finish_selection_def split: sum.splits)

lemma selected_account_Inr:
  "selected_account q dec d aid reason = Inr s \<Longrightarrow> get_account aid d = Some (sel_account s) \<and> sel_reason s = reason"
  by (auto simp: selected_account_def)

lemma take_accounts [simp]:
  "t_accounts (take_smart p k d) = t_accounts d" "t_windows (take_smart p k d) = t_windows d"
  "t_accounts (take_pinned p' k d) = t_accounts d" "t_windows (take_pinned p' k d) = t_windows d"
  "t_accounts (give_lease g k d) = t_accounts d" "t_windows (give_lease g k d) = t_windows d"
  by (simp_all add: take_smart_def take_pinned_def give_lease_def release_account_inner_def split: prod.splits)

lemma selected_account_take [simp]:
  "selected_account q dec (take_smart p k d) = selected_account q dec d"
  "selected_account q dec (take_pinned p' k d) = selected_account q dec d"
  by (simp_all add: selected_account_def fun_eq_iff)

lemma db_ok_lease [simp]:
  "db_ok (take_smart p k d) = db_ok d" "db_ok (take_pinned p' k d) = db_ok d" "db_ok (give_lease g k d) = db_ok d"
  by (simp_all add: take_smart_def take_pinned_def give_lease_def release_account_inner_def db_ok_update_runtime
      select_row_def acquire_row_def split: prod.splits)

lemma db_ok_select: "db_ok d \<Longrightarrow> db_ok (snd (select_account_for_request q dec sel now aff ex st iv d))"
  by (cases rule: select_cases [of q sel st iv ex d dec now aff])
    (auto simp: finish_selection_def release_is_give split: sum.splits)

lemma db_ok_acquire: "db_ok d \<Longrightarrow> db_ok (snd (acquire_account_if_available q now aid d))"
  using db_ok_lease(2) [of "(q, now)" aid d] by (simp add: acquire_account_if_available_def take_pinned_def)

section \<open>Bounds of the pressure\<close>

lemma clamped_used_range: "0 \<le> clamped_used w \<and> clamped_used w \<le> 100"
  by (auto simp: clamped_used_def)

lemma timed_pressure_range: "- 100 \<le> timed_pressure q c w \<and> timed_pressure q c w \<le> 100"
proof -
  have "0 \<le> min 1 (max 0 x) \<and> min 1 (max 0 x) \<le> 1" for x :: rat by auto
  then show ?thesis
    using clamped_used_range [of w] unfolding timed_pressure_def
    by (auto simp: algebra_simps split: option.splits)
qed

lemma window_pressure_range: "- 100 \<le> window_pressure q c w \<and> window_pressure q c w \<le> 100"
  using timed_pressure_range [of q c w] clamped_used_range [of w]
  by (auto simp: window_pressure_def unknown_pressure_def split: score_kind.split)

lemma fold_max_in: "fold max ys x \<in> insert x (set ys)" for x :: "'a::linorder"
proof (induction ys arbitrary: x)
  case (Cons y ys)
  from Cons.IH [of "max y x"] show ?case by (auto simp: max_def split: if_splits)
qed simp

lemma fold_max_ge: "\<forall>y \<in> insert x (set ys). y \<le> fold max ys x" for x :: "'a::linorder"
proof (induction ys arbitrary: x)
  case (Cons y ys)
  from Cons.IH [of "max y x"] show ?case by (auto intro: order_trans)
qed simp

lemma max_of_spec:
  "max_of xs = Some m \<longleftrightarrow> m \<in> set xs \<and> (\<forall>x \<in> set xs. x \<le> m)"
proof (cases xs)
  case (Cons x ys)
  then show ?thesis
    using fold_max_in [of ys x] fold_max_ge [of x ys] by (auto simp: max_of_def intro: order.antisym)
qed (simp add: max_of_def)

lemma max_of_None [simp]: "max_of xs = None \<longleftrightarrow> xs = []"
  by (cases xs) (auto simp: max_of_def)

lemma account_pressure_range: "- 100 \<le> account_pressure q c d aid \<and> account_pressure q c d aid \<le> 100"
proof (cases "max_of (map (window_pressure q c) (codex_windows d aid))")
  case None
  then show ?thesis by (simp add: account_pressure_def or_default_def unknown_pressure_def max_of_def)
next
  case (Some m)
  then obtain w where "m = window_pressure q c w" by (auto simp: max_of_spec)
  with Some show ?thesis
    using window_pressure_range [of q c w] by (simp add: account_pressure_def or_default_def)
qed

section \<open>Properties\<close>

text \<open>
  C1: a selection only ever hands out a usable account.  The account was not excluded, was active,
  out of cooldown and below its quota when the choice was made (the smart path decides at
  \<open>selected_at\<close>, the sticky path re-checks at the time of the update), the store takes exactly one
  lease, on that account, and the schema's constraints still hold.
\<close>

theorem selection_hands_out_eligible:
  assumes "db_ok d" "select_account_for_request q dec sel now affinity excluded st interval d = (Inr s, d')"
  shows "let aid = acc_id (sel_account s) in
       aid \<notin> excluded
     \<and> (eligible q (text_day q (chrono_text q sel)) d aid \<or> eligible q (now_jd now) d aid)
     \<and> get_account aid d = Some (sel_account s)
     \<and> (\<forall>k. load d' k = (if k = aid then map_option (\<lambda>n. n + 1) (load d k) else load d k))
     \<and> db_ok d'"
proof -
  have ok: "db_ok d'" using db_ok_select [OF assms(1)] assms(2) by (metis snd_conv)
  show ?thesis
  proof (cases rule: select_cases [of q sel st interval excluded d dec now affinity])
    case none
    with assms(2) show ?thesis by simp
  next
    case (smart aid)
    from smart(2) assms(2) have "finish_selection q dec now (take_smart (q, now, chrono_text q sel) aid d) aid
        (smart_reason excluded st) = (Inr s, d')" by simp
    then have "d' = take_smart (q, now, chrono_text q sel) aid d" "get_account aid d = Some (sel_account s)"
      by (auto simp: finish_Inr dest: selected_account_Inr)
    with ok smart_candidate_Some [OF smart(1) assms(1)] find_account_in show ?thesis
      by (auto simp: Let_def smart_pool.load_take)
  next
    case (sticky key aid)
    from sticky(5) assms(2) have "finish_selection q dec now (take_pinned (q, now) aid d) aid
        (if excluded = {} then Sticky else Failover) = (Inr s, d')" by simp
    then have "d' = take_pinned (q, now) aid d" "get_account aid d = Some (sel_account s)"
      unfolding finish_Inr by (auto dest: selected_account_Inr)
    with sticky(3,4) ok acquirable_iff [OF assms(1)] find_account_in show ?thesis
      by (auto simp: Let_def pinned_pool.load_take)
  qed
qed

definition sample_db :: db where
  "sample_db = snd (upsert_account sample_sqlite 5 7 (\<lambda>_. Inr) sample_auth sample_claims None empty_db)"

lemma sample_db_ok: "db_ok sample_db"
  by (simp add: sample_db_def db_ok_upsert empty_db_ok)

lemma sample_db_fields:
  "t_accounts sample_db = [imported_row sample_sqlite 5 7 ''a'' ''r'' ''i'' sample_auth sample_claims []]"
  "t_runtime sample_db = [new_runtime_row sample_sqlite 5 7]" "t_windows sample_db = []" "t_affinity sample_db = []"
  by (simp_all add: sample_db_def upsert_account_def Let_def opt_normalize_label_def insert_imported_def
      account_exists_def ensure_runtime_row_def empty_db_def or_default_def sample_auth_def)

lemma sample_row_eligible:
  "row_eligible sample_sqlite day sample_db
     (imported_row sample_sqlite 5 7 ''a'' ''r'' ''i'' sample_auth sample_claims [], new_runtime_row sample_sqlite 5 7)"
  by (simp add: row_eligible_def cooled_down_def new_runtime_row_def quota_free_def codex_windows_def sample_db_fields)

lemma sample_candidate:
  "smart_candidate sample_sqlite s settings_default 60 {} sample_db = Some 7"
  by (simp add: smart_candidate_def Let_def candidates_def joined_def List.map_filter_def sample_db_fields
      sample_row_eligible)

lemma sample_selected:
  "selected_account sample_sqlite Inr sample_db 7 reason
     = Inr \<lparr>sel_account = imported_row sample_sqlite 5 7 ''a'' ''r'' ''i'' sample_auth sample_claims [],
            sel_tokens = \<lparr>at_access = ''a'', at_refresh = ''r'', at_id = ''i''\<rparr>, sel_reason = reason\<rparr>"
  by (simp add: selected_account_def sample_db_fields) (simp add: imported_row_def)

lemma sample_select:
  "select_account_for_request sample_sqlite Inr 6 6 None {} settings_default 60 sample_db
     = (Inr \<lparr>sel_account = imported_row sample_sqlite 5 7 ''a'' ''r'' ''i'' sample_auth sample_claims [],
            sel_tokens = \<lparr>at_access = ''a'', at_refresh = ''r'', at_id = ''i''\<rparr>, sel_reason = UsageWeighted\<rparr>,
        take_smart (sample_sqlite, 6, chrono_text sample_sqlite 6) 7 sample_db)"
proof (cases rule: select_cases [of sample_sqlite 6 settings_default 60 "{}" sample_db Inr 6 None])
  case (smart aid)
  then have "aid = 7" by (simp add: sample_candidate)
  moreover have "smart_reason {} settings_default = UsageWeighted"
    by (simp add: smart_reason_def usage_weighted_def settings_default_def)
  ultimately show ?thesis using smart by (simp add: finish_selection_def sample_selected)
qed (simp_all add: sample_candidate)

lemma selection_hands_out_eligible_witness:
  "load (take_smart (sample_sqlite, 6, chrono_text sample_sqlite 6) 7 sample_db) 7 = Some 1"
  using selection_hands_out_eligible [OF sample_db_ok sample_select]
  by (simp add: Let_def load_def sample_db_fields new_runtime_row_def)

text \<open>
  A selection that fails leaves every in-flight counter as it was, whether no account was
  eligible or the chosen account's tokens could not be decrypted, and it fails for want of an
  account only when every eligible account is excluded.
\<close>

lemma failed_selection_gives_back:
  assumes "db_ok d" "\<And>k n. load d k = Some n \<Longrightarrow> 0 \<le> n"
    and "select_account_for_request q dec sel now affinity excluded st interval d = (Inl e, d')"
  shows "load d' = load d
     \<and> (d' = d \<and> e = no_eligible
          \<and> (\<forall>aid. eligible q (text_day q (chrono_text q sel)) d aid \<longrightarrow> aid \<in> excluded)
        \<or> (\<exists>aid reason. selected_account q dec d aid reason = Inl e \<and> aid \<notin> excluded))"
proof (cases rule: select_cases [of q sel st interval excluded d dec now affinity])
  case none
  with assms smart_candidate_None [OF assms(1)] show ?thesis by auto
next
  case (smart aid)
  from smart(2) assms(3) have "finish_selection q dec now (take_smart (q, now, chrono_text q sel) aid d) aid
      (smart_reason excluded st) = (Inl e, d')" by simp
  then have "d' = give_lease (q, now, True) aid (take_smart (q, now, chrono_text q sel) aid d)"
    and "selected_account q dec d aid (smart_reason excluded st) = Inl e"
    by (auto simp: finish_Inl release_is_give)
  with smart_candidate_Some [OF smart(1) assms(1)] show ?thesis
    using smart_pool.give_take assms(2) by blast
next
  case (sticky key aid)
  from sticky(5) assms(3) have "finish_selection q dec now (take_pinned (q, now) aid d) aid
      (if excluded = {} then Sticky else Failover) = (Inl e, d')" by simp
  then have "d' = give_lease (q, now, True) aid (take_pinned (q, now) aid d)"
    and "selected_account q dec d aid (if excluded = {} then Sticky else Failover) = Inl e"
    unfolding finish_Inl release_is_give by simp_all
  with sticky(3) show ?thesis
    using pinned_pool.give_take assms(2) by blast
qed

lemma failed_selection_gives_back_witness:
  "load (snd (select_account_for_request sample_sqlite Inr 6 6 None {7} settings_default 60 sample_db)) = load sample_db"
proof -
  have "smart_candidate sample_sqlite s settings_default 60 {7} sample_db = None" for s
    by (simp add: smart_candidate_def Let_def candidates_def joined_def List.map_filter_def sample_db_fields)
  then have "select_account_for_request sample_sqlite Inr 6 6 None {7} settings_default 60 sample_db
      = (Inl no_eligible, sample_db)"
    by (simp add: select_account_for_request_def select_smart_def Let_def)
  moreover have "0 \<le> n" if "load sample_db k = Some n" for k n
    using that by (auto simp: load_def sample_db_fields new_runtime_row_def split: if_splits)
  ultimately show ?thesis
    using failed_selection_gives_back [OF sample_db_ok, of sample_sqlite Inr 6 6 None "{7}" settings_default 60] by auto
qed


text \<open>A pool of two: the account of the first import and an older one that was never selected.\<close>

definition second_row :: account where
  "second_row = imported_row sample_sqlite 4 9 ''a'' ''r'' ''i'' sample_auth
     (sample_claims\<lparr>cl_chatgpt_account_id := None\<rparr>) ''two''"

definition pool_db :: db where
  "pool_db = sample_db\<lparr>t_accounts := t_accounts sample_db @ [second_row],
     t_runtime := t_runtime sample_db @ [new_runtime_row sample_sqlite 4 9]\<rparr>"

lemma pool_db_ok: "db_ok pool_db"
  unfolding pool_db_def
  by (rule db_ok_add_account [OF sample_db_ok])
    (simp_all add: account_ids_def sample_db_fields second_row_def)

lemma pool_rows:
  "get_account 7 pool_db = Some (imported_row sample_sqlite 5 7 ''a'' ''r'' ''i'' sample_auth sample_claims [])"
  "get_account 9 pool_db = Some second_row"
  "get_runtime 7 pool_db = Some (new_runtime_row sample_sqlite 5 7)"
  "get_runtime 9 pool_db = Some (new_runtime_row sample_sqlite 4 9)"
  "t_windows pool_db = []"
  by (simp_all add: pool_db_def sample_db_fields second_row_def)

lemma pool_eligible: "eligible sample_sqlite day pool_db 7" "eligible sample_sqlite day pool_db 9"
  by (simp_all add: eligible_def pool_rows row_eligible_def cooled_down_def new_runtime_row_def quota_free_def
      codex_windows_def second_row_def)

lemma pool_candidates:
  "candidates sample_sqlite day excluded pool_db
     = filter (\<lambda>p. acc_id (fst p) \<notin> excluded)
        [(imported_row sample_sqlite 5 7 ''a'' ''r'' ''i'' sample_auth sample_claims [], new_runtime_row sample_sqlite 5 7),
         (second_row, new_runtime_row sample_sqlite 4 9)]"
  using pool_eligible [of day]
  by (simp add: candidates_def joined_def List.map_filter_def pool_db_def sample_db_fields pool_rows row_eligible_def
      cooled_down_def new_runtime_row_def quota_free_def codex_windows_def second_row_def eligible_def)

lemma unary_le: "m \<le> n \<Longrightarrow> unary m \<le> unary n"
  using unary_less [of m n] by (cases "m = n") auto

lemma pool_keys:
  "weighted_key sample_sqlite c pool_db (second_row, new_runtime_row sample_sqlite 4 9)
     < weighted_key sample_sqlite c pool_db
         (imported_row sample_sqlite 5 7 ''a'' ''r'' ''i'' sample_auth sample_claims [], new_runtime_row sample_sqlite 5 7)"
proof -
  have none: "codex_windows pool_db x = []" for x by (simp add: codex_windows_def pool_rows)
  have "acc_created_at second_row = unary 4"
    "acc_created_at (imported_row sample_sqlite 5 7 ''a'' ''r'' ''i'' sample_auth sample_claims []) = unary 5"
    by (simp_all add: second_row_def imported_row_def sample_sqlite_def)
  moreover have "unary 4 < unary 5" by (rule unary_less) simp
  ultimately show ?thesis
    by (simp add: weighted_key_def account_pressure_def account_quality_def account_effective_used_def none
        max_of_def last_selected_def new_runtime_row_def)
qed

lemma pool_candidate: "smart_candidate sample_sqlite s settings_default 60 {} pool_db = Some 9"
  using pool_keys [of "routing_clock sample_sqlite s 60"]
  by (simp add: smart_candidate_def Let_def pool_candidates usage_weighted_def settings_default_def second_row_def)


text \<open>
  The pressure of an account is its lead over an even use of the window: between -100 and 100,
  100 for an account nothing is known of, and for a window that is fresh, has a reset time ahead and
  a length, the used percentage less the elapsed percentage of the window.
\<close>

lemma pressure_is_lead_over_pace:
  shows "- 100 \<le> account_pressure q c d aid \<and> account_pressure q c d aid \<le> 100
     \<and> (codex_windows d aid = [] \<longrightarrow> account_pressure q c d aid = 100)
     \<and> (classify q c w = ScoreTimed \<longrightarrow> reset_day q w = Some x \<longrightarrow> w_window_seconds w = Some n \<longrightarrow>
          x - of_int n / 86400 \<le> now_day c \<longrightarrow>
          window_pressure q c w = clamped_used w - 100 * ((now_day c - (x - of_int n / 86400)) / (of_int n / 86400)))"
proof -
  have "window_pressure q c w = clamped_used w - 100 * ((now_day c - (x - of_int n / 86400)) / (of_int n / 86400))"
    if k: "classify q c w = ScoreTimed" and x: "reset_day q w = Some x" and n: "w_window_seconds w = Some n"
      and le: "x - of_int n / 86400 \<le> now_day c"
  proof -
    have pos: "0 < n" using k n by (auto simp: classify_def malformed_window_def split: if_splits)
    have "now_day c \<le> x \<or> x < now_day c - fresh_days c"
      using k x by (auto simp: classify_def split: if_splits)
    then have ahead: "now_day c \<le> x"
      using k x by (auto simp: classify_def split: if_splits)
    let ?f = "(x - now_day c) * 86400 / of_int n"
    have "0 \<le> ?f" using ahead pos by simp
    moreover have "?f \<le> 1" using le pos by (simp add: field_simps)
    ultimately have "min 1 (max 0 ?f) = ?f" by simp
    then show ?thesis
      using k x n pos by (simp add: window_pressure_def timed_pressure_def field_simps)
  qed
  moreover have "account_pressure q c d aid = 100" if "codex_windows d aid = []"
    using that by (simp add: account_pressure_def max_of_def or_default_def unknown_pressure_def)
  ultimately show ?thesis using account_pressure_range by blast
qed

lemma jd_unary: "jd sample_sqlite (unary n) = Some (of_nat n / 86400000)"
  by (simp add: sample_sqlite_def unary_def)

definition half_used :: usage_window where
  "half_used = \<lparr>w_account = 7, w_quota_key = ''codex'', w_quota_name = ''Codex'', w_source_slot = ''primary'',
     w_kind = ''weekly'', w_used_percent = 30, w_window_seconds = Some (2 * 86400),
     w_reset_at = Some (unary (11 * 86400000)), w_fetched_at = unary (10 * 86400000)\<rparr>"

lemma pressure_is_lead_over_pace_witness:
  "window_pressure sample_sqlite \<lparr>now_day = 10, fresh_days = 1, skew_days = 1\<rparr> half_used = - 20"
proof -
  let ?c = "\<lparr>now_day = 10, fresh_days = 1, skew_days = 1\<rparr>"
  have r: "reset_day sample_sqlite half_used = Some 11"
    by (simp add: reset_day_def half_used_def jd_unary del: of_nat_numeral)
  have f: "jd sample_sqlite (w_fetched_at half_used) = Some 10"
    by (simp add: half_used_def jd_unary)
  have w: "w_window_seconds half_used = Some (2 * 86400)" "w_reset_at half_used \<noteq> None" "clamped_used half_used = 30"
    by (simp_all add: half_used_def clamped_used_def)
  have "classify sample_sqlite ?c half_used = ScoreTimed"
    using r f w by (simp add: classify_def malformed_window_def stale_fetch_def)
  then show ?thesis
    using pressure_is_lead_over_pace [of sample_sqlite ?c sample_db 7 half_used 11 "2 * 86400"] r w by simp
qed

text \<open>
  C23: a session stays on its account: a key bound to an account within its time to live, the account
  eligible when the session is looked up and when it is taken, and not excluded, selects that account
  with the sticky reason, whatever the pressures of the others.
\<close>

theorem sticky_session_kept:
  assumes "db_ok d" "tbl_find af_key key (t_affinity d) = Some f"
    and "jd_le (jd_back q (chrono_text q sel) (sticky_session_ttl_seconds st)) (jd q (af_last_used_at f))"
    and "eligible q (text_day q (chrono_text q sel)) d (af_account f)" "eligible q (now_jd now) d (af_account f)"
    and "selected_account q dec d (af_account f) Sticky = Inr s"
  shows "select_account_for_request q dec sel now (Some key) {} st interval d
      = (Inr s, take_pinned (q, now) (af_account f) d) \<and> acc_id (sel_account s) = af_account f"
proof -
  from assms(4) obtain a r where ar: "get_account (af_account f) d = Some a" "get_runtime (af_account f) d = Some r"
    "row_eligible q (text_day q (chrono_text q sel)) d (a, r)" by (rule eligibleE)
  then have "pinned_account q (chrono_text q sel) st d key = Some (af_account f)"
    using assms(2,3) find_account_in [OF ar(1)] by (simp add: pinned_account_def)
  moreover have "acquirable q now (af_account f) d"
    using assms(5) acquirable_iff [OF assms(1)] by blast
  moreover have "acc_id (sel_account s) = af_account f"
    using selected_account_Inr [OF assms(6)] find_account_in by blast
  moreover have "finish_selection q dec now (take_pinned (q, now) (af_account f) d) (af_account f) Sticky
      = (Inr s, take_pinned (q, now) (af_account f) d)"
    by (simp add: finish_Inr assms(6))
  ultimately show ?thesis
    by (simp add: select_account_for_request_def acquire_account_if_available_def take_pinned_def)
qed

definition sticky_db :: db where
  "sticky_db = pool_db\<lparr>t_affinity := [\<lparr>af_key = ''k'', af_kind = ''session'', af_account = 7,
     af_created_at = unary 5, af_last_used_at = unary 5, af_generation = 0\<rparr>]\<rparr>"

lemma sticky_db_ok: "db_ok sticky_db"
proof -
  have "db_ok pool_db" by (rule pool_db_ok)
  then show ?thesis
    by (simp add: sticky_db_def db_ok_def keys_ok_def foreign_keys_ok_def runtime_total_def account_ids_def
        pool_db_def sample_db_fields second_row_def)
qed

lemma sticky_eligible: "eligible sample_sqlite day sticky_db 7"
  using pool_eligible(1) [of day]
  by (auto simp: eligible_def sticky_db_def row_eligible_def quota_free_def codex_windows_def split: option.splits)

lemma sticky_selected:
  "selected_account sample_sqlite Inr sticky_db 7 reason
     = Inr \<lparr>sel_account = imported_row sample_sqlite 5 7 ''a'' ''r'' ''i'' sample_auth sample_claims [],
            sel_tokens = \<lparr>at_access = ''a'', at_refresh = ''r'', at_id = ''i''\<rparr>, sel_reason = reason\<rparr>"
  by (simp add: selected_account_def sticky_db_def pool_db_def sample_db_fields) (simp add: imported_row_def)

lemma sticky_session_kept_witness:
  "\<exists>s. select_account_for_request sample_sqlite Inr 6 6 (Some ''k'') {} settings_default 60 sticky_db
     = (Inr s, take_pinned (sample_sqlite, 6) 7 sticky_db)"
proof -
  let ?f = "\<lparr>af_key = ''k'', af_kind = ''session'', af_account = 7,
     af_created_at = unary 5, af_last_used_at = unary 5, af_generation = 0\<rparr>"
  have "tbl_find af_key ''k'' (t_affinity sticky_db) = Some ?f" by (simp add: sticky_db_def)
  moreover have "jd_le (jd_back sample_sqlite (chrono_text sample_sqlite 6) (sticky_session_ttl_seconds settings_default))
      (jd sample_sqlite (af_last_used_at ?f))"
    by (simp add: sample_sqlite_def unary_def settings_default_def)
  ultimately show ?thesis
    using sticky_session_kept [OF sticky_db_ok, of "''k''" ?f] sticky_eligible sticky_selected by auto
qed

text \<open>
  C24: round robin moves on.  After an account has been selected, the next selection does not take
  it again while another eligible account was last selected before it.
\<close>

theorem round_robin_rotates:
  assumes "db_ok d" "\<not> usage_weighted st"
    and "select_account_for_request q dec sel now None {} st interval d = (Inr s, d')"
    and "b \<notin> excluded" "eligible q (text_day q s2) d' b" "get_runtime b d' = Some r"
    and "last_selected r < chrono_text q sel"
  shows "smart_candidate q s2 st interval' excluded d' \<noteq> Some (acc_id (sel_account s))"
proof
  assume next_sel: "smart_candidate q s2 st interval' excluded d' = Some (acc_id (sel_account s))"
  let ?rows = "candidates q (text_day q s2) excluded d'"
  obtain aid where d': "d' = take_smart (q, now, chrono_text q sel) aid d" and aid: "acc_id (sel_account s) = aid"
  proof (cases rule: select_cases [of q sel st interval "{}" d dec now None])
    case (smart aid)
    with assms(3) have "finish_selection q dec now (take_smart (q, now, chrono_text q sel) aid d) aid
        (smart_reason {} st) = (Inr s, d')" by simp
    then show ?thesis using that find_account_in by (auto simp: finish_Inr dest: selected_account_Inr)
  qed (use assms(3) in auto)
  have ok: "db_ok d'" using assms(1) d' by simp
  from next_sel assms(2) obtain p where p: "first_min round_robin_key ?rows = Some p" "acc_id (fst p) = aid"
    by (auto simp: smart_candidate_def Let_def routing_clock_def aid)
  from first_min_Some [OF p(1)] have inp: "p \<in> set ?rows" and least: "\<forall>x \<in> set ?rows. round_robin_key p \<le> round_robin_key x"
    by blast+
  from inp have "get_runtime aid d' = Some (snd p)"
    using in_candidates [of "fst p" "snd p"] p(2) by simp
  then obtain z where "snd p = select_row q now (chrono_text q sel) z"
    unfolding d' by (simp add: take_smart_def find_update_same) metis
  then have "last_selected (snd p) = chrono_text q sel"
    by (simp add: select_row_def last_selected_def or_default_def)
  moreover obtain a where "get_account b d' = Some a" "(a, r) \<in> set ?rows"
    using assms(4-6) find_account_in by (fastforce simp: in_candidates elim: eligibleE)
  with least have "round_robin_key p \<le> round_robin_key (a, r)" by blast
  ultimately show False
    using assms(7) by (cases p) (auto simp: round_robin_key_def)
qed

definition rr_settings :: runtime_settings where
  "rr_settings = settings_default\<lparr>routing_strategy := ''round_robin''\<rparr>"

definition rr_db :: db where
  "rr_db = pool_db\<lparr>t_runtime := tbl_update (\<lambda>_. True)
     (\<lambda>r. r\<lparr>rt_last_selected_at := Some (unary (if rt_account r = 7 then 3 else 2))\<rparr>) (t_runtime pool_db)\<rparr>"

lemma rr_db_ok: "db_ok rr_db"
  unfolding rr_db_def by (simp add: db_ok_update_runtime pool_db_ok)

lemma rr_eligible: "eligible sample_sqlite day (take_smart p 9 rr_db) 7"
  using pool_eligible(1) [of day]
  by (cases p) (simp add: eligible_def rr_db_def take_smart_def row_eligible_def quota_free_def codex_windows_def
      pool_rows tbl_update_def pool_db_def sample_db_fields cooled_down_def new_runtime_row_def)

lemma round_robin_rotates_witness:
  "smart_candidate sample_sqlite (unary 8) rr_settings 60 {}
     (snd (select_account_for_request sample_sqlite Inr 6 6 None {} rr_settings 60 rr_db)) \<noteq> Some 9"
proof -
  have nw: "\<not> usage_weighted rr_settings" by (simp add: usage_weighted_def rr_settings_def)
  have "unary 2 < unary 3" by (rule unary_less) simp
  then have c: "smart_candidate sample_sqlite s' rr_settings 60 {} rr_db = Some 9" for s'
    using nw by (simp add: smart_candidate_def Let_def candidates_def joined_def List.map_filter_def rr_db_def
        pool_rows tbl_update_def pool_db_def sample_db_fields row_eligible_def cooled_down_def new_runtime_row_def
        quota_free_def codex_windows_def second_row_def round_robin_key_def last_selected_def or_default_def)
  have "t_accounts rr_db = t_accounts pool_db" by (simp add: rr_db_def)
  then have "selected_account sample_sqlite Inr rr_db 9 r = selected_account sample_sqlite Inr pool_db 9 r" for r
    by (simp add: selected_account_def)
  then obtain x where sel: "selected_account sample_sqlite Inr rr_db 9 RoundRobin = Inr x" and x: "sel_account x = second_row"
    by (simp add: selected_account_def pool_rows)
  let ?d' = "take_smart (sample_sqlite, 6, chrono_text sample_sqlite 6) 9 rr_db"
  have select: "select_account_for_request sample_sqlite Inr 6 6 None {} rr_settings 60 rr_db = (Inr x, ?d')"
  proof (cases rule: select_cases [of sample_sqlite 6 rr_settings 60 "{}" rr_db Inr 6 None])
    case (smart aid)
    with c nw show ?thesis by (simp add: finish_selection_def smart_reason_def sel)
  qed (simp_all add: c)
  have seven: "get_runtime 7 ?d' = Some (new_runtime_row sample_sqlite 5 7\<lparr>rt_last_selected_at := Some (unary 3)\<rparr>)"
    by (simp add: take_smart_def find_update_same rr_db_def tbl_update_def pool_db_def sample_db_fields new_runtime_row_def)
  have "unary 3 < chrono_text sample_sqlite 6"
    by (simp add: sample_sqlite_def unary_less)
  then show ?thesis
    using round_robin_rotates [OF rr_db_ok nw select, of 7 "{}" "unary 8" _ 60] rr_eligible seven x
    by (simp add: select last_selected_def or_default_def second_row_def)
qed

text \<open>
  A preview tells the truth and changes nothing: it never fails, it names an account exactly
  when a selection at the same instant without affinity finds one, and that selection takes the
  account it named.
\<close>

lemma preview_predicts_selection:
  assumes "db_ok d"
  shows "\<exists>res. preview_smart_account q sel st interval excluded d = Inr res
     \<and> (case res of
          None \<Rightarrow> select_account_for_request q dec sel now None excluded st interval d = (Inl no_eligible, d)
        | Some p \<Rightarrow> eligible q (text_day q (chrono_text q sel)) d (preview_account p)
            \<and> account_display_label d (preview_account p) = Inr (preview_label p)
            \<and> select_account_for_request q dec sel now None excluded st interval d
              = finish_selection q dec now (take_smart (q, now, chrono_text q sel) (preview_account p) d)
                  (preview_account p) (smart_reason excluded st))"
proof (cases rule: select_cases [of q sel st interval excluded d dec now None])
  case none
  then show ?thesis by (simp add: preview_smart_account_def)
next
  case (smart aid)
  have "eligible q (text_day q (chrono_text q sel)) d aid"
    using smart_candidate_Some [OF smart(1) assms] by simp
  moreover from this obtain a where "get_account aid d = Some a" by (auto elim: eligibleE)
  ultimately show ?thesis
    using smart by (simp add: preview_smart_account_def account_display_label_def)
qed simp

lemma preview_predicts_selection_witness:
  "preview_smart_account sample_sqlite 6 settings_default 60 {} pool_db
     = Inr (Some \<lparr>preview_account = 9, preview_label = ''two''\<rparr>)
   \<and> (\<exists>res. preview_smart_account sample_sqlite 6 settings_default 60 {} pool_db = Inr res
        \<and> (case res of None \<Rightarrow> False | Some p \<Rightarrow> eligible sample_sqlite (text_day sample_sqlite (chrono_text sample_sqlite 6)) pool_db (preview_account p)))"
proof -
  have "preview_smart_account sample_sqlite 6 settings_default 60 {} pool_db
     = Inr (Some \<lparr>preview_account = 9, preview_label = ''two''\<rparr>)"
    by (simp add: preview_smart_account_def pool_candidate account_display_label_def pool_rows display_label_def)
      (simp add: second_row_def imported_row_def)
  with preview_predicts_selection [OF pool_db_ok, of sample_sqlite 6 settings_default 60 "{}" Inr 6] show ?thesis by auto
qed

end
