(* ===== verification/Session_Routes.thy ===== *)
theory Session_Routes
  imports Routing
begin

text \<open>
  Session routes (\<open>src/db.rs\<close>): the durable session roots, the keys that map to them, and the
  affinity rows that pin a key to an account.  A route action merges the roots its keys reach, moves
  every key to one account and advances the generation; a request binds its keys only at the
  generation it captured.
\<close>

section \<open>Keys, requests, responses\<close>

record route_key =
  key_hash :: string
  key_kind :: string

record action_request =
  req_root :: string
  req_keys :: "route_key list"
  req_action :: action_kind
  req_target :: "string option"
  req_dry_run :: bool

record action_response =
  res_root :: string
  res_fingerprint :: string
  res_action :: action_kind
  res_status :: action_status
  res_requested :: "string option"
  res_effective :: "string option"
  res_previous :: "string list"
  res_generation :: int
  res_linked :: nat
  res_changed :: nat
  res_merged :: nat
  res_dry_run :: bool

definition lower_hex :: "char \<Rightarrow> bool" where
  "lower_hex c \<longleftrightarrow> is_ascii_digit c \<or> (97 \<le> byte c \<and> byte c \<le> 102)"

definition valid_affinity_hash :: "string \<Rightarrow> bool" where
  "valid_affinity_hash v \<longleftrightarrow> length v = 64 \<and> list_all lower_hex v"

definition kind_byte :: "char \<Rightarrow> bool" where
  "kind_byte c \<longleftrightarrow> is_ascii_alphanumeric c \<or> c = CHR ''_'' \<or> c = CHR ''-''"

definition valid_kind :: "string \<Rightarrow> bool" where
  "valid_kind k \<longleftrightarrow> k \<noteq> [] \<and> length k \<le> 64 \<and> list_all kind_byte k"

definition hash_error :: app_error where
  "hash_error = BadRequest ''session route hashes must be 64 lowercase hexadecimal characters''"

definition kind_error :: app_error where
  "kind_error = BadRequest (''session route kinds must be 1-64 ASCII letters, numbers, '' @ quoted ''_'' @ '' or '' @ quoted ''-'')"

definition two_kinds_error :: app_error where
  "two_kinds_error = BadRequest ''one session route hash cannot have multiple kinds''"

text \<open>The loop: \<open>found\<close> holds the keys validated so far, in order, and is the map of their kinds.\<close>

fun validate_keys_loop :: "route_key list \<Rightarrow> route_key list \<Rightarrow> (route_key list) app_result" where
  "validate_keys_loop found [] = Inr found"
| "validate_keys_loop found (k # ks) =
     (if \<not> valid_affinity_hash (key_hash k) then Inl hash_error
      else (let kind = trim (key_kind k)
            in if \<not> valid_kind kind then Inl kind_error
               else case tbl_find key_hash (key_hash k) found of
                 Some previous \<Rightarrow> if key_kind previous \<noteq> kind then Inl two_kinds_error
                                  else validate_keys_loop found ks
               | None \<Rightarrow> validate_keys_loop (found @ [\<lparr>key_hash = key_hash k, key_kind = kind\<rparr>]) ks))"

definition validate_session_route_keys :: "route_key list \<Rightarrow> (route_key list) app_result" where
  "validate_session_route_keys ks =
     (if length ks > 500 then Inl (BadRequest ''at most 500 session route keys can be used at once'')
      else validate_keys_loop [] ks)"

definition parse_session_route_action :: "string \<Rightarrow> action_kind app_result" where
  "parse_session_route_action v =
     (if v = ''rebalance'' then Inr Rebalance else if v = ''reroute'' then Inr Reroute
      else Inl (Internal ''database contains an invalid session route action''))"

definition parse_session_route_status :: "string \<Rightarrow> action_status app_result" where
  "parse_session_route_status v =
     (if v = ''applied'' then Inr Applied else if v = ''fallback'' then Inr Fallback
      else if v = ''pending'' then Inr Pending else if v = ''no_op'' then Inr NoOp
      else Inl (Internal ''database contains an invalid session route status''))"

text \<open>\<open>affinity_hash\<close>: the digest of kind, a zero byte and the value, printed in hex; the digest is
  the parameter \<open>sha256\<close>.\<close>

definition affinity_hash :: "(string \<Rightarrow> string) \<Rightarrow> string \<Rightarrow> string \<Rightarrow> string" where
  "affinity_hash sha256_hex kind v = sha256_hex (kind @ [char_of (0 :: nat)] @ v)"

section \<open>Statements\<close>

definition new_root :: "sqlite \<Rightarrow> instant \<Rightarrow> string \<Rightarrow> session_root" where
  "new_root q now r = \<lparr>sr_root = r, sr_generation = 0, sr_action = None, sr_requested = None,
     sr_effective = None, sr_status = None, sr_created_at = now_text q now, sr_updated_at = now_text q now\<rparr>"

definition root_exists :: "string \<Rightarrow> db \<Rightarrow> bool" where
  "root_exists r d \<longleftrightarrow> list_ex (\<lambda>s. sr_root s = r) (t_roots d)"

text \<open>\<open>INSERT INTO session_roots ... ON CONFLICT DO NOTHING RETURNING\<close>: whether a row was inserted.\<close>

definition insert_root :: "sqlite \<Rightarrow> instant \<Rightarrow> string \<Rightarrow> db \<Rightarrow> bool \<times> db" where
  "insert_root q now r d =
     (if root_exists r d then (False, d) else (True, d\<lparr>t_roots := t_roots d @ [new_root q now r]\<rparr>))"

abbreviation update_root :: "string \<Rightarrow> (session_root \<Rightarrow> session_root) \<Rightarrow> db \<Rightarrow> db" where
  "update_root r f d \<equiv> d\<lparr>t_roots := tbl_update (\<lambda>s. sr_root s = r) f (t_roots d)\<rparr>"

text \<open>\<open>DELETE FROM session_roots\<close>, which cascades to the keys mapped to the root.\<close>

definition delete_root :: "string \<Rightarrow> db \<Rightarrow> db" where
  "delete_root r d = d\<lparr>t_roots := tbl_delete (\<lambda>s. sr_root s = r) (t_roots d),
     t_route_keys := tbl_delete (\<lambda>k. rk_root k = r) (t_route_keys d)\<rparr>"

definition key_row :: "sqlite \<Rightarrow> instant \<Rightarrow> string \<Rightarrow> route_key \<Rightarrow> route_key_row" where
  "key_row q now r k = \<lparr>rk_key = key_hash k, rk_root = r, rk_kind = key_kind k,
     rk_created_at = now_text q now, rk_updated_at = now_text q now\<rparr>"

text \<open>The two upserts of \<open>session_route_keys\<close>: an action takes the key over, a bind updates the kind
  of a key of its own root only.\<close>

definition claim_key :: "route_key_row \<Rightarrow> route_key_row \<Rightarrow> route_key_row" where
  "claim_key old new = old\<lparr>rk_root := rk_root new, rk_kind := rk_kind new, rk_updated_at := rk_updated_at new\<rparr>"

definition touch_key :: "route_key_row \<Rightarrow> route_key_row \<Rightarrow> route_key_row" where
  "touch_key old new = (if rk_root old = rk_root new
     then old\<lparr>rk_kind := rk_kind new, rk_updated_at := rk_updated_at new\<rparr> else old)"

definition upsert_key ::
  "(route_key_row \<Rightarrow> route_key_row \<Rightarrow> route_key_row) \<Rightarrow> route_key_row \<Rightarrow> db \<Rightarrow> db" where
  "upsert_key merge row d = d\<lparr>t_route_keys := tbl_upsert rk_key merge row (t_route_keys d)\<rparr>"

definition new_affinity :: "sqlite \<Rightarrow> instant \<Rightarrow> route_key \<Rightarrow> uuid \<Rightarrow> int \<Rightarrow> affinity_row" where
  "new_affinity q now k aid gen = \<lparr>af_key = key_hash k, af_kind = key_kind k, af_account = aid,
     af_created_at = current_timestamp q now, af_last_used_at = now_text q now, af_generation = gen\<rparr>"

definition take_affinity :: "affinity_row \<Rightarrow> affinity_row \<Rightarrow> affinity_row" where
  "take_affinity old new = old\<lparr>af_kind := af_kind new, af_account := af_account new,
     af_generation := af_generation new, af_last_used_at := af_last_used_at new\<rparr>"

definition take_affinity_if_newer :: "affinity_row \<Rightarrow> affinity_row \<Rightarrow> affinity_row" where
  "take_affinity_if_newer old new = (if af_generation old \<le> af_generation new then take_affinity old new else old)"

definition legacy_affinity :: "sqlite \<Rightarrow> instant \<Rightarrow> route_key \<Rightarrow> uuid \<Rightarrow> affinity_row" where
  "legacy_affinity q now k aid = \<lparr>af_key = key_hash k, af_kind = key_kind k, af_account = aid,
     af_created_at = current_timestamp q now, af_last_used_at = current_timestamp q now, af_generation = 0\<rparr>"

definition merge_legacy :: "sqlite \<Rightarrow> instant \<Rightarrow> affinity_row \<Rightarrow> affinity_row \<Rightarrow> affinity_row" where
  "merge_legacy q now old new = old\<lparr>af_kind := af_kind new, af_account := af_account new,
     af_last_used_at := now_text q now\<rparr>"

definition upsert_affinity ::
  "(affinity_row \<Rightarrow> affinity_row \<Rightarrow> affinity_row) \<Rightarrow> affinity_row \<Rightarrow> db \<Rightarrow> db" where
  "upsert_affinity merge row d = d\<lparr>t_affinity := tbl_upsert af_key merge row (t_affinity d)\<rparr>"

text \<open>A written affinity row must name an account that exists.\<close>

definition affinity_fk_ok :: "db \<Rightarrow> bool" where
  "affinity_fk_ok d \<longleftrightarrow> list_all (\<lambda>f. account_exists (af_account f) d) (t_affinity d)"

section \<open>The decision of a route action\<close>

definition validate_action_request :: "action_request \<Rightarrow> (route_key list) app_result" where
  "validate_action_request req =
     (if \<not> valid_affinity_hash (req_root req)
      then Inl (BadRequest ''session root hashes must be 64 lowercase hexadecimal characters'')
      else app_bind (validate_session_route_keys (req_keys req)) (\<lambda>keys.
        if keys = [] then Inl (BadRequest ''at least one session route key is required'')
        else if \<not> list_ex (\<lambda>k. key_hash k = req_root req) keys
        then Inl (BadRequest ''the session root hash must also be present in keys'')
        else Inr keys))"

definition requested_target :: "sqlite \<Rightarrow> db \<Rightarrow> action_request \<Rightarrow> route_target option app_result" where
  "requested_target q d req =
     (case req_action req of
        Rebalance \<Rightarrow> if req_target req \<noteq> None then Inl (BadRequest ''rebalance actions do not accept a target'')
                     else Inr None
      | Reroute \<Rightarrow> app_bind (ok_or (req_target req) (BadRequest ''reroute actions require a target''))
          (\<lambda>t. app_bind (resolve_session_route_target q d t) (\<lambda>r. Inr (Some r))))"

text \<open>Whether the root was there, and the transaction's database: only a real run inserts it.\<close>

definition open_root :: "sqlite \<Rightarrow> instant \<Rightarrow> action_request \<Rightarrow> db \<Rightarrow> bool \<times> db" where
  "open_root q now req d =
     (if req_dry_run req then (root_exists (req_root req) d, d)
      else (\<not> fst (insert_root q now (req_root req) d), snd (insert_root q now (req_root req) d)))"

definition hashes :: "route_key list \<Rightarrow> string set" where
  "hashes ks = key_hash ` set ks"

definition prior_mapped_roots :: "route_key list \<Rightarrow> db \<Rightarrow> string list" where
  "prior_mapped_roots keys d =
     remdups (map rk_root (filter (\<lambda>k. rk_key k \<in> hashes keys) (t_route_keys d)))"

definition action_roots :: "string \<Rightarrow> string list \<Rightarrow> string set" where
  "action_roots canon prior = insert canon (set prior)"

definition existing_keys :: "string set \<Rightarrow> db \<Rightarrow> route_key_row list" where
  "existing_keys roots d = sort_key rk_key (filter (\<lambda>k. rk_root k \<in> roots) (t_route_keys d))"

definition plain_key :: "route_key_row \<Rightarrow> route_key" where
  "plain_key k = \<lparr>key_hash = rk_key k, key_kind = rk_kind k\<rparr>"

text \<open>The existing keys of the merged roots with the request's keys over them, by hash.\<close>

definition merge_keys :: "route_key list \<Rightarrow> route_key_row list \<Rightarrow> route_key list" where
  "merge_keys input existing =
     sort_key key_hash (filter (\<lambda>k. key_hash k \<notin> hashes input) (map plain_key existing) @ input)"

definition mapping_changed :: "string \<Rightarrow> bool \<Rightarrow> route_key_row list \<Rightarrow> route_key list \<Rightarrow> bool" where
  "mapping_changed canon existed existing keys \<longleftrightarrow>
     \<not> existed \<or> length existing \<noteq> length keys
     \<or> list_ex (\<lambda>k. is_none_or (\<lambda>e. rk_root e \<noteq> canon \<or> rk_kind e \<noteq> key_kind k)
                     (tbl_find rk_key (key_hash k) existing)) keys"

definition max_generation :: "int list \<Rightarrow> int" where
  "max_generation gs = or_default (max_of gs) 0"

definition root_generation :: "string set \<Rightarrow> db \<Rightarrow> int" where
  "root_generation roots d = max_generation (map sr_generation (filter (\<lambda>s. sr_root s \<in> roots) (t_roots d)))"

text \<open>\<open>affinity INNER JOIN accounts\<close> on the keys, by hash.\<close>

definition affinity_routes :: "route_key list \<Rightarrow> db \<Rightarrow> affinity_row list" where
  "affinity_routes keys d =
     sort_key af_key (filter (\<lambda>f. af_key f \<in> hashes keys \<and> account_exists (af_account f) d) (t_affinity d))"

definition label_of :: "db \<Rightarrow> uuid \<Rightarrow> string option" where
  "label_of d aid = map_option display_label (get_account aid d)"

definition previous_accounts :: "affinity_row list \<Rightarrow> uuid set \<Rightarrow> db \<Rightarrow> string list" where
  "previous_accounts routes live d =
     sorted_list_of_set (image_filter (\<lambda>f. label_of d (af_account f)) (set routes) \<union> image_filter (label_of d) live)"

text \<open>The account the action settles on, and whether it is not the requested one.\<close>

definition effective_account ::
  "sqlite \<Rightarrow> string \<Rightarrow> runtime_settings \<Rightarrow> nat \<Rightarrow> route_target option \<Rightarrow> db \<Rightarrow> uuid option \<times> bool" where
  "effective_account q selected_at st interval target d =
     (case target of
        Some t \<Rightarrow> if account_is_eligible q selected_at d (target_account t) then (Some (target_account t), False)
                  else (smart_candidate q selected_at st interval {} d, True)
      | None \<Rightarrow> (smart_candidate q selected_at st interval {} d, False))"

definition changed_route_count :: "uuid option \<Rightarrow> affinity_row list \<Rightarrow> route_key list \<Rightarrow> nat" where
  "changed_route_count effective routes keys =
     (case effective of
        None \<Rightarrow> 0
      | Some aid \<Rightarrow> length (filter (\<lambda>k. is_none_or (\<lambda>f. af_account f \<noteq> aid \<or> af_kind f \<noteq> key_kind k)
                                          (tbl_find af_key (key_hash k) routes)) keys))"

definition requires_move ::
  "uuid option \<Rightarrow> nat \<Rightarrow> uuid set \<Rightarrow> bool \<Rightarrow> affinity_row list \<Rightarrow> int \<Rightarrow> bool" where
  "requires_move effective changed live mapping routes current \<longleftrightarrow>
     (case effective of
        None \<Rightarrow> False
      | Some aid \<Rightarrow> changed \<noteq> 0 \<or> (\<exists>x \<in> live. x \<noteq> aid) \<or> mapping
                    \<or> list_ex (\<lambda>f. af_generation f \<noteq> current) routes)"

record action_plan =
  pl_keys :: "route_key list"
  pl_roots :: "string set"
  pl_target :: "uuid option"
  pl_requested :: "string option"
  pl_effective :: "uuid option"
  pl_effective_label :: "string option"
  pl_previous :: "string list"
  pl_current :: int
  pl_generation :: int
  pl_move :: bool
  pl_status :: action_status
  pl_changed :: nat
  pl_merged :: nat

definition plan_status :: "uuid option \<Rightarrow> bool \<Rightarrow> bool \<Rightarrow> action_status" where
  "plan_status effective fallback moved =
     (if effective = None then Pending else if fallback then Fallback
      else if moved then Applied else NoOp)"

definition plan_action ::
  "sqlite \<Rightarrow> string \<Rightarrow> runtime_settings \<Rightarrow> nat \<Rightarrow> string \<Rightarrow> route_key list \<Rightarrow> route_target option \<Rightarrow> uuid set
     \<Rightarrow> bool \<Rightarrow> db \<Rightarrow> action_plan app_result" where
  "plan_action q selected_at st interval canon input target live existed d =
     (let prior = prior_mapped_roots input d;
          roots = action_roots canon prior;
          existing = existing_keys roots d;
          keys = merge_keys input existing;
          routes = affinity_routes keys d
      in if \<not> existed \<and> prior = [] \<and> routes = [] \<and> live = {}
         then Inl (NotFound ''no routed session matches the supplied fingerprints'')
         else
          (let current = max (root_generation roots d) (max_generation (map af_generation routes));
               (effective, fallback) = effective_account q selected_at st interval target d;
               changed = changed_route_count effective routes keys;
               moved = requires_move effective changed live (mapping_changed canon existed existing keys) routes current
           in if moved \<and> checked_add current 1 = None
              then Inl (Internal ''session route generation overflowed'')
              else Inr \<lparr>pl_keys = keys, pl_roots = roots, pl_target = map_option target_account target,
                     pl_requested = Option.bind target (\<lambda>t. label_of d (target_account t)),
                     pl_effective = effective, pl_effective_label = Option.bind effective (label_of d),
                     pl_previous = previous_accounts routes live d, pl_current = current,
                     pl_generation = (if moved then current + 1 else current), pl_move = moved,
                     pl_status = plan_status effective fallback moved, pl_changed = changed,
                     pl_merged = length (filter (\<lambda>r. r \<noteq> canon) prior)\<rparr>))"

section \<open>Its execution\<close>

definition map_keys :: "sqlite \<Rightarrow> instant \<Rightarrow> string \<Rightarrow> route_key list \<Rightarrow> db \<Rightarrow> db" where
  "map_keys q now canon keys d = fold (\<lambda>k. upsert_key claim_key (key_row q now canon k)) keys d"

definition drop_roots :: "string \<Rightarrow> string set \<Rightarrow> db \<Rightarrow> db" where
  "drop_roots canon roots d = fold delete_root (sorted_list_of_set (roots - {canon})) d"

definition move_affinities :: "sqlite \<Rightarrow> instant \<Rightarrow> uuid \<Rightarrow> int \<Rightarrow> route_key list \<Rightarrow> db \<Rightarrow> db" where
  "move_affinities q now aid gen keys d =
     fold (\<lambda>k. upsert_affinity take_affinity (new_affinity q now k aid gen)) keys d"

definition record_action :: "sqlite \<Rightarrow> instant \<Rightarrow> string \<Rightarrow> action_kind \<Rightarrow> action_plan \<Rightarrow> db \<Rightarrow> db" where
  "record_action q now canon act p d =
     update_root canon (\<lambda>s. s\<lparr>sr_generation := pl_generation p, sr_action := Some (action_kind_str act),
        sr_requested := pl_target p, sr_effective := pl_effective p,
        sr_status := Some (action_status_str (pl_status p)), sr_updated_at := now_text q now\<rparr>) d"

definition commit_action :: "sqlite \<Rightarrow> instant \<Rightarrow> string \<Rightarrow> action_kind \<Rightarrow> action_plan \<Rightarrow> db \<Rightarrow> db" where
  "commit_action q now canon act p d =
     (let d1 = update_root canon (\<lambda>s. s\<lparr>sr_generation := max (sr_generation s) (pl_current p),
                                        sr_updated_at := now_text q now\<rparr>) d;
          d2 = map_keys q now canon (pl_keys p) d1;
          d3 = drop_roots canon (pl_roots p) d2;
          d4 = (case pl_effective p of
                  Some aid \<Rightarrow> if pl_move p then move_affinities q now aid (pl_generation p) (pl_keys p) d3 else d3
                | None \<Rightarrow> d3)
      in record_action q now canon act p d4)"

definition action_result :: "action_request \<Rightarrow> action_plan \<Rightarrow> action_response" where
  "action_result req p = \<lparr>res_root = req_root req, res_fingerprint = take 12 (req_root req),
     res_action = req_action req, res_status = pl_status p, res_requested = pl_requested p,
     res_effective = pl_effective_label p, res_previous = pl_previous p, res_generation = pl_generation p,
     res_linked = length (pl_keys p), res_changed = pl_changed p, res_merged = pl_merged p,
     res_dry_run = req_dry_run req\<rparr>"

text \<open>The whole operation: an error or a dry run rolls the transaction back.\<close>

definition apply_session_route_action ::
  "sqlite \<Rightarrow> instant \<Rightarrow> instant \<Rightarrow> runtime_settings \<Rightarrow> nat \<Rightarrow> action_request \<Rightarrow> uuid set \<Rightarrow> db
     \<Rightarrow> action_response app_result \<times> db" where
  "apply_session_route_action q sel now st interval req live d =
     (case app_bind (validate_action_request req) (\<lambda>keys.
           app_bind (requested_target q d req) (\<lambda>target. Inr (keys, target))) of
        Inl e \<Rightarrow> (Inl e, d)
      | Inr (input, target) \<Rightarrow>
          (let (existed, d1) = open_root q now req d
           in if (case target of Some t \<Rightarrow> label_of d1 (target_account t) = None | None \<Rightarrow> False)
              then (Inl (NotFound ''account target not found''), d)
              else case plan_action q (chrono_text q sel) st interval (req_root req) input target live existed d1 of
                Inl e \<Rightarrow> (Inl e, d)
              | Inr p \<Rightarrow>
                  if req_dry_run req then (Inr (action_result req p), d)
                  else (Inr (action_result req p), commit_action q now (req_root req) (req_action req) p d1)))"

section \<open>Epochs\<close>

record route_epoch =
  ep_root :: string
  ep_generation :: int
  ep_selection_key :: string

record route_context =
  ctx_root :: string
  ctx_generation :: int
  ctx_action :: "action_kind option"
  ctx_status :: "action_status option"
  ctx_requested :: "uuid option"
  ctx_effective :: "uuid option"

text \<open>NULL sorts last in descending order, so the day of \<open>updated_at\<close> is ordered by its negation, with
  NULL above every day.\<close>

definition desc_day :: "rat option \<Rightarrow> bool \<times> rat" where
  "desc_day x = (case x of None \<Rightarrow> (True, 0) | Some j \<Rightarrow> (False, - j))"

definition epoch_rows :: "route_key list \<Rightarrow> db \<Rightarrow> (session_root \<times> route_key_row) list" where
  "epoch_rows keys d =
     concat (map (\<lambda>k. map (\<lambda>s. (s, k)) (filter (\<lambda>s. sr_root s = rk_root k) (t_roots d)))
       (filter (\<lambda>k. rk_key k \<in> hashes keys) (t_route_keys d)))"

definition epoch_key :: "sqlite \<Rightarrow> session_root \<times> route_key_row \<Rightarrow> (bool \<times> rat) \<times> int \<times> string \<times> string" where
  "epoch_key q = (\<lambda>(s, k). (desc_day (jd q (sr_updated_at s)), - sr_generation s, sr_root s, rk_key k))"

definition resolve_session_route_epoch :: "sqlite \<Rightarrow> route_key list \<Rightarrow> db \<Rightarrow> route_epoch option app_result" where
  "resolve_session_route_epoch q ks d =
     app_bind (validate_session_route_keys ks) (\<lambda>keys.
       if keys = [] then Inr None
       else Inr (map_option (\<lambda>(s, k). \<lparr>ep_root = sr_root s, ep_generation = sr_generation s, ep_selection_key = rk_key k\<rparr>)
                  (first_min (epoch_key q) (epoch_rows keys d))))"

definition opt_parse :: "('a \<Rightarrow> 'b app_result) \<Rightarrow> 'a option \<Rightarrow> 'b option app_result" where
  "opt_parse f x = (case x of None \<Rightarrow> Inr None | Some v \<Rightarrow> app_bind (f v) (\<lambda>y. Inr (Some y)))"

definition resolve_session_route_context :: "sqlite \<Rightarrow> route_key list \<Rightarrow> db \<Rightarrow> route_context option app_result" where
  "resolve_session_route_context q ks d =
     app_bind (resolve_session_route_epoch q ks d) (\<lambda>epoch.
       case epoch of
         None \<Rightarrow> Inr None
       | Some ep \<Rightarrow> (case tbl_find sr_root (ep_root ep) (t_roots d) of
           None \<Rightarrow> Inr None
         | Some s \<Rightarrow>
             app_bind (opt_parse parse_session_route_action (sr_action s)) (\<lambda>a.
             app_bind (opt_parse parse_session_route_status (sr_status s)) (\<lambda>status.
             Inr (Some \<lparr>ctx_root = ep_root ep, ctx_generation = sr_generation s, ctx_action = a,
               ctx_status = status, ctx_requested = sr_requested s, ctx_effective = sr_effective s\<rparr>)))))"

definition session_route_epoch_is_current :: "route_epoch \<Rightarrow> db \<Rightarrow> bool" where
  "session_route_epoch_is_current ep d \<longleftrightarrow>
     length (filter (\<lambda>s. sr_root s = ep_root ep \<and> sr_generation s = ep_generation ep) (t_roots d)) = 1"

section \<open>Binding\<close>

text \<open>The loop over the keys: map the key to the root, then write its affinity row; a row that names an
  account that does not exist fails the statement and with it the transaction.\<close>

fun bind_keys ::
  "(route_key \<Rightarrow> route_key_row) \<Rightarrow> (affinity_row \<Rightarrow> affinity_row \<Rightarrow> affinity_row) \<Rightarrow> (route_key \<Rightarrow> affinity_row)
     \<Rightarrow> route_key list \<Rightarrow> db \<Rightarrow> db app_result" where
  "bind_keys row merge aff [] d = Inr d"
| "bind_keys row merge aff (k # ks) d =
     (let d1 = upsert_key touch_key (row k) d;
          d2 = upsert_affinity merge (aff k) d1
      in if affinity_fk_ok d2 then bind_keys row merge aff ks d2 else Inl fk_error)"

definition conflicting_keys :: "string \<Rightarrow> route_key list \<Rightarrow> db \<Rightarrow> nat" where
  "conflicting_keys canon keys d =
     length (filter (\<lambda>k. rk_root k \<noteq> canon \<and> rk_key k \<in> hashes keys) (t_route_keys d))"

text \<open>A rerouted session bound to another account than the effective one: the whole session follows.\<close>

definition follow_bound_account :: "sqlite \<Rightarrow> instant \<Rightarrow> route_epoch \<Rightarrow> session_root \<Rightarrow> uuid \<Rightarrow> db \<Rightarrow> db" where
  "follow_bound_account q now ep s aid d =
     (if sr_action s = Some ''reroute'' \<and> sr_effective s \<noteq> Some aid then
        (let d1 = d\<lparr>t_affinity := tbl_update
               (\<lambda>f. list_ex (\<lambda>k. rk_key k = af_key f \<and> rk_root k = ep_root ep) (t_route_keys d))
               (\<lambda>f. f\<lparr>af_account := aid, af_generation := ep_generation ep, af_last_used_at := now_text q now\<rparr>)
               (t_affinity d)\<rparr>
         in d1\<lparr>t_roots := tbl_update (\<lambda>r. sr_root r = ep_root ep \<and> sr_generation r = ep_generation ep)
               (\<lambda>r. r\<lparr>sr_effective := Some aid,
                      sr_status := Some (if sr_requested s \<noteq> Some aid then ''fallback'' else ''applied''),
                      sr_updated_at := now_text q now\<rparr>) (t_roots d1)\<rparr>)
      else d)"

definition bind_at_epoch ::
  "sqlite \<Rightarrow> instant \<Rightarrow> route_key list \<Rightarrow> uuid \<Rightarrow> route_epoch \<Rightarrow> db \<Rightarrow> bool app_result \<times> db" where
  "bind_at_epoch q now keys aid ep d =
     (case List.find (\<lambda>s. sr_root s = ep_root ep \<and> sr_generation s = ep_generation ep) (t_roots d) of
        None \<Rightarrow> (Inr False, d)
      | Some s \<Rightarrow>
          if conflicting_keys (ep_root ep) keys d \<noteq> 0 then (Inr False, d)
          else (case bind_keys (key_row q now (ep_root ep)) take_affinity_if_newer
                       (\<lambda>k. new_affinity q now k aid (ep_generation ep)) keys d of
              Inl e \<Rightarrow> (Inl e, d)
            | Inr d1 \<Rightarrow>
                (let d2 = follow_bound_account q now ep s aid d1
                 in if affinity_fk_ok d2 then (Inr True, d2) else (Inl fk_error, d))))"

definition preferred_root :: "route_key list \<Rightarrow> string" where
  "preferred_root keys =
     key_hash (case List.find (\<lambda>k. key_kind k = ''session_id'') keys of Some k \<Rightarrow> k | None \<Rightarrow> hd keys)"

definition mapped_roots :: "route_key list \<Rightarrow> db \<Rightarrow> session_root list" where
  "mapped_roots keys d = remdups (map fst (epoch_rows keys d))"

definition discard_root :: "string \<Rightarrow> db \<Rightarrow> db" where
  "discard_root r d =
     (if list_ex (\<lambda>s. sr_root s = r \<and> sr_action s = None) (t_roots d)
         \<and> \<not> list_ex (\<lambda>k. rk_root k = r) (t_route_keys d)
      then delete_root r d else d)"

definition bind_without_epoch ::
  "sqlite \<Rightarrow> instant \<Rightarrow> route_key list \<Rightarrow> uuid \<Rightarrow> db \<Rightarrow> bool app_result \<times> db" where
  "bind_without_epoch q now keys aid d =
     (let preferred = preferred_root keys;
          (inserted, d1) = insert_root q now preferred d;
          mapped = mapped_roots keys d1
      in if length mapped > 1
            \<or> (case mapped of [] \<Rightarrow> False | s # _ \<Rightarrow> sr_generation s \<noteq> 0 \<or> sr_action s \<noteq> None)
         then (Inr False, d)
         else
          (let rt = (case mapped of [] \<Rightarrow> preferred | s # _ \<Rightarrow> sr_root s);
               d2 = (if inserted \<and> rt \<noteq> preferred then discard_root preferred d1 else d1)
           in case bind_keys (key_row q now rt) (merge_legacy q now) (\<lambda>k. legacy_affinity q now k aid) keys d2 of
                Inl e \<Rightarrow> (Inl e, d)
              | Inr d3 \<Rightarrow> (Inr True, d3)))"

definition bind_affinities_at_epoch ::
  "sqlite \<Rightarrow> instant \<Rightarrow> route_key list \<Rightarrow> uuid \<Rightarrow> route_epoch option \<Rightarrow> db \<Rightarrow> bool app_result \<times> db" where
  "bind_affinities_at_epoch q now ks aid epoch d =
     (case validate_session_route_keys ks of
        Inl e \<Rightarrow> (Inl e, d)
      | Inr keys \<Rightarrow>
          if keys = [] then (Inr True, d)
          else case epoch of
            Some ep \<Rightarrow> bind_at_epoch q now keys aid ep d
          | None \<Rightarrow> bind_without_epoch q now keys aid d)"

definition bind_affinity :: "sqlite \<Rightarrow> instant \<Rightarrow> string \<Rightarrow> string \<Rightarrow> uuid \<Rightarrow> db \<Rightarrow> unit app_result \<times> db" where
  "bind_affinity q now hash kind aid d =
     (case bind_affinities_at_epoch q now [\<lparr>key_hash = hash, key_kind = kind\<rparr>] aid None d of
        (Inl e, d') \<Rightarrow> (Inl e, d')
      | (Inr _, d') \<Rightarrow> (Inr (), d'))"

section \<open>Pending actions and listings\<close>

definition pending_action_of :: "action_kind \<Rightarrow> uuid option \<Rightarrow> action_kind" where
  "pending_action_of act requested = (if act = Reroute \<and> requested = None then Rebalance else act)"

definition pending_request :: "sqlite \<Rightarrow> db \<Rightarrow> session_root \<Rightarrow> action_request app_result" where
  "pending_request q d s =
     app_bind (parse_session_route_action (or_default (sr_action s) [])) (\<lambda>act.
       Inr \<lparr>req_root = sr_root s,
            req_keys = map plain_key (sort_key rk_key (filter (\<lambda>k. rk_root k = sr_root s) (t_route_keys d))),
            req_action = pending_action_of act (sr_requested s),
            req_target = map_option (uuid_text q) (sr_requested s), req_dry_run = False\<rparr>)"

fun collect :: "('a \<Rightarrow> 'e + 'b) \<Rightarrow> 'a list \<Rightarrow> 'e + 'b list" where
  "collect f [] = Inr []"
| "collect f (x # xs) = app_bind (f x) (\<lambda>y. app_bind (collect f xs) (\<lambda>ys. Inr (y # ys)))"

definition list_pending_session_route_actions :: "sqlite \<Rightarrow> db \<Rightarrow> int \<Rightarrow> (action_request list) app_result" where
  "list_pending_session_route_actions q d limit =
     collect (pending_request q d)
       (take (nat (clamp 1 100 limit))
         (sort_key (\<lambda>s. (sr_updated_at s, sr_root s))
           (filter (\<lambda>s. sr_status s = Some ''pending''
                      \<and> (sr_action s = Some ''rebalance'' \<or> sr_action s = Some ''reroute'')) (t_roots d))))"

record session_route =
  rte_key :: string
  rte_kind :: string
  rte_account :: uuid
  rte_label :: string
  rte_created_at :: string
  rte_last_used_at :: string

text \<open>\<open>hex8\<close> prints the first eight hex digits of an account's id.\<close>

definition live_routes ::
  "sqlite \<Rightarrow> (uuid \<Rightarrow> string) \<Rightarrow> instant \<Rightarrow> int \<Rightarrow> (affinity_row \<Rightarrow> bool) \<Rightarrow> db \<Rightarrow> session_route list" where
  "live_routes q hex8 now ttl want d =
     (let rows = filter (\<lambda>f. want f \<and> account_exists (af_account f) d
                   \<and> (case jd q (af_last_used_at f) of None \<Rightarrow> False
                      | Some x \<Rightarrow> now_jd now - of_int (max ttl 1) / 86400 \<le> x)) (t_affinity d);
          ordered = sort_key (\<lambda>f. (desc_day (jd q (af_last_used_at f)), af_key f)) rows
      in map (\<lambda>f. \<lparr>rte_key = af_key f, rte_kind = af_kind f, rte_account = af_account f,
            rte_label = (case get_account (af_account f) d of
               None \<Rightarrow> [] | Some a \<Rightarrow> if acc_label a = [] then ''account-'' @ hex8 (acc_id a) else acc_label a),
            rte_created_at = af_created_at f, rte_last_used_at = af_last_used_at f\<rparr>) ordered)"

definition list_session_routes ::
  "sqlite \<Rightarrow> (uuid \<Rightarrow> string) \<Rightarrow> instant \<Rightarrow> int \<Rightarrow> int \<Rightarrow> db \<Rightarrow> session_route list" where
  "list_session_routes q hex8 now limit ttl d =
     take (nat (clamp 1 500 limit))
       (live_routes q hex8 now ttl
         (\<lambda>f. af_kind f \<in> {''session_id'', ''thread_id'', ''conversation_id'', ''prompt_cache_key''}) d)"

definition resolve_session_routes ::
  "sqlite \<Rightarrow> (uuid \<Rightarrow> string) \<Rightarrow> instant \<Rightarrow> string list \<Rightarrow> int \<Rightarrow> db \<Rightarrow> session_route list" where
  "resolve_session_routes q hex8 now key_hashes ttl d =
     (if key_hashes = [] then []
      else live_routes q hex8 now ttl (\<lambda>f. af_key f \<in> set (take 500 key_hashes)) d)"

section \<open>The tables of session keys and affinities\<close>

interpretation claimed_keys: keyed_table rk_key claim_key
  by unfold_locales (simp add: claim_key_def)

interpretation touched_keys: keyed_table rk_key touch_key
  by unfold_locales (simp add: touch_key_def)

interpretation taken_affinities: keyed_table af_key take_affinity
  by unfold_locales (simp add: take_affinity_def)

interpretation newer_affinities: keyed_table af_key take_affinity_if_newer
  by unfold_locales (simp add: take_affinity_if_newer_def take_affinity_def)

interpretation legacy_affinities: keyed_table af_key "merge_legacy q now" for q now
  by unfold_locales (simp add: merge_legacy_def)

definition root_of :: "db \<Rightarrow> string \<Rightarrow> string option" where
  "root_of d h = map_option rk_root (tbl_find rk_key h (t_route_keys d))"

definition generation_of :: "db \<Rightarrow> string \<Rightarrow> int option" where
  "generation_of d r = map_option sr_generation (tbl_find sr_root r (t_roots d))"

definition affinity_of :: "db \<Rightarrow> string \<Rightarrow> affinity_row option" where
  "affinity_of d h = tbl_find af_key h (t_affinity d)"

lemma key_row_fields [simp]:
  "rk_key (key_row q now r k) = key_hash k" "rk_root (key_row q now r k) = r" "rk_kind (key_row q now r k) = key_kind k"
  by (simp_all add: key_row_def)

lemma new_affinity_fields [simp]:
  "af_key (new_affinity q now k aid gen) = key_hash k" "af_account (new_affinity q now k aid gen) = aid"
  "af_generation (new_affinity q now k aid gen) = gen" "af_kind (new_affinity q now k aid gen) = key_kind k"
  "af_key (legacy_affinity q now k aid) = key_hash k" "af_account (legacy_affinity q now k aid) = aid"
  "af_kind (legacy_affinity q now k aid) = key_kind k" "af_generation (legacy_affinity q now k aid) = 0"
  by (simp_all add: new_affinity_def legacy_affinity_def)

lemma new_root_fields [simp]:
  "sr_root (new_root q now r) = r" "sr_requested (new_root q now r) = None" "sr_effective (new_root q now r) = None"
  "sr_generation (new_root q now r) = 0" "sr_action (new_root q now r) = None"
  by (simp_all add: new_root_def)

lemma root_exists_iff: "root_exists r d \<longleftrightarrow> r \<in> sr_root ` set (t_roots d)"
  by (auto simp: root_exists_def table_simps)

section \<open>Validated keys\<close>

definition keys_valid :: "route_key list \<Rightarrow> bool" where
  "keys_valid ks \<longleftrightarrow> distinct (map key_hash ks) \<and> (\<forall>k \<in> set ks. valid_affinity_hash (key_hash k) \<and> valid_kind (key_kind k))"

lemma validate_loop_valid:
  "validate_keys_loop found ks = Inr keys \<Longrightarrow> keys_valid found
     \<Longrightarrow> keys_valid keys \<and> hashes keys = hashes found \<union> hashes ks"
proof (induction ks arbitrary: found)
  case (Cons k ks)
  let ?k = "\<lparr>key_hash = key_hash k, key_kind = trim (key_kind k)\<rparr>"
  have v: "valid_affinity_hash (key_hash k)" "valid_kind (trim (key_kind k))"
    using Cons.prems(1) by (auto simp: Let_def split: if_splits)
  show ?case
  proof (cases "tbl_find key_hash (key_hash k) found")
    case None
    then have "key_hash k \<notin> key_hash ` set found" by (simp add: find_None_iff_key)
    with Cons.prems(2) v have "keys_valid (found @ [?k])"
      by (auto simp: keys_valid_def)
    moreover have "validate_keys_loop (found @ [?k]) ks = Inr keys"
      using Cons.prems(1) v None by simp
    ultimately show ?thesis using Cons.IH by (auto simp: hashes_def)
  next
    case (Some prev)
    then have "key_hash k \<in> hashes found"
      using find_Some_key [OF Some] unfolding hashes_def by (metis imageI)
    moreover have "validate_keys_loop found ks = Inr keys"
      using Cons.prems(1) v Some by (simp split: if_splits)
    ultimately show ?thesis using Cons.IH [of found] Cons.prems(2) by (auto simp: hashes_def)
  qed
qed (simp add: hashes_def)

lemma validate_valid:
  "validate_session_route_keys ks = Inr keys \<Longrightarrow> keys_valid keys \<and> hashes keys = hashes ks"
  using validate_loop_valid [of "[]" ks keys]
  by (auto simp: validate_session_route_keys_def keys_valid_def hashes_def split: if_splits)

lemma kind_byte_plain: "kind_byte c \<Longrightarrow> plain_byte c"
  using label_byte_plain by (auto simp: kind_byte_def label_byte_def)

lemma trim_valid_kind: "valid_kind k \<Longrightarrow> trim k = k"
  by (auto simp: valid_kind_def list_all_iff kind_byte_plain intro!: trim_plain)

lemma validate_loop_id:
  assumes "keys_valid (found @ ks)"
  shows "validate_keys_loop found ks = Inr (found @ ks)"
  using assms
proof (induction ks arbitrary: found)
  case (Cons k ks)
  then have "key_hash k \<notin> key_hash ` set found" by (auto simp: keys_valid_def)
  then have "tbl_find key_hash (key_hash k) found = None" by (simp add: find_None_iff_key)
  moreover have "valid_affinity_hash (key_hash k)" "valid_kind (key_kind k)"
    using Cons.prems by (auto simp: keys_valid_def)
  ultimately show ?case
    using Cons.IH [of "found @ [k]"] Cons.prems by (cases k) (simp add: trim_valid_kind)
qed simp

section \<open>Constraints on the session tables\<close>

text \<open>The operations here write three tables only.\<close>

definition same_base :: "db \<Rightarrow> db \<Rightarrow> bool" where
  "same_base d d' \<longleftrightarrow> t_accounts d' = t_accounts d \<and> t_runtime d' = t_runtime d \<and> t_windows d' = t_windows d
     \<and> t_samples d' = t_samples d \<and> t_snapshots d' = t_snapshots d \<and> t_logs d' = t_logs d
     \<and> t_settings d' = t_settings d \<and> seq_samples d' = seq_samples d
     \<and> seq_snapshots d' = seq_snapshots d \<and> seq_logs d' = seq_logs d"

definition routes_ok :: "uuid set \<Rightarrow> db \<Rightarrow> bool" where
  "routes_ok ids d \<longleftrightarrow> distinct (map sr_root (t_roots d)) \<and> distinct (map rk_key (t_route_keys d))
     \<and> distinct (map af_key (t_affinity d))
     \<and> (\<forall>s \<in> set (t_roots d). opt_in (sr_requested s) ids \<and> opt_in (sr_effective s) ids)
     \<and> (\<forall>k \<in> set (t_route_keys d). rk_root k \<in> sr_root ` set (t_roots d))
     \<and> (\<forall>f \<in> set (t_affinity d). af_account f \<in> ids)"

lemma same_base_refl [simp]: "same_base d d"
  by (simp add: same_base_def)

lemma same_base_trans: "same_base a b \<Longrightarrow> same_base b c \<Longrightarrow> same_base a c"
  by (simp add: same_base_def)

lemma same_base_fields:
  assumes "same_base d d'"
  shows "t_accounts d' = t_accounts d" "t_runtime d' = t_runtime d" "t_windows d' = t_windows d"
    "t_logs d' = t_logs d" "account_ids d' = account_ids d" "load d' = load d"
  using assms by (simp_all add: same_base_def account_ids_def load_def fun_eq_iff)

lemma db_ok_routes: "db_ok d \<Longrightarrow> routes_ok (account_ids d) d"
  by (simp add: db_ok_def keys_ok_def foreign_keys_ok_def routes_ok_def)

lemma db_ok_same_base:
  assumes "db_ok d" "same_base d d'" "routes_ok (account_ids d) d'"
  shows "db_ok d'"
  using assms
  by (simp add: db_ok_def keys_ok_def foreign_keys_ok_def routes_ok_def runtime_total_def account_ids_def same_base_def)

lemma base_steps [simp]:
  "same_base d (update_root r f d)" "same_base d (upsert_key m row d)" "same_base d (upsert_affinity m' row' d)"
  "same_base d (delete_root r d)" "same_base d (snd (insert_root q now r d))" "same_base d (discard_root r d)"
  by (simp_all add: same_base_def upsert_key_def upsert_affinity_def delete_root_def insert_root_def discard_root_def)

lemma routes_ok_update_root:
  assumes "routes_ok ids d" "\<And>s. sr_root (f s) = sr_root s"
    and "\<And>s. s \<in> set (t_roots d) \<Longrightarrow> opt_in (sr_requested (f s)) ids \<and> opt_in (sr_effective (f s)) ids"
  shows "routes_ok ids (d\<lparr>t_roots := tbl_update p f (t_roots d)\<rparr>)"
  using assms(1,3) by (auto simp: routes_ok_def distinct_update assms(2) image_update)
    (auto simp: set_update)

lemma routes_ok_insert_root: "routes_ok ids d \<Longrightarrow> routes_ok ids (snd (insert_root q now r d))"
  by (auto simp: routes_ok_def insert_root_def root_exists_iff)

lemma routes_ok_delete_root: "routes_ok ids d \<Longrightarrow> routes_ok ids (delete_root r d)"
  by (auto simp: routes_ok_def delete_root_def distinct_delete set_delete)

lemma routes_ok_discard_root: "routes_ok ids d \<Longrightarrow> routes_ok ids (discard_root r d)"
  by (simp add: discard_root_def routes_ok_delete_root)

lemma set_upsert:
  "x \<in> set (tbl_upsert key merge n t) \<Longrightarrow> x \<in> set t \<or> x = n \<or> (\<exists>r \<in> set t. key r = key n \<and> x = merge r n)"
  by (auto simp: tbl_upsert_def set_update split: if_splits)

lemma routes_ok_upsert_key:
  assumes "routes_ok ids d" "keyed_table rk_key merge"
    and "rk_root row \<in> sr_root ` set (t_roots d)" "\<And>r. rk_root (merge r row) = rk_root r \<or> rk_root (merge r row) = rk_root row"
  shows "routes_ok ids (upsert_key merge row d)"
proof -
  have "rk_root x \<in> sr_root ` set (t_roots d)" if "x \<in> set (tbl_upsert rk_key merge row (t_route_keys d))" for x
    using set_upsert [OF that] assms(1,3,4) unfolding routes_ok_def by metis
  then show ?thesis
    using assms(1) keyed_table.distinct_upsert [OF assms(2)] by (simp add: routes_ok_def upsert_key_def)
qed

lemma routes_ok_upsert_affinity:
  assumes "routes_ok ids d" "keyed_table af_key merge"
    and "af_account row \<in> ids" "\<And>r. af_account (merge r row) = af_account r \<or> af_account (merge r row) = af_account row"
  shows "routes_ok ids (upsert_affinity merge row d)"
proof -
  have "af_account x \<in> ids" if "x \<in> set (tbl_upsert af_key merge row (t_affinity d))" for x
    using set_upsert [OF that] assms(1,3,4) unfolding routes_ok_def by metis
  then show ?thesis
    using assms(1) keyed_table.distinct_upsert [OF assms(2)] by (simp add: routes_ok_def upsert_affinity_def)
qed

text \<open>Lookups after the loops.\<close>

lemma upsert_key_fold:
  "fold (\<lambda>k. upsert_key m (row k)) ks d = d\<lparr>t_route_keys := fold (tbl_upsert rk_key m) (map row ks) (t_route_keys d)\<rparr>"
  by (induction ks arbitrary: d) (simp_all add: upsert_key_def)

lemma upsert_affinity_fold:
  "fold (\<lambda>k. upsert_affinity m (row k)) ks d = d\<lparr>t_affinity := fold (tbl_upsert af_key m) (map row ks) (t_affinity d)\<rparr>"
  by (induction ks arbitrary: d) (simp_all add: upsert_affinity_def)

lemma map_keys_base [simp]: "same_base d (map_keys q now r ks d)"
  by (simp add: map_keys_def upsert_key_fold same_base_def)

lemma move_affinities_base [simp]: "same_base d (move_affinities q now aid gen ks d)"
  by (simp add: move_affinities_def upsert_affinity_fold same_base_def)

lemma routes_ok_map_keys:
  assumes "routes_ok ids d" "r \<in> sr_root ` set (t_roots d)"
  shows "routes_ok ids (map_keys q now r ks d) \<and> t_roots (map_keys q now r ks d) = t_roots d"
  using assms unfolding map_keys_def
proof (induction ks arbitrary: d)
  case (Cons k ks)
  have "routes_ok ids (upsert_key claim_key (key_row q now r k) d)"
    by (rule routes_ok_upsert_key [OF Cons.prems(1)]) (use Cons.prems(2) in \<open>auto simp: claim_key_def keyed_table_def\<close>)
  moreover have "t_roots (upsert_key claim_key (key_row q now r k) d) = t_roots d" by (simp add: upsert_key_def)
  ultimately show ?case using Cons.IH Cons.prems(2) by simp
qed simp

lemma routes_ok_move_affinities:
  assumes "routes_ok ids d" "aid \<in> ids"
  shows "routes_ok ids (move_affinities q now aid gen ks d)"
  using assms unfolding move_affinities_def
proof (induction ks arbitrary: d)
  case (Cons k ks)
  have "routes_ok ids (upsert_affinity take_affinity (new_affinity q now k aid gen) d)"
    by (rule routes_ok_upsert_affinity [OF Cons.prems(1)]) (use Cons.prems(2) in \<open>auto simp: take_affinity_def keyed_table_def\<close>)
  then show ?case using Cons.IH Cons.prems(2) by simp
qed simp

lemma drop_roots_fields:
  fixes r :: string and rs :: "string set"
  assumes "finite rs"
  shows "t_roots (drop_roots r rs d) = filter (\<lambda>s. sr_root s \<notin> rs - {r}) (t_roots d)"
    and "t_route_keys (drop_roots r rs d) = filter (\<lambda>k. rk_root k \<notin> rs - {r}) (t_route_keys d)"
    and "t_affinity (drop_roots r rs d) = t_affinity d"
    and "same_base d (drop_roots r rs d)"
proof -
  have fields: "t_roots (fold delete_root xs d) = filter (\<lambda>s. sr_root s \<notin> set xs) (t_roots d)
      \<and> t_route_keys (fold delete_root xs d) = filter (\<lambda>k. rk_root k \<notin> set xs) (t_route_keys d)
      \<and> t_affinity (fold delete_root xs d) = t_affinity d \<and> same_base d (fold delete_root xs d)" for xs d
  proof (induction xs arbitrary: d)
    case (Cons x xs)
    have "same_base d (fold delete_root xs (delete_root x d))"
      using Cons same_base_trans base_steps(4) by blast
    moreover have "t_roots (delete_root x d) = filter (\<lambda>s. sr_root s \<noteq> x) (t_roots d)"
      "t_route_keys (delete_root x d) = filter (\<lambda>k. rk_root k \<noteq> x) (t_route_keys d)"
      "t_affinity (delete_root x d) = t_affinity d"
      by (simp_all add: delete_root_def tbl_delete_def)
    ultimately show ?case using Cons by (simp add: conj_commute)
  qed simp
  have "set (sorted_list_of_set (rs - {r})) = rs - {r}" using assms by simp
  with fields [of "sorted_list_of_set (rs - {r})" d] show
    "t_roots (drop_roots r rs d) = filter (\<lambda>s. sr_root s \<notin> rs - {r}) (t_roots d)"
    "t_route_keys (drop_roots r rs d) = filter (\<lambda>k. rk_root k \<notin> rs - {r}) (t_route_keys d)"
    "t_affinity (drop_roots r rs d) = t_affinity d" "same_base d (drop_roots r rs d)"
    by (simp_all add: drop_roots_def)
qed

section \<open>The plan\<close>

lemma set_merge_keys:
  "set (merge_keys input existing) = {k \<in> plain_key ` set existing. key_hash k \<notin> hashes input} \<union> set input"
  by (auto simp: merge_keys_def)

lemma hashes_merge_keys: "hashes (merge_keys input existing) = hashes input \<union> rk_key ` set existing"
proof -
  have gen: "f ` ({k \<in> E. f k \<notin> f ` I} \<union> I) = f ` I \<union> f ` E" for f :: "route_key \<Rightarrow> string" and E I
    by auto
  have "rk_key ` set existing = key_hash ` plain_key ` set existing"
    by (simp add: image_image plain_key_def)
  then show ?thesis
    using gen [of key_hash "plain_key ` set existing" "set input"] by (simp only: hashes_def set_merge_keys)
qed

lemma distinct_merge_keys:
  assumes "distinct (map key_hash input)" "distinct (map rk_key existing)"
  shows "distinct (map key_hash (merge_keys input existing))"
proof -
  let ?old = "filter (\<lambda>k. key_hash k \<notin> hashes input) (map plain_key existing)"
  have "map key_hash (map plain_key existing) = map rk_key existing" by (simp add: plain_key_def)
  then have "distinct (map key_hash ?old)" using assms(2) by (metis distinct_map_filter)
  moreover have "key_hash ` set ?old \<inter> key_hash ` set input = {}" by (auto simp: hashes_def)
  ultimately have "distinct (map key_hash (?old @ input))" using assms(1) by simp
  then show ?thesis unfolding merge_keys_def by (metis distinct_map distinct_sort set_sort)
qed

lemma existing_keys_set: "set (existing_keys roots d) = {k \<in> set (t_route_keys d). rk_root k \<in> roots}"
  by (auto simp: existing_keys_def)

lemma existing_keys_distinct: "distinct (map rk_key (t_route_keys d)) \<Longrightarrow> distinct (map rk_key (existing_keys roots d))"
  unfolding existing_keys_def by (metis distinct_map distinct_map_filter distinct_sort set_sort)

lemma effective_eligible:
  assumes "effective_account q s st interval target d = (Some aid, fb)" "db_ok d"
  shows "eligible q (text_day q s) d aid"
  using assms smart_candidate_Some [of q s st interval "{}" d aid] eligible_count [OF assms(2), of q s]
  by (auto simp: effective_account_def split: option.splits if_splits)

lemma eligible_exists: "eligible q day d aid \<Longrightarrow> aid \<in> account_ids d"
  by (auto elim!: eligibleE dest!: find_account_in simp: account_ids_def)

text \<open>What a plan fixes.\<close>

lemma plan_facts:
  assumes "plan_action q s st interval canon input target live existed d = Inr p" "db_ok d"
    and "distinct (map key_hash input)"
  shows "pl_roots p = action_roots canon (prior_mapped_roots input d)"
    and "pl_keys p = merge_keys input (existing_keys (pl_roots p) d)"
    and "distinct (map key_hash (pl_keys p))"
    and "pl_current p = max (root_generation (pl_roots p) d) (max_generation (map af_generation (affinity_routes (pl_keys p) d)))"
    and "pl_generation p = (if pl_move p then pl_current p + 1 else pl_current p)"
    and "pl_effective p = fst (effective_account q s st interval target d)"
    and "pl_target p = map_option target_account target"
    and "pl_move p = requires_move (pl_effective p) (pl_changed p) live
           (mapping_changed canon existed (existing_keys (pl_roots p) d) (pl_keys p)) (affinity_routes (pl_keys p) d) (pl_current p)"
    and "pl_changed p = changed_route_count (pl_effective p) (affinity_routes (pl_keys p) d) (pl_keys p)"
    and "pl_status p = plan_status (pl_effective p) (snd (effective_account q s st interval target d)) (pl_move p)"
    and "pl_effective p = Some aid \<Longrightarrow> aid \<in> account_ids d"
proof -
  note pa = assms(1) [unfolded plan_action_def Let_def]
  show 1: "pl_roots p = action_roots canon (prior_mapped_roots input d)"
    and 2: "pl_keys p = merge_keys input (existing_keys (pl_roots p) d)"
    and "pl_current p = max (root_generation (pl_roots p) d) (max_generation (map af_generation (affinity_routes (pl_keys p) d)))"
    and "pl_generation p = (if pl_move p then pl_current p + 1 else pl_current p)"
    and eff: "pl_effective p = fst (effective_account q s st interval target d)"
    and "pl_target p = map_option target_account target"
    and "pl_move p = requires_move (pl_effective p) (pl_changed p) live
           (mapping_changed canon existed (existing_keys (pl_roots p) d) (pl_keys p)) (affinity_routes (pl_keys p) d) (pl_current p)"
    and "pl_changed p = changed_route_count (pl_effective p) (affinity_routes (pl_keys p) d) (pl_keys p)"
    and "pl_status p = plan_status (pl_effective p) (snd (effective_account q s st interval target d)) (pl_move p)"
    using pa by (auto split: if_splits prod.splits)
  have "distinct (map rk_key (t_route_keys d))" using assms(2) by (simp add: db_ok_def keys_ok_def)
  then show "distinct (map key_hash (pl_keys p))"
    unfolding 2 by (intro distinct_merge_keys assms(3) existing_keys_distinct)
  show "aid \<in> account_ids d" if "pl_effective p = Some aid"
    using that eff effective_eligible [OF _ assms(2)] eligible_exists by (metis prod.collapse)
qed

text \<open>Every key of the merged roots is a key of the plan.\<close>

lemma plan_covers:
  assumes "plan_action q s st interval canon input target live existed d = Inr p" "db_ok d"
    and "distinct (map key_hash input)"
  shows "k \<in> set (t_route_keys d) \<Longrightarrow> rk_root k \<in> pl_roots p \<Longrightarrow> rk_key k \<in> hashes (pl_keys p)"
    and "hashes input \<subseteq> hashes (pl_keys p)" and "canon \<in> pl_roots p" and "finite (pl_roots p)"
  using plan_facts(1,2) [OF assms]
  by (auto simp: hashes_merge_keys existing_keys_set action_roots_def)

section \<open>What a committed action leaves behind\<close>

text \<open>The premises of the execution, as the transaction establishes them.\<close>

definition plan_ready :: "string \<Rightarrow> action_plan \<Rightarrow> db \<Rightarrow> bool" where
  "plan_ready canon p d \<longleftrightarrow> db_ok d \<and> canon \<in> sr_root ` set (t_roots d) \<and> canon \<in> pl_roots p \<and> finite (pl_roots p)
     \<and> distinct (map key_hash (pl_keys p))
     \<and> (\<forall>k \<in> set (t_route_keys d). rk_root k \<in> pl_roots p \<longrightarrow> rk_key k \<in> hashes (pl_keys p))
     \<and> opt_in (pl_effective p) (account_ids d) \<and> opt_in (pl_target p) (account_ids d)"

definition mapped_db :: "sqlite \<Rightarrow> instant \<Rightarrow> string \<Rightarrow> action_plan \<Rightarrow> db \<Rightarrow> db" where
  "mapped_db q now canon p d =
     map_keys q now canon (pl_keys p) (update_root canon
       (\<lambda>s. s\<lparr>sr_generation := max (sr_generation s) (pl_current p), sr_updated_at := now_text q now\<rparr>) d)"

lemma find_map_keys:
  assumes "distinct (map key_hash ks)"
  shows "k \<in> set ks \<Longrightarrow> \<exists>row. tbl_find rk_key (key_hash k) (t_route_keys (map_keys q now r ks d)) = Some row
           \<and> rk_root row = r \<and> rk_kind row = key_kind k"
    and "h \<notin> hashes ks \<Longrightarrow> tbl_find rk_key h (t_route_keys (map_keys q now r ks d)) = tbl_find rk_key h (t_route_keys d)"
proof -
  have d: "distinct (map rk_key (map (key_row q now r) ks))" using assms by (simp add: comp_def)
  have t: "t_route_keys (map_keys q now r ks d) = fold (tbl_upsert rk_key claim_key) (map (key_row q now r) ks) (t_route_keys d)"
    by (simp add: map_keys_def upsert_key_fold)
  show "h \<notin> hashes ks \<Longrightarrow> tbl_find rk_key h (t_route_keys (map_keys q now r ks d)) = tbl_find rk_key h (t_route_keys d)"
    unfolding t by (rule claimed_keys.find_fold_other) (auto simp: hashes_def)
  assume "k \<in> set ks"
  then have "key_row q now r k \<in> set (map (key_row q now r) ks)" by simp
  from claimed_keys.find_fold_same [OF d this, of "t_route_keys d"]
  show "\<exists>row. tbl_find rk_key (key_hash k) (t_route_keys (map_keys q now r ks d)) = Some row
           \<and> rk_root row = r \<and> rk_kind row = key_kind k"
    unfolding t by (auto simp: claim_key_def split: option.splits)
qed

lemma mapped_ok:
  assumes "plan_ready canon p d"
  shows "routes_ok (account_ids d) (mapped_db q now canon p d)" and "same_base d (mapped_db q now canon p d)"
    and "sr_root ` set (t_roots (mapped_db q now canon p d)) = sr_root ` set (t_roots d)"
proof -
  let ?u = "update_root canon (\<lambda>s. s\<lparr>sr_generation := max (sr_generation s) (pl_current p), sr_updated_at := now_text q now\<rparr>) d"
  have r: "routes_ok (account_ids d) d" using assms by (auto simp: plan_ready_def intro: db_ok_routes)
  have u: "routes_ok (account_ids d) ?u"
    by (rule routes_ok_update_root [OF r]) (use r in \<open>auto simp: routes_ok_def\<close>)
  have img: "sr_root ` set (t_roots ?u) = sr_root ` set (t_roots d)" by (simp add: image_update)
  have c: "canon \<in> sr_root ` set (t_roots ?u)" using assms img by (simp add: plan_ready_def)
  show "routes_ok (account_ids d) (mapped_db q now canon p d)"
    unfolding mapped_db_def using routes_ok_map_keys [OF u c] by blast
  show "same_base d (mapped_db q now canon p d)"
    unfolding mapped_db_def by (rule same_base_trans [OF base_steps(1) map_keys_base])
  show "sr_root ` set (t_roots (mapped_db q now canon p d)) = sr_root ` set (t_roots d)"
    unfolding mapped_db_def using routes_ok_map_keys [OF u c, of q now "pl_keys p"] img by simp
qed

lemma mapped_root:
  assumes "plan_ready canon p d" "k \<in> set (t_route_keys (mapped_db q now canon p d))"
  shows "rk_root k \<in> pl_roots p \<Longrightarrow> rk_root k = canon"
proof -
  let ?m = "mapped_db q now canon p d"
  assume old: "rk_root k \<in> pl_roots p"
  have "distinct (map rk_key (t_route_keys ?m))"
    using mapped_ok(1) [OF assms(1)] by (simp add: routes_ok_def)
  then have f: "tbl_find rk_key (rk_key k) (t_route_keys ?m) = Some k"
    using assms(2) by (rule find_distinct)
  have dk: "distinct (map key_hash (pl_keys p))" using assms(1) by (simp add: plan_ready_def)
  show ?thesis
  proof (cases "rk_key k \<in> hashes (pl_keys p)")
    case True
    then obtain x where x: "x \<in> set (pl_keys p)" "key_hash x = rk_key k" by (auto simp: hashes_def)
    obtain row where "tbl_find rk_key (key_hash x) (t_route_keys ?m) = Some row" "rk_root row = canon"
      unfolding mapped_db_def using find_map_keys(1) [OF dk x(1)] by blast
    with f x(2) show ?thesis by simp
  next
    case False
    with f have "tbl_find rk_key (rk_key k) (t_route_keys d) = Some k"
      unfolding mapped_db_def by (simp add: find_map_keys(2) [OF dk])
    with False old assms(1) show ?thesis
      using find_Some_key [of rk_key "rk_key k" "t_route_keys d" k] by (auto simp: plan_ready_def)
  qed
qed

definition dropped_db :: "sqlite \<Rightarrow> instant \<Rightarrow> string \<Rightarrow> action_plan \<Rightarrow> db \<Rightarrow> db" where
  "dropped_db q now canon p d = drop_roots canon (pl_roots p) (mapped_db q now canon p d)"

definition moved_db :: "sqlite \<Rightarrow> instant \<Rightarrow> string \<Rightarrow> action_plan \<Rightarrow> db \<Rightarrow> db" where
  "moved_db q now canon p d =
     (case pl_effective p of
        Some aid \<Rightarrow> if pl_move p then move_affinities q now aid (pl_generation p) (pl_keys p) (dropped_db q now canon p d)
                    else dropped_db q now canon p d
      | None \<Rightarrow> dropped_db q now canon p d)"

lemma commit_action_alt: "commit_action q now canon act p d = record_action q now canon act p (moved_db q now canon p d)"
  unfolding commit_action_def moved_db_def dropped_db_def mapped_db_def Let_def ..

text \<open>No key is lost when the merged roots are deleted: they have all been mapped to the new one.\<close>

lemma dropped_fields:
  assumes "plan_ready canon p d"
  shows "t_route_keys (dropped_db q now canon p d) = t_route_keys (mapped_db q now canon p d)"
    and "t_roots (dropped_db q now canon p d)
           = filter (\<lambda>s. sr_root s \<notin> pl_roots p - {canon}) (t_roots (mapped_db q now canon p d))"
    and "t_affinity (dropped_db q now canon p d) = t_affinity d"
    and "same_base d (dropped_db q now canon p d)"
    and "routes_ok (account_ids d) (dropped_db q now canon p d)"
proof -
  let ?m = "mapped_db q now canon p d"
  have fin: "finite (pl_roots p)" using assms by (simp add: plan_ready_def)
  note df = drop_roots_fields [OF fin, where r = canon and d = ?m]
  have keep: "rk_root k \<notin> pl_roots p - {canon}" if "k \<in> set (t_route_keys ?m)" for k
    using mapped_root [OF assms that] by auto
  then show k: "t_route_keys (dropped_db q now canon p d) = t_route_keys ?m"
    unfolding dropped_db_def df by (simp add: filter_id_conv)
  show r: "t_roots (dropped_db q now canon p d) = filter (\<lambda>s. sr_root s \<notin> pl_roots p - {canon}) (t_roots ?m)"
    unfolding dropped_db_def df ..
  have aff: "t_affinity ?m = t_affinity d"
    by (simp add: mapped_db_def map_keys_def upsert_key_fold)
  then show a: "t_affinity (dropped_db q now canon p d) = t_affinity d"
    unfolding dropped_db_def df .
  show "same_base d (dropped_db q now canon p d)"
    unfolding dropped_db_def by (rule same_base_trans [OF mapped_ok(2) [OF assms] df(4)])
  have m: "routes_ok (account_ids d) ?m" by (rule mapped_ok(1) [OF assms])
  have "rk_root k \<in> sr_root ` {s \<in> set (t_roots ?m). sr_root s \<notin> pl_roots p - {canon}}"
    if "k \<in> set (t_route_keys ?m)" for k
  proof -
    have "rk_root k \<in> sr_root ` set (t_roots ?m)"
      using m that by (simp add: routes_ok_def)
    then obtain s where "s \<in> set (t_roots ?m)" "sr_root s = rk_root k"
      by (metis imageE)
    with keep [OF that] show ?thesis by (metis (mono_tags, lifting) image_eqI mem_Collect_eq)
  qed
  with m show "routes_ok (account_ids d) (dropped_db q now canon p d)"
    by (simp add: routes_ok_def k r a aff distinct_map_filter)
qed

lemma moved_fields:
  assumes "plan_ready canon p d"
  shows "t_route_keys (moved_db q now canon p d) = t_route_keys (mapped_db q now canon p d)"
    and "t_roots (moved_db q now canon p d) = t_roots (dropped_db q now canon p d)"
    and "same_base d (moved_db q now canon p d)"
    and "routes_ok (account_ids d) (moved_db q now canon p d)"
proof -
  have t: "t_route_keys (move_affinities q now aid g ks x) = t_route_keys x" "t_roots (move_affinities q now aid g ks x) = t_roots x"
    for aid g ks x by (simp_all add: move_affinities_def upsert_affinity_fold)
  show "t_route_keys (moved_db q now canon p d) = t_route_keys (mapped_db q now canon p d)"
    "t_roots (moved_db q now canon p d) = t_roots (dropped_db q now canon p d)"
    by (simp_all add: moved_db_def t dropped_fields(1) [OF assms] split: option.splits)
  show "same_base d (moved_db q now canon p d)"
    using dropped_fields(4) [OF assms, of q now] same_base_trans move_affinities_base
    by (simp add: moved_db_def split: option.splits)
  show "routes_ok (account_ids d) (moved_db q now canon p d)"
    using dropped_fields(5) [OF assms, of q now] assms
    by (auto simp: moved_db_def plan_ready_def routes_ok_move_affinities split: option.splits)
qed

lemma commit_ok:
  assumes "plan_ready canon p d"
  shows "db_ok (commit_action q now canon act p d)" and "same_base d (commit_action q now canon act p d)"
proof -
  let ?c = "commit_action q now canon act p d"
  show base: "same_base d ?c"
    unfolding commit_action_alt record_action_def
    by (rule same_base_trans [OF moved_fields(3) [OF assms] base_steps(1)])
  have "routes_ok (account_ids d) ?c"
    unfolding commit_action_alt record_action_def
    by (rule routes_ok_update_root [OF moved_fields(4) [OF assms]]) (use assms in \<open>auto simp: plan_ready_def\<close>)
  with base show "db_ok ?c" using assms db_ok_same_base by (auto simp: plan_ready_def)
qed

lemma commit_root_of:
  assumes "plan_ready canon p d"
  shows "root_of (commit_action q now canon act p d) h = (if h \<in> hashes (pl_keys p) then Some canon else root_of d h)"
proof -
  let ?u = "update_root canon (\<lambda>s. s\<lparr>sr_generation := max (sr_generation s) (pl_current p), sr_updated_at := now_text q now\<rparr>) d"
  have dk: "distinct (map key_hash (pl_keys p))" using assms by (simp add: plan_ready_def)
  have "t_route_keys (commit_action q now canon act p d) = t_route_keys (map_keys q now canon (pl_keys p) ?u)"
    unfolding commit_action_alt record_action_def by (simp add: moved_fields(1) [OF assms] mapped_db_def)
  then show ?thesis
    using find_map_keys [OF dk, where q = q and now = now and r = canon and d = ?u]
    by (auto simp: root_of_def hashes_def)
qed

lemma find_filter:
  "tbl_find key k (filter (\<lambda>r. P (key r)) t) = (if P k then tbl_find key k t else None)"
  by (induction t) auto

lemma commit_generation:
  assumes "plan_ready canon p d"
  shows "generation_of (commit_action q now canon act p d) r =
     (if r = canon then Some (pl_generation p)
      else if r \<in> pl_roots p then None else generation_of d r)"
proof -
  let ?f = "\<lambda>s :: session_root. s\<lparr>sr_generation := max (sr_generation s) (pl_current p), sr_updated_at := now_text q now\<rparr>"
  have up: "t_roots (mapped_db q now canon p d) = tbl_update (\<lambda>s. sr_root s = canon) ?f (t_roots d)"
    unfolding mapped_db_def by (simp add: map_keys_def upsert_key_fold)
  have in_canon: "canon \<in> sr_root ` set (t_roots d)" using assms by (simp add: plan_ready_def)
  have m: "tbl_find sr_root r (t_roots (mapped_db q now canon p d))
      = (if r = canon then map_option ?f (tbl_find sr_root canon (t_roots d)) else tbl_find sr_root r (t_roots d))" for r
    unfolding up by (rule find_update_same) simp
  obtain s0 where s0: "tbl_find sr_root canon (t_roots d) = Some s0"
    using in_canon by (metis find_None_iff_key not_None_eq)
  show ?thesis
    unfolding generation_of_def commit_action_alt record_action_def
    by (simp add: find_update_same moved_fields(2) [OF assms] dropped_fields(2) [OF assms] m s0
        find_filter [of sr_root _ "\<lambda>x. x \<notin> pl_roots p - {canon}", simplified])
qed

lemma commit_affinity:
  assumes "plan_ready canon p d"
  shows "h \<notin> hashes (pl_keys p) \<Longrightarrow> affinity_of (commit_action q now canon act p d) h = affinity_of d h"
    and "\<not> pl_move p \<or> pl_effective p = None \<Longrightarrow> affinity_of (commit_action q now canon act p d) h = affinity_of d h"
    and "pl_move p \<Longrightarrow> pl_effective p = Some aid \<Longrightarrow> k \<in> set (pl_keys p) \<Longrightarrow>
         \<exists>f. affinity_of (commit_action q now canon act p d) (key_hash k) = Some f \<and> af_account f = aid
           \<and> af_generation f = pl_generation p \<and> af_kind f = key_kind k"
proof -
  have c: "t_affinity (commit_action q now canon act p d) = t_affinity (moved_db q now canon p d)"
    by (simp add: commit_action_alt record_action_def)
  have mv: "t_affinity (move_affinities q now aid g ks x)
      = fold (tbl_upsert af_key take_affinity) (map (\<lambda>k. new_affinity q now k aid g) ks) (t_affinity x)" for aid g ks x
    by (simp add: move_affinities_def upsert_affinity_fold)
  have dk: "distinct (map af_key (map (\<lambda>k. new_affinity q now k aid g) (pl_keys p)))" for aid g
    using assms by (simp add: plan_ready_def comp_def)
  show "affinity_of (commit_action q now canon act p d) h = affinity_of d h" if "h \<notin> hashes (pl_keys p)"
    using that taken_affinities.find_fold_other
    by (auto simp: affinity_of_def c moved_db_def mv dropped_fields(3) [OF assms] hashes_def image_iff split: option.splits)
  show "affinity_of (commit_action q now canon act p d) h = affinity_of d h" if "\<not> pl_move p \<or> pl_effective p = None"
    using that by (auto simp: affinity_of_def c moved_db_def dropped_fields(3) [OF assms] split: option.splits)
  assume move: "pl_move p" "pl_effective p = Some aid" and k: "k \<in> set (pl_keys p)"
  let ?n = "new_affinity q now k aid (pl_generation p)"
  have "?n \<in> set (map (\<lambda>k. new_affinity q now k aid (pl_generation p)) (pl_keys p))" using k by simp
  from taken_affinities.find_fold_same [OF dk this, of "t_affinity d"]
  show "\<exists>f. affinity_of (commit_action q now canon act p d) (key_hash k) = Some f \<and> af_account f = aid
           \<and> af_generation f = pl_generation p \<and> af_kind f = key_kind k"
    unfolding affinity_of_def c moved_db_def using move
    by (simp add: mv dropped_fields(3) [OF assms]) (auto simp: take_affinity_def split: option.splits)
qed

section \<open>Dry run and real run make the same plan\<close>

text \<open>The schema's \<open>CHECK (route_generation >= 0)\<close>.\<close>

definition generations_ok :: "db \<Rightarrow> bool" where
  "generations_ok d \<longleftrightarrow> (\<forall>s \<in> set (t_roots d). 0 \<le> sr_generation s) \<and> (\<forall>f \<in> set (t_affinity d). 0 \<le> af_generation f)"

lemma max_generation_ge: "g \<in> set gs \<Longrightarrow> g \<le> max_generation gs"
  using fold_max_ge [of "hd gs" "tl gs"] by (cases gs) (auto simp: max_generation_def or_default_def max_of_def)

lemma max_generation_in: "max_generation gs = 0 \<or> max_generation gs \<in> set gs"
  using fold_max_in [of "tl gs" "hd gs"] by (cases gs) (auto simp: max_generation_def or_default_def max_of_def)

lemma max_generation_nonneg: "\<forall>g \<in> set gs. 0 \<le> g \<Longrightarrow> 0 \<le> max_generation gs"
  using max_generation_in [of gs] by auto

lemma max_generation_zero:
  assumes "\<forall>g \<in> set gs. 0 \<le> g"
  shows "max_generation (gs @ [0]) = max_generation gs"
proof -
  have "max_generation gs \<le> max_generation (gs @ [0])"
    using max_generation_in [of gs] max_generation_ge [of _ "gs @ [0]"] by auto
  moreover have "max_generation (gs @ [0]) \<le> max_generation gs"
    using max_generation_in [of "gs @ [0]"] max_generation_ge [of _ gs] max_generation_nonneg [OF assms] by auto
  ultimately show ?thesis by simp
qed

lemma smart_candidate_roots [simp]:
  "smart_candidate q s st iv ex (d\<lparr>t_roots := R\<rparr>) = smart_candidate q s st iv ex d"
proof -
  have c: "codex_windows (d\<lparr>t_roots := R\<rparr>) = codex_windows d" by (simp add: codex_windows_def fun_eq_iff)
  have "weighted_key q c (d\<lparr>t_roots := R\<rparr>) = weighted_key q c d" for c
    by (simp add: weighted_key_def account_pressure_def account_quality_def account_effective_used_def c)
  moreover have "candidates q day ex (d\<lparr>t_roots := R\<rparr>) = candidates q day ex d" for day
    by (simp add: candidates_def joined_def row_eligible_def quota_free_def c)
  ultimately show ?thesis by (simp add: smart_candidate_def Let_def)
qed

lemma account_is_eligible_roots [simp]:
  "account_is_eligible q s (d\<lparr>t_roots := R\<rparr>) aid = account_is_eligible q s d aid"
  by (simp add: account_is_eligible_def joined_def row_eligible_def quota_free_def codex_windows_def)

lemma plan_insert_root:
  assumes "generations_ok d"
  shows "plan_action q s st iv canon input target live existed (snd (insert_root q now canon d))
       = plan_action q s st iv canon input target live existed d"
proof (cases "root_exists canon d")
  case True
  then show ?thesis by (simp add: insert_root_def)
next
  case False
  let ?R = "t_roots d @ [new_root q now canon]"
  have "root_generation roots (d\<lparr>t_roots := ?R\<rparr>) = root_generation roots d" for roots
  proof (cases "canon \<in> roots")
    case True
    have "\<forall>g \<in> set (map sr_generation (filter (\<lambda>s. sr_root s \<in> roots) (t_roots d))). 0 \<le> g"
      using assms by (auto simp: generations_ok_def)
    from max_generation_zero [OF this] True show ?thesis by (simp add: root_generation_def)
  qed (simp add: root_generation_def)
  moreover have label: "label_of (d\<lparr>t_roots := ?R\<rparr>) = label_of d"
    by (simp add: label_of_def fun_eq_iff)
  moreover have "existing_keys roots (d\<lparr>t_roots := ?R\<rparr>) = existing_keys roots d"
    "prior_mapped_roots input (d\<lparr>t_roots := ?R\<rparr>) = prior_mapped_roots input d"
    "affinity_routes keys (d\<lparr>t_roots := ?R\<rparr>) = affinity_routes keys d"
    "effective_account q s st iv target (d\<lparr>t_roots := ?R\<rparr>) = effective_account q s st iv target d"
    "previous_accounts routes live (d\<lparr>t_roots := ?R\<rparr>) = previous_accounts routes live d" for roots keys routes
    by (simp_all add: existing_keys_def prior_mapped_roots_def affinity_routes_def account_exists_def
        effective_account_def label previous_accounts_def split: option.splits)
  moreover have "snd (insert_root q now canon d) = d\<lparr>t_roots := ?R\<rparr>"
    using False by (simp add: insert_root_def)
  ultimately show ?thesis
    unfolding plan_action_def by (simp only:)
qed

section \<open>The outcomes of an action\<close>

lemma action_input:
  assumes "app_bind (validate_action_request req) (\<lambda>keys. app_bind (requested_target q d req) (\<lambda>t. Inr (keys, t)))
      = Inr (input, target)"
  shows "keys_valid input" "hashes input = hashes (req_keys req)" "req_root req \<in> hashes input"
proof -
  from assms have v: "validate_session_route_keys (req_keys req) = Inr input"
    and e: "\<exists>k \<in> set input. key_hash k = req_root req"
    by (auto simp: validate_action_request_def list_ex_iff split: if_splits)
  from validate_valid [OF v] show "keys_valid input" "hashes input = hashes (req_keys req)" by simp_all
  from e show "req_root req \<in> hashes input" unfolding hashes_def by (metis imageI)
qed

lemma find_account_ids: "get_account aid d = Some a \<Longrightarrow> aid \<in> account_ids d"
  using find_account_in [of aid d a] unfolding account_ids_def by (metis imageI)

lemma insert_root_ok:
  assumes "db_ok d"
  shows "db_ok (snd (insert_root q now r d))" "r \<in> sr_root ` set (t_roots (snd (insert_root q now r d)))"
proof -
  show "db_ok (snd (insert_root q now r d))"
    using db_ok_same_base [OF assms base_steps(5)] routes_ok_insert_root [OF db_ok_routes [OF assms]] by blast
  show "r \<in> sr_root ` set (t_roots (snd (insert_root q now r d)))"
    by (auto simp: insert_root_def root_exists_iff)
qed

lemma apply_cases:
  assumes "apply_session_route_action q sel now st iv req live d = (res, d')" "db_ok d"
  obtains (rolled_back) "d' = d" "req_dry_run req \<or> (\<exists>e. res = Inl e)"
  | (committed) p d1 input target existed where "\<not> req_dry_run req" "res = Inr (action_result req p)"
      "d1 = snd (insert_root q now (req_root req) d)" "db_ok d1" "plan_ready (req_root req) p d1"
      "d' = commit_action q now (req_root req) (req_action req) p d1"
      "keys_valid input" "hashes input = hashes (req_keys req)" "req_root req \<in> hashes input"
      "plan_action q (chrono_text q sel) st iv (req_root req) input target live existed d1 = Inr p"
      "requested_target q d req = Inr target" "existed = root_exists (req_root req) d"
proof -
  let ?in = "app_bind (validate_action_request req) (\<lambda>keys. app_bind (requested_target q d req) (\<lambda>t. Inr (keys, t)))"
  obtain existed d1 where open_d: "open_root q now req d = (existed, d1)" by fastforce
  show thesis
  proof (cases ?in)
    case (Inl e)
    with assms(1) show thesis by (intro rolled_back) (auto simp: apply_session_route_action_def)
  next
    case (Inr it)
    obtain input target where it: "it = (input, target)" by fastforce
    note ai = action_input [OF Inr [unfolded it]]
    have target: "requested_target q d req = Inr target" using Inr it by auto
    let ?lost = "case target of Some t \<Rightarrow> label_of d1 (target_account t) = None | None \<Rightarrow> False"
    let ?plan = "plan_action q (chrono_text q sel) st iv (req_root req) input target live existed d1"
    note ap = assms(1) [unfolded apply_session_route_action_def Inr it, simplified, unfolded open_d, simplified]
    show thesis
    proof (cases "?lost \<or> (\<exists>e. ?plan = Inl e) \<or> req_dry_run req")
      case True
      with ap show thesis by (intro rolled_back) (auto split: if_splits sum.splits)
    next
      case False
      then obtain p where p: "?plan = Inr p" by (cases ?plan) auto
      from False have d1: "d1 = snd (insert_root q now (req_root req) d)" and ex: "existed = root_exists (req_root req) d"
        using open_d by (auto simp: open_root_def insert_root_def split: if_splits)
      have ok1: "db_ok d1" unfolding d1 by (rule insert_root_ok [OF assms(2)])
      have dist: "distinct (map key_hash input)" using ai(1) by (simp add: keys_valid_def)
      have "opt_in (pl_effective p) (account_ids d1)"
        using plan_facts(11) [OF p ok1 dist] by (cases "pl_effective p") auto
      moreover have "opt_in (pl_target p) (account_ids d1)"
        using False plan_facts(7) [OF p ok1 dist]
        by (auto simp: label_of_def find_account_ids split: option.splits)
      ultimately have "plan_ready (req_root req) p d1"
        using insert_root_ok(2) [OF assms(2)] plan_covers [OF p ok1 dist] plan_facts(3) [OF p ok1 dist] ok1 d1
        by (auto simp: plan_ready_def)
      with False ap p ai d1 ok1 target ex show thesis
        by (intro committed [of p d1 input target existed]) (auto split: if_splits option.splits)
    qed
  qed
qed

lemma db_ok_apply: "db_ok d \<Longrightarrow> db_ok (snd (apply_session_route_action q sel now st iv req live d))"
proof -
  assume ok: "db_ok d"
  obtain res d' where a: "apply_session_route_action q sel now st iv req live d = (res, d')" by fastforce
  show ?thesis
    by (cases rule: apply_cases [OF a ok]) (simp_all add: a ok commit_ok)
qed

end
