(* ===== verification/Session_Invariants.thy ===== *)
theory Session_Invariants
  imports Session_Routes
begin

text \<open>
  The invariant of the session tables, that every operation on them keeps it, and the properties of
  route actions and binds: generations only grow, a stale bind changes nothing, an action moves the
  whole session, a dry run predicts the real one.
\<close>

section \<open>The invariant\<close>

text \<open>Generations are not negative; a root is mapped to itself; an affinity row is not newer than the
  root its key is mapped to, and a row whose key no root has claimed is at generation 0.\<close>

definition session_ok :: "db \<Rightarrow> bool" where
  "session_ok d \<longleftrightarrow>
     (\<forall>r g. generation_of d r = Some g \<longrightarrow> 0 \<le> g \<and> root_of d r = Some r)
     \<and> (\<forall>h f. affinity_of d h = Some f \<longrightarrow> 0 \<le> af_generation f
          \<and> (case root_of d h of None \<Rightarrow> af_generation f = 0
             | Some r \<Rightarrow> (\<exists>g. generation_of d r = Some g \<and> af_generation f \<le> g)))"

definition key_generation :: "db \<Rightarrow> string \<Rightarrow> int option" where
  "key_generation d h = Option.bind (root_of d h) (generation_of d)"

lemma session_ok_generation: "session_ok d \<Longrightarrow> generation_of d r = Some g \<Longrightarrow> 0 \<le> g \<and> root_of d r = Some r"
  by (simp add: session_ok_def)

lemma session_ok_affinity:
  "session_ok d \<Longrightarrow> affinity_of d h = Some f \<Longrightarrow> root_of d h = Some r \<Longrightarrow> generation_of d r = Some g
   \<Longrightarrow> af_generation f \<le> g"
  by (fastforce simp: session_ok_def)

lemma session_ok_bound:
  "session_ok d \<Longrightarrow> affinity_of d h = Some f \<Longrightarrow> 0 \<le> af_generation f
     \<and> (root_of d h = None \<and> af_generation f = 0
        \<or> (\<exists>r g. root_of d h = Some r \<and> generation_of d r = Some g \<and> af_generation f \<le> g))"
  by (cases "root_of d h") (fastforce simp: session_ok_def)+

lemma find_of:
  assumes "db_ok d"
  shows "s \<in> set (t_roots d) \<Longrightarrow> generation_of d (sr_root s) = Some (sr_generation s)"
    and "f \<in> set (t_affinity d) \<Longrightarrow> affinity_of d (af_key f) = Some f"
    and "k \<in> set (t_route_keys d) \<Longrightarrow> root_of d (rk_key k) = Some (rk_root k)"
  using assms find_distinct [of sr_root "t_roots d" s] find_distinct [of af_key "t_affinity d" f]
    find_distinct [of rk_key "t_route_keys d" k]
  by (simp_all add: db_ok_def keys_ok_def generation_of_def affinity_of_def root_of_def)

lemma session_generations_ok: "db_ok d \<Longrightarrow> session_ok d \<Longrightarrow> generations_ok d"
  unfolding generations_ok_def session_ok_def using find_of by blast

lemma generation_exists: "generation_of d r \<noteq> None \<longleftrightarrow> r \<in> sr_root ` set (t_roots d)"
  unfolding generation_of_def by (metis find_None_iff_key map_option_is_None)

lemma root_of_exists:
  assumes "db_ok d" "root_of d h = Some r"
  shows "\<exists>g. generation_of d r = Some g"
proof -
  obtain k where "tbl_find rk_key h (t_route_keys d) = Some k" "rk_root k = r"
    using assms(2) by (auto simp: root_of_def)
  then have "r \<in> sr_root ` set (t_roots d)"
    using assms(1) by (auto simp: db_ok_def foreign_keys_ok_def dest!: find_Some_key)
  then show ?thesis using generation_exists [of d r] by auto
qed

text \<open>Inserting a root that maps to itself later in the transaction.\<close>

lemma insert_root_lookups:
  shows "root_of (snd (insert_root q now r d)) = root_of d" and "affinity_of (snd (insert_root q now r d)) = affinity_of d"
    and "generation_of (snd (insert_root q now r d)) x
           = (if x = r \<and> generation_of d r = None then Some 0 else generation_of d x)"
proof -
  show "root_of (snd (insert_root q now r d)) = root_of d" "affinity_of (snd (insert_root q now r d)) = affinity_of d"
    by (simp_all add: insert_root_def root_of_def affinity_of_def fun_eq_iff)
  show "generation_of (snd (insert_root q now r d)) x
           = (if x = r \<and> generation_of d r = None then Some 0 else generation_of d x)"
    using generation_exists [of d r]
    by (auto simp: insert_root_def root_exists_iff generation_of_def find_append split: option.splits)
qed

section \<open>Actions\<close>

lemma plan_generation_bounds:
  assumes "plan_action q s st iv canon input target live existed d = Inr p" "db_ok d" "keys_valid input"
  shows "pl_current p \<le> pl_generation p"
    and "r \<in> pl_roots p \<Longrightarrow> generation_of d r = Some g \<Longrightarrow> g \<le> pl_current p"
    and "h \<in> hashes (pl_keys p) \<Longrightarrow> affinity_of d h = Some f \<Longrightarrow> af_generation f \<le> pl_current p"
proof -
  have dist: "distinct (map key_hash input)" using assms(3) by (simp add: keys_valid_def)
  note pf = plan_facts [OF assms(1,2) dist]
  show "pl_current p \<le> pl_generation p" using pf(5) by simp
  show "g \<le> pl_current p" if "r \<in> pl_roots p" and g: "generation_of d r = Some g"
  proof -
    obtain s where "s \<in> set (t_roots d)" "sr_root s = r" "sr_generation s = g"
      using g by (auto simp: generation_of_def dest: find_Some_key)
    with that(1) have "g \<in> set (map sr_generation (filter (\<lambda>s. sr_root s \<in> pl_roots p) (t_roots d)))" by force
    then have "g \<le> root_generation (pl_roots p) d"
      unfolding root_generation_def by (rule max_generation_ge)
    then show ?thesis using pf(4) by simp
  qed
  show "af_generation f \<le> pl_current p" if "h \<in> hashes (pl_keys p)" and f: "affinity_of d h = Some f"
  proof -
    have "f \<in> set (t_affinity d)" "af_key f = h"
      using f by (auto simp: affinity_of_def dest: find_Some_key)
    moreover from this have "account_exists (af_account f) d"
      using assms(2) by (simp add: account_exists_iff db_ok_def foreign_keys_ok_def)
    ultimately have "f \<in> set (affinity_routes (pl_keys p) d)"
      using that(1) by (simp add: affinity_routes_def)
    then have "af_generation f \<le> max_generation (map af_generation (affinity_routes (pl_keys p) d))"
      by (intro max_generation_ge) simp
    then show ?thesis using pf(4) by simp
  qed
qed

lemma plan_key_roots:
  assumes "plan_action q s st iv canon input target live existed d = Inr p" "db_ok d" "keys_valid input"
    and "h \<in> hashes (pl_keys p)" "root_of d h = Some r"
  shows "r \<in> pl_roots p"
proof -
  have dist: "distinct (map key_hash input)" using assms(3) by (simp add: keys_valid_def)
  note pf = plan_facts(1,2) [OF assms(1,2) dist]
  obtain k where k: "k \<in> set (t_route_keys d)" "rk_key k = h" "rk_root k = r"
    using assms(5) by (auto simp: root_of_def dest!: find_Some_key)
  consider "h \<in> hashes input" | k' where "k' \<in> set (existing_keys (pl_roots p) d)" "rk_key k' = h"
    using assms(4) unfolding pf(2) hashes_merge_keys by auto
  then show ?thesis
  proof cases
    case 1
    with k have "r \<in> set (prior_mapped_roots input d)" by (auto simp: prior_mapped_roots_def)
    then show ?thesis by (simp add: pf(1) action_roots_def)
  next
    case (2 k')
    then have "k' \<in> set (t_route_keys d)" "rk_root k' \<in> pl_roots p" by (auto simp: existing_keys_set)
    moreover from this 2(2) find_of(3) [OF assms(2)] assms(5) have "rk_root k' = r" by (metis option.inject)
    ultimately show ?thesis by simp
  qed
qed

text \<open>The state after a committed action, key by key.\<close>

lemma committed_session_ok:
  assumes "session_ok d" "db_ok d" "d1 = snd (insert_root q now canon d)" "plan_ready canon p d1"
    and "keys_valid input" "canon \<in> hashes input"
    and "plan_action q s st iv canon input target live existed d1 = Inr p"
  shows "session_ok (commit_action q now canon act p d1)"
proof -
  let ?c = "commit_action q now canon act p d1"
  have ok1: "db_ok d1" using assms(4) by (simp add: plan_ready_def)
  have dist: "distinct (map key_hash input)" using assms(5) by (simp add: keys_valid_def)
  have canon_key: "canon \<in> hashes (pl_keys p)" using plan_covers(2) [OF assms(7) ok1 dist] assms(6) by auto
  note bounds = plan_generation_bounds [OF assms(7) ok1 assms(5)]
  note rt = commit_root_of [OF assms(4), of q now act]
  note gen = commit_generation [OF assms(4), of q now act]
  note ins = insert_root_lookups [of q now canon d, folded assms(3)]
  note in_roots = plan_key_roots [OF assms(7) ok1 assms(5)]
  have canon_in: "canon \<in> pl_roots p" using assms(4) by (simp add: plan_ready_def)
  obtain g1 where g1: "generation_of d1 canon = Some g1" "0 \<le> g1"
    using ins(3) [of canon] session_ok_generation [OF assms(1)] by (cases "generation_of d canon") auto
  have nonneg: "0 \<le> pl_generation p" using bounds(1) bounds(2) [OF canon_in g1(1)] g1(2) by simp
  have old: "generation_of d r = Some g" if "r \<notin> pl_roots p" "generation_of d1 r = Some g" for r g
    using that canon_in ins(3) [of r] by (auto split: if_splits)
  have roots: "0 \<le> g \<and> root_of ?c r = Some r" if g: "generation_of ?c r = Some g" for r g
  proof (cases "r = canon")
    case True
    with g gen rt canon_key nonneg show ?thesis by auto
  next
    case False
    with g gen have r: "r \<notin> pl_roots p" "generation_of d1 r = Some g" by (auto split: if_splits)
    with old session_ok_generation [OF assms(1)] have "0 \<le> g" "root_of d1 r = Some r" by (auto simp: ins)
    with in_roots [of r r] r rt show ?thesis by auto
  qed
  have affs: "0 \<le> af_generation f \<and> (case root_of ?c h of None \<Rightarrow> af_generation f = 0
        | Some r \<Rightarrow> (\<exists>g. generation_of ?c r = Some g \<and> af_generation f \<le> g))"
    if f: "affinity_of ?c h = Some f" for h f
  proof (cases "h \<in> hashes (pl_keys p)")
    case True
    have "0 \<le> af_generation f \<and> af_generation f \<le> pl_generation p"
    proof (cases "pl_move p \<and> pl_effective p \<noteq> None")
      case True
      from \<open>h \<in> hashes (pl_keys p)\<close> obtain k where "k \<in> set (pl_keys p)" "key_hash k = h" by (auto simp: hashes_def)
      with True commit_affinity(3) [OF assms(4), of _ k q now act] f nonneg show ?thesis by fastforce
    next
      case False
      then have "affinity_of d1 h = Some f" using commit_affinity(2) [OF assms(4)] f by auto
      with bounds(3) [OF \<open>h \<in> hashes (pl_keys p)\<close>] bounds(1) assms(1) ins(2) show ?thesis
        unfolding session_ok_def by fastforce
    qed
    with True rt gen show ?thesis by simp
  next
    case False
    then have fd: "affinity_of d h = Some f" using commit_affinity(1) [OF assms(4) False] f ins by simp
    have same: "root_of ?c h = root_of d h" using rt False ins by simp
    show ?thesis
    proof (cases "root_of d h")
      case None
      with fd same assms(1) show ?thesis unfolding session_ok_def by fastforce
    next
      case (Some r)
      with fd assms(1) obtain g where g: "generation_of d r = Some g" "af_generation f \<le> g" "0 \<le> af_generation f"
        unfolding session_ok_def by fastforce
      have "r \<notin> pl_roots p"
        using plan_covers(1) [OF assms(7) ok1 dist] False Some
        by (auto simp: ins(1) [symmetric] root_of_def dest!: find_Some_key)
      then have "generation_of ?c r = generation_of d r"
        using gen canon_in ins(3) [of r] by auto
      with g same Some show ?thesis by auto
    qed
  qed
  from roots affs show ?thesis unfolding session_ok_def by blast
qed

section \<open>Binds\<close>

lemma bind_keys_Inr:
  "bind_keys row merge aff ks d = Inr d' \<Longrightarrow>
     d' = d\<lparr>t_route_keys := fold (tbl_upsert rk_key touch_key) (map row ks) (t_route_keys d),
            t_affinity := fold (tbl_upsert af_key merge) (map aff ks) (t_affinity d)\<rparr>
     \<and> (ks = [] \<or> affinity_fk_ok d')"
proof (induction ks arbitrary: d)
  case (Cons k ks)
  let ?d2 = "upsert_affinity merge (aff k) (upsert_key touch_key (row k) d)"
  from Cons.prems have ok: "affinity_fk_ok ?d2" and "bind_keys row merge aff ks ?d2 = Inr d'"
    by (auto simp: Let_def split: if_splits)
  from Cons.IH [OF this(2)] ok show ?case
    by (cases "ks = []") (auto simp: upsert_affinity_def upsert_key_def)
qed simp

text \<open>The bind loop with a merge that keeps keys, over keys with distinct hashes.\<close>

lemma bind_keys_lookups:
  assumes "bind_keys (key_row q now r) merge aff ks d = Inr d'" "distinct (map key_hash ks)"
    and "keyed_table af_key merge" "\<And>k. af_key (aff k) = key_hash k"
  shows "root_of d' h = (if h \<in> hashes ks then Some (or_default (root_of d h) r) else root_of d h)"
    and "k \<in> set ks \<Longrightarrow> affinity_of d' (key_hash k)
           = Some (case affinity_of d (key_hash k) of None \<Rightarrow> aff k | Some old \<Rightarrow> merge old (aff k))"
    and "h \<notin> hashes ks \<Longrightarrow> affinity_of d' h = affinity_of d h"
    and "generation_of d' = generation_of d" and "t_roots d' = t_roots d" and "same_base d d'"
proof -
  note d' = bind_keys_Inr [OF assms(1), THEN conjunct1]
  have dk: "distinct (map rk_key (map (key_row q now r) ks))" using assms(2) by (simp add: comp_def)
  have da: "distinct (map af_key (map aff ks))" using assms(2,4) by (simp add: comp_def)
  have kt: "t_route_keys d' = fold (tbl_upsert rk_key touch_key) (map (key_row q now r) ks) (t_route_keys d)"
    and at: "t_affinity d' = fold (tbl_upsert af_key merge) (map aff ks) (t_affinity d)"
    using d' by (metis db.select_convs(6,8) db.update_convs db.surjective, simp add: d')
  show "root_of d' h = (if h \<in> hashes ks then Some (or_default (root_of d h) r) else root_of d h)"
  proof (cases "h \<in> hashes ks")
    case True
    then obtain k where "k \<in> set ks" "key_hash k = h" by (auto simp: hashes_def)
    then have "key_row q now r k \<in> set (map (key_row q now r) ks)" by simp
    from touched_keys.find_fold_same [OF dk this, of "t_route_keys d"] \<open>key_hash k = h\<close> True
    show ?thesis by (simp add: root_of_def kt or_default_def touch_key_def split: option.splits)
  next
    case False
    then have "h \<notin> rk_key ` set (map (key_row q now r) ks)" by (auto simp: hashes_def)
    from touched_keys.find_fold_other [OF this] False show ?thesis by (simp add: root_of_def kt)
  qed
  show "affinity_of d' (key_hash k) = Some (case affinity_of d (key_hash k) of None \<Rightarrow> aff k | Some old \<Rightarrow> merge old (aff k))"
    if "k \<in> set ks"
  proof -
    have "aff k \<in> set (map aff ks)" using that by simp
    from keyed_table.find_fold_same [OF assms(3) da this, of "t_affinity d"] show ?thesis
      by (simp add: affinity_of_def at assms(4))
  qed
  show "affinity_of d' h = affinity_of d h" if "h \<notin> hashes ks"
  proof -
    have "h \<notin> af_key ` set (map aff ks)" using that by (auto simp: hashes_def assms(4))
    from keyed_table.find_fold_other [OF assms(3) this] show ?thesis by (simp add: affinity_of_def at)
  qed
  show "t_roots d' = t_roots d" by (simp add: d')
  then show "generation_of d' = generation_of d" by (simp add: generation_of_def fun_eq_iff)
  show "same_base d d'" by (simp add: d' same_base_def)
qed

lemma routes_ok_bind_keys:
  assumes "bind_keys (key_row q now r) merge aff ks d = Inr d'" "routes_ok (account_ids d) d"
    and "r \<in> sr_root ` set (t_roots d)" "keyed_table af_key merge"
  shows "routes_ok (account_ids d) d'"
  using assms(1-3)
proof (induction ks arbitrary: d)
  case (Cons k ks)
  let ?d1 = "upsert_key touch_key (key_row q now r k) d"
  let ?d2 = "upsert_affinity merge (aff k) ?d1"
  have r1: "routes_ok (account_ids d) ?d1"
    by (rule routes_ok_upsert_key [OF Cons.prems(2)])
      (use Cons.prems(3) in \<open>auto simp: touch_key_def keyed_table_def\<close>)
  have fk: "affinity_fk_ok ?d2" and rest: "bind_keys (key_row q now r) merge aff ks ?d2 = Inr d'"
    using Cons.prems(1) by (auto simp: Let_def split: if_splits)
  have ids: "account_ids ?d2 = account_ids d"
    by (simp add: account_ids_def upsert_affinity_def upsert_key_def)
  have roots: "t_roots ?d2 = t_roots d" by (simp add: upsert_affinity_def upsert_key_def)
  have "\<forall>f \<in> set (t_affinity ?d2). af_account f \<in> account_ids d"
    using fk ids by (simp add: affinity_fk_ok_def list_all_iff account_exists_iff)
  then have "routes_ok (account_ids d) ?d2"
    using r1 keyed_table.distinct_upsert [OF assms(4)] by (simp add: routes_ok_def upsert_affinity_def)
  with Cons.IH [of ?d2] rest roots ids Cons.prems(3) show ?case by simp
qed simp

lemma no_conflict:
  assumes "conflicting_keys r keys d = 0" "h \<in> hashes keys" "root_of d h = Some r'"
  shows "r' = r"
proof -
  obtain k where "k \<in> set (t_route_keys d)" "rk_key k = h" "rk_root k = r'"
    using assms(3) by (auto simp: root_of_def dest!: find_Some_key)
  with assms(1,2) show ?thesis by (auto simp: conflicting_keys_def filter_empty_conv)
qed

text \<open>The rows a followed session rewrites.\<close>

lemma follow_lookups:
  assumes "distinct (map rk_key (t_route_keys d))"
  shows "root_of (follow_bound_account q now ep s aid d) = root_of d"
    and "generation_of (follow_bound_account q now ep s aid d) = generation_of d"
    and "same_base d (follow_bound_account q now ep s aid d)"
    and "\<exists>upd. affinity_of (follow_bound_account q now ep s aid d) h = map_option upd (affinity_of d h)
      \<and> (\<forall>f. upd f = f \<or> root_of d h = Some (ep_root ep) \<and> af_account (upd f) = aid \<and> af_generation (upd f) = ep_generation ep)"
proof -
  let ?P = "sr_action s = Some ''reroute'' \<and> sr_effective s \<noteq> Some aid"
  let ?f = "follow_bound_account q now ep s aid d"
  show "root_of ?f = root_of d" by (simp add: follow_bound_account_def root_of_def fun_eq_iff Let_def)
  show "same_base d ?f" by (simp add: follow_bound_account_def same_base_def Let_def)
  have up: "map_option sr_generation (tbl_find sr_root r (tbl_update P g t)) = map_option sr_generation (tbl_find sr_root r t)"
    if "\<And>s :: session_root. sr_root (g s) = sr_root s \<and> sr_generation (g s) = sr_generation s" for r P g t
  proof -
    have "tbl_find sr_root r (tbl_update P g t) = map_option (\<lambda>s. if P s then g s else s) (tbl_find sr_root r t)"
      unfolding tbl_update_def by (rule find_map_key) (simp add: that)
    then show ?thesis by (cases "tbl_find sr_root r t") (auto simp: that)
  qed
  show "generation_of ?f = generation_of d"
    by (auto simp: follow_bound_account_def generation_of_def fun_eq_iff Let_def up)
  show "\<exists>upd. affinity_of ?f h = map_option upd (affinity_of d h)
      \<and> (\<forall>f. upd f = f \<or> root_of d h = Some (ep_root ep) \<and> af_account (upd f) = aid \<and> af_generation (upd f) = ep_generation ep)"
  proof (cases ?P)
    case False
    then have "?f = d" by (auto simp: follow_bound_account_def)
    then show ?thesis by (intro exI [of _ "\<lambda>f. f"]) (simp add: option.map_ident)
  next
    case True
    let ?C = "\<lambda>h. list_ex (\<lambda>k. rk_key k = h \<and> rk_root k = ep_root ep) (t_route_keys d)"
    let ?g = "\<lambda>f. f\<lparr>af_account := aid, af_generation := ep_generation ep, af_last_used_at := now_text q now\<rparr>"
    have "tbl_find af_key h (tbl_update (\<lambda>f. ?C (af_key f)) ?g (t_affinity d))
        = map_option (\<lambda>f. if ?C (af_key f) then ?g f else f) (tbl_find af_key h (t_affinity d))"
      unfolding tbl_update_def by (rule find_map_key) simp
    also have "\<dots> = map_option (\<lambda>f. if ?C h then ?g f else f) (tbl_find af_key h (t_affinity d))"
      by (cases "tbl_find af_key h (t_affinity d)") (auto dest: find_Some_key)
    finally have a: "affinity_of ?f h = map_option (\<lambda>f. if ?C h then ?g f else f) (affinity_of d h)"
      using True by (simp add: follow_bound_account_def affinity_of_def Let_def)
    have "root_of d h = Some (ep_root ep)" if c: "?C h"
    proof -
      obtain k where "k \<in> set (t_route_keys d)" "rk_key k = h" "rk_root k = ep_root ep"
        using c by (auto simp: list_ex_iff)
      with find_distinct [OF assms this(1)] show ?thesis by (simp add: root_of_def)
    qed
    with a show ?thesis by (intro exI [of _ "\<lambda>f. if ?C h then ?g f else f"]) simp
  qed
qed

lemma routes_ok_follow:
  assumes "routes_ok ids d" "aid \<in> ids"
  shows "routes_ok ids (follow_bound_account q now ep s aid d)"
proof -
  let ?P = "\<lambda>f. list_ex (\<lambda>k. rk_key k = af_key f \<and> rk_root k = ep_root ep) (t_route_keys d)"
  let ?g = "\<lambda>f. f\<lparr>af_account := aid, af_generation := ep_generation ep, af_last_used_at := now_text q now\<rparr>"
  let ?d1 = "d\<lparr>t_affinity := tbl_update ?P ?g (t_affinity d)\<rparr>"
  have "af_account f \<in> ids" if "f \<in> set (tbl_update ?P ?g (t_affinity d))" for f
    using that assms by (auto simp: set_update routes_ok_def)
  then have 1: "routes_ok ids ?d1"
    using assms(1) by (simp add: routes_ok_def distinct_update)
  have "routes_ok ids (?d1\<lparr>t_roots := tbl_update Q h (t_roots ?d1)\<rparr>)"
    if "\<And>s. sr_root (h s) = sr_root s \<and> sr_requested (h s) = sr_requested s \<and> sr_effective (h s) = Some aid" for Q h
    by (rule routes_ok_update_root [OF 1]) (use that assms in \<open>auto simp: routes_ok_def\<close>)
  then show ?thesis
    using assms(1) by (simp add: follow_bound_account_def Let_def)
qed

lemma bind_at_epoch_cases:
  assumes "bind_at_epoch q now keys aid ep d = (res, d')"
  obtains (refused) "res \<noteq> Inr True" "d' = d"
  | (bound) s d1 where "res = Inr True" "s \<in> set (t_roots d)" "sr_root s = ep_root ep" "sr_generation s = ep_generation ep"
      "conflicting_keys (ep_root ep) keys d = 0"
      "bind_keys (key_row q now (ep_root ep)) take_affinity_if_newer (\<lambda>k. new_affinity q now k aid (ep_generation ep)) keys d = Inr d1"
      "d' = follow_bound_account q now ep s aid d1" "affinity_fk_ok d'"
proof (cases "List.find (\<lambda>s. sr_root s = ep_root ep \<and> sr_generation s = ep_generation ep) (t_roots d)")
  case None
  with assms show ?thesis by (intro refused) (auto simp: bind_at_epoch_def)
next
  case (Some s)
  then have s: "s \<in> set (t_roots d)" "sr_root s = ep_root ep" "sr_generation s = ep_generation ep"
    by (auto simp: find_Some_iff)
  let ?b = "bind_keys (key_row q now (ep_root ep)) take_affinity_if_newer (\<lambda>k. new_affinity q now k aid (ep_generation ep)) keys d"
  show ?thesis
  proof (cases "conflicting_keys (ep_root ep) keys d = 0 \<and> (\<exists>d1. ?b = Inr d1 \<and> affinity_fk_ok (follow_bound_account q now ep s aid d1))")
    case True
    then obtain d1 where "conflicting_keys (ep_root ep) keys d = 0" "?b = Inr d1"
      "affinity_fk_ok (follow_bound_account q now ep s aid d1)" by blast
    with assms Some s show ?thesis by (intro bound) (auto simp: bind_at_epoch_def Let_def)
  next
    case False
    with assms Some show ?thesis by (intro refused) (auto simp: bind_at_epoch_def Let_def split: if_splits sum.splits)
  qed
qed

lemma bind_at_epoch_facts:
  assumes "bind_at_epoch q now keys aid ep d = (Inr True, d')" "db_ok d" "session_ok d" "keys_valid keys" "keys \<noteq> []"
  shows "generation_of d (ep_root ep) = Some (ep_generation ep)"
    and "generation_of d' = generation_of d" and "same_base d d'" and "db_ok d'"
    and "root_of d' h = (if h \<in> hashes keys then Some (ep_root ep) else root_of d h)"
    and "k \<in> set keys \<Longrightarrow> \<exists>f. affinity_of d' (key_hash k) = Some f \<and> af_account f = aid \<and> af_generation f = ep_generation ep"
    and "affinity_of d' h = Some f \<Longrightarrow> affinity_of d h = Some f \<and> h \<notin> hashes keys
           \<or> root_of d' h = Some (ep_root ep) \<and> af_generation f = ep_generation ep \<and> af_account f = aid"
proof -
  from assms(1) obtain s d1 where s: "s \<in> set (t_roots d)" "sr_root s = ep_root ep" "sr_generation s = ep_generation ep"
    and conf: "conflicting_keys (ep_root ep) keys d = 0"
    and b: "bind_keys (key_row q now (ep_root ep)) take_affinity_if_newer (\<lambda>k. new_affinity q now k aid (ep_generation ep)) keys d = Inr d1"
    and d': "d' = follow_bound_account q now ep s aid d1"
    by (cases rule: bind_at_epoch_cases) auto
  have dist: "distinct (map key_hash keys)" using assms(4) by (simp add: keys_valid_def)
  note bl = bind_keys_lookups [OF b dist newer_affinities.keyed_table_axioms, simplified]
  show g: "generation_of d (ep_root ep) = Some (ep_generation ep)"
    using find_of(1) [OF assms(2) s(1)] s by simp
  have ids1: "account_ids d1 = account_ids d" using same_base_fields(5) [OF bl(6)] .
  have root1: "root_of d1 h = (if h \<in> hashes keys then Some (ep_root ep) else root_of d h)" for h
    using bl(1) [of h] no_conflict [OF conf] by (cases "root_of d h") (auto simp: or_default_def)
  have r1: "routes_ok (account_ids d) d1"
    by (rule routes_ok_bind_keys [OF b db_ok_routes [OF assms(2)] _ newer_affinities.keyed_table_axioms]) (use s in force)
  then have dist1: "distinct (map rk_key (t_route_keys d1))" by (simp add: routes_ok_def)
  have new: "\<exists>f. affinity_of d1 (key_hash k) = Some f \<and> af_account f = aid \<and> af_generation f = ep_generation ep"
    if k: "k \<in> set keys" for k
  proof (cases "affinity_of d (key_hash k)")
    case None
    with bl(2) [OF k] show ?thesis by simp
  next
    case (Some old)
    have "af_generation old \<le> ep_generation ep"
    proof (cases "root_of d (key_hash k)")
      case None
      with Some assms(3) have "af_generation old = 0" unfolding session_ok_def by fastforce
      with session_ok_generation [OF assms(3) g] show ?thesis by simp
    next
      case (Some r)
      with k no_conflict [OF conf] have "r = ep_root ep" by (auto simp: hashes_def)
      with Some \<open>affinity_of d (key_hash k) = Some old\<close> g session_ok_affinity [OF assms(3)] show ?thesis by blast
    qed
    with bl(2) [OF k] Some show ?thesis by (simp add: take_affinity_if_newer_def take_affinity_def)
  qed
  obtain k0 where "k0 \<in> set keys" using assms(5) by (cases keys) auto
  with new obtain f0 where f0: "f0 \<in> set (t_affinity d1)" "af_account f0 = aid"
    unfolding affinity_of_def by (metis find_Some_key)
  with r1 have aid: "aid \<in> account_ids d" by (auto simp: routes_ok_def)
  note fl = follow_lookups [OF dist1, where q = q and now = now and ep = ep and s = s and aid = aid, folded d']
  show "generation_of d' = generation_of d" using fl(2) bl(4) by simp
  show base: "same_base d d'" using same_base_trans [OF bl(6) fl(3)] .
  show "db_ok d'"
    using db_ok_same_base [OF assms(2) base] routes_ok_follow [OF r1 aid] d' by simp
  show rt: "root_of d' h = (if h \<in> hashes keys then Some (ep_root ep) else root_of d h)" for h
    using fl(1) root1 by simp
  show "\<exists>f. affinity_of d' (key_hash k) = Some f \<and> af_account f = aid \<and> af_generation f = ep_generation ep"
    if k: "k \<in> set keys"
  proof -
    obtain f1 where f1: "affinity_of d1 (key_hash k) = Some f1" "af_account f1 = aid" "af_generation f1 = ep_generation ep"
      using new [OF k] by blast
    obtain upd where "affinity_of d' (key_hash k) = Some (upd f1)"
      "upd f1 = f1 \<or> af_account (upd f1) = aid \<and> af_generation (upd f1) = ep_generation ep"
      using fl(4) [of "key_hash k"] f1(1) by auto
    with f1 show ?thesis by (intro exI [of _ "upd f1"]) auto
  qed
  show "affinity_of d h = Some f \<and> h \<notin> hashes keys
           \<or> root_of d' h = Some (ep_root ep) \<and> af_generation f = ep_generation ep \<and> af_account f = aid"
    if f: "affinity_of d' h = Some f"
  proof -
    obtain upd where u: "affinity_of d' h = map_option upd (affinity_of d1 h)"
      "\<forall>f. upd f = f \<or> root_of d1 h = Some (ep_root ep) \<and> af_account (upd f) = aid \<and> af_generation (upd f) = ep_generation ep"
      using fl(4) [of h] by blast
    from u(1) f obtain f1 where f1: "affinity_of d1 h = Some f1" "f = upd f1" by (cases "affinity_of d1 h") auto
    from u(2) have upd: "upd f1 = f1 \<or> root_of d1 h = Some (ep_root ep) \<and> af_account (upd f1) = aid
        \<and> af_generation (upd f1) = ep_generation ep" by blast
    show ?thesis
    proof (cases "upd f1 = f1")
      case True
      show ?thesis
      proof (cases "h \<in> hashes keys")
        case True
        then obtain k where "k \<in> set keys" "key_hash k = h" by (auto simp: hashes_def)
        with new [of k] f1 \<open>upd f1 = f1\<close> rt [of h] True show ?thesis by simp
      next
        case False
        with bl(3) [OF False] f1 \<open>upd f1 = f1\<close> show ?thesis by simp
      qed
    next
      case False
      with upd f1(2) fl(1) show ?thesis by simp
    qed
  qed
qed

lemma bind_at_epoch_session_ok:
  assumes "bind_at_epoch q now keys aid ep d = (Inr True, d')" "db_ok d" "session_ok d" "keys_valid keys" "keys \<noteq> []"
  shows "session_ok d'"
proof -
  note bf = bind_at_epoch_facts [OF assms]
  have "0 \<le> g \<and> root_of d' r = Some r" if "generation_of d' r = Some g" for r g
  proof -
    from that bf(2) have g: "generation_of d r = Some g" by simp
    with session_ok_generation [OF assms(3)] have s: "0 \<le> g" "root_of d r = Some r" by auto
    have "r = ep_root ep" if "r \<in> hashes keys"
      using assms(1) that s(2) no_conflict by (cases rule: bind_at_epoch_cases) auto
    with s bf(5) [of r] show ?thesis by auto
  qed
  moreover have "0 \<le> af_generation f \<and> (case root_of d' h of None \<Rightarrow> af_generation f = 0
      | Some r \<Rightarrow> (\<exists>g. generation_of d' r = Some g \<and> af_generation f \<le> g))" if "affinity_of d' h = Some f" for h f
    using bf(7) [OF that]
  proof
    assume "affinity_of d h = Some f \<and> h \<notin> hashes keys"
    with session_ok_bound [OF assms(3), of h f] bf(5) [of h] bf(2) show ?thesis by auto
  next
    assume "root_of d' h = Some (ep_root ep) \<and> af_generation f = ep_generation ep \<and> af_account f = aid"
    with bf(1,2) session_ok_generation [OF assms(3) bf(1)] show ?thesis by simp
  qed
  ultimately show ?thesis unfolding session_ok_def by blast
qed

section \<open>Binds without an epoch\<close>

lemma set_mapped_roots:
  "set (mapped_roots keys d) = {s \<in> set (t_roots d). \<exists>k \<in> set (t_route_keys d). rk_key k \<in> hashes keys \<and> rk_root k = sr_root s}"
  by (auto simp: mapped_roots_def epoch_rows_def image_iff) metis

lemma mapped_root_of:
  assumes "db_ok d" "root_of d h = Some r" "h \<in> hashes keys"
  obtains s where "s \<in> set (mapped_roots keys d)" "sr_root s = r"
proof -
  obtain k where k: "k \<in> set (t_route_keys d)" "rk_key k = h" "rk_root k = r"
    using assms(2) by (auto simp: root_of_def dest!: find_Some_key)
  with assms(1) have "r \<in> sr_root ` set (t_roots d)" by (auto simp: db_ok_def foreign_keys_ok_def)
  then obtain s where "s \<in> set (t_roots d)" "sr_root s = r" by (metis imageE)
  with k assms(3) that show thesis by (auto simp: set_mapped_roots)
qed

lemma key_root_exists: "db_ok d \<Longrightarrow> k \<in> set (t_route_keys d) \<Longrightarrow> root_exists (rk_root k) d"
  by (simp add: db_ok_def foreign_keys_ok_def root_exists_iff)

lemma preferred_in: "keys \<noteq> [] \<Longrightarrow> preferred_root keys \<in> hashes keys"
proof -
  assume ne: "keys \<noteq> []"
  show ?thesis
  proof (cases "List.find (\<lambda>k. key_kind k = ''session_id'') keys")
    case None
    with ne show ?thesis by (simp add: preferred_root_def hashes_def)
  next
    case (Some k)
    then have "k \<in> set keys" by (auto simp: find_Some_iff)
    with Some show ?thesis by (simp add: preferred_root_def hashes_def)
  qed
qed

lemma discard_inserted:
  assumes "db_ok d" "\<not> root_exists r d"
  shows "discard_root r (d\<lparr>t_roots := t_roots d @ [new_root q now r]\<rparr>) = d"
proof -
  have "tbl_delete (\<lambda>s. sr_root s = r) (t_roots d) = t_roots d"
    using assms(2) by (auto simp: tbl_delete_def root_exists_iff filter_id_conv)
  moreover have nk: "rk_root k \<noteq> r" if "k \<in> set (t_route_keys d)" for k
    using that assms by (auto simp: db_ok_def foreign_keys_ok_def root_exists_iff)
  moreover from nk have "tbl_delete (\<lambda>k. rk_root k = r) (t_route_keys d) = t_route_keys d"
    by (auto simp: tbl_delete_def filter_id_conv)
  ultimately show ?thesis
    by (simp add: discard_root_def delete_root_def list_ex_iff) (simp add: tbl_delete_def)
qed

text \<open>A bind that succeeds works on one root that no action has touched: a fresh one, or the single
  root its mapped keys share.\<close>

lemma bind_without_epoch_cases:
  assumes "bind_without_epoch q now keys aid d = (res, d')" "db_ok d" "session_ok d" "keys \<noteq> []"
  obtains (refused) "res \<noteq> Inr True" "d' = d"
  | (bound) r d2 where "res = Inr True"
      "d2 = d \<and> (\<exists>s \<in> set (t_roots d). sr_root s = r \<and> sr_generation s = 0 \<and> sr_action s = None)
       \<or> r = preferred_root keys \<and> \<not> root_exists r d \<and> d2 = snd (insert_root q now r d)"
      "\<forall>h \<in> hashes keys. root_of d h = None \<or> root_of d h = Some r"
      "bind_keys (key_row q now r) (merge_legacy q now) (\<lambda>k. legacy_affinity q now k aid) keys d2 = Inr d'"
proof -
  let ?p = "preferred_root keys"
  obtain ins d1 where i: "insert_root q now ?p d = (ins, d1)" by fastforce
  let ?m = "mapped_roots keys d1"
  let ?bad = "length ?m > 1 \<or> (case ?m of [] \<Rightarrow> False | s # _ \<Rightarrow> sr_generation s \<noteq> 0 \<or> sr_action s \<noteq> None)"
  let ?r = "case ?m of [] \<Rightarrow> ?p | s # _ \<Rightarrow> sr_root s"
  let ?d2 = "if ins \<and> ?r \<noteq> ?p then discard_root ?p d1 else d1"
  let ?b = "bind_keys (key_row q now ?r) (merge_legacy q now) (\<lambda>k. legacy_affinity q now k aid) keys ?d2"
  note run = assms(1) [unfolded bind_without_epoch_def Let_def i, simplified]
  have ok1: "db_ok d1" using insert_root_ok(1) [OF assms(2), of q now ?p] i by simp
  have same_keys: "root_of d1 = root_of d" using insert_root_lookups(1) [of q now ?p d] i by simp
  show thesis
  proof (cases "?bad \<or> (\<exists>e. ?b = Inl e)")
    case True
    with run show thesis by (intro refused) (auto split: if_splits sum.splits)
  next
    case False
    then obtain d3 where b: "?b = Inr d3" by (cases ?b) auto
    with run False have res: "res = Inr True" "d' = d3" by (auto split: if_splits)
    have one: "?m = [] \<or> (\<exists>s. ?m = [s] \<and> sr_generation s = 0 \<and> sr_action s = None)"
      using False by (cases ?m; cases "tl ?m") auto
    have share: "\<forall>h \<in> hashes keys. root_of d h = None \<or> root_of d h = Some ?r"
    proof
      fix h assume h: "h \<in> hashes keys"
      show "root_of d h = None \<or> root_of d h = Some ?r"
      proof (cases "root_of d1 h")
        case (Some r)
        then obtain s where "s \<in> set ?m" "sr_root s = r" using mapped_root_of [OF ok1 _ h] by blast
        with one Some same_keys show ?thesis by auto
      qed (simp add: same_keys)
    qed
    show thesis
    proof (cases "?m = []")
      case True
      have "generation_of d ?p = None"
      proof (rule ccontr)
        assume "generation_of d ?p \<noteq> None"
        then have "root_of d1 ?p = Some ?p" using session_ok_generation [OF assms(3)] same_keys by auto
        with True show False using mapped_root_of [OF ok1 _ preferred_in [OF assms(4)]] by auto
      qed
      then have "\<not> root_exists ?p d" using generation_exists [of d ?p] by (simp add: root_exists_iff)
      with True res b share i show thesis by (intro bound [of d1 ?p]) auto
    next
      case False
      with one obtain s where s: "?m = [s]" "sr_generation s = 0" "sr_action s = None" by auto
      then have sm: "s \<in> set (t_roots d1)" "\<exists>k \<in> set (t_route_keys d1). rk_root k = sr_root s"
        using set_mapped_roots [of keys d1] by auto
      have d2: "?d2 = d"
      proof (cases ins)
        case True
        then have fresh: "\<not> root_exists ?p d" "d1 = d\<lparr>t_roots := t_roots d @ [new_root q now ?p]\<rparr>"
          using i by (auto simp: insert_root_def split: if_splits)
        then have "sr_root s \<noteq> ?p"
          using sm(2) key_root_exists [OF assms(2)] by fastforce
        with True s fresh discard_inserted [OF assms(2)] show ?thesis by simp
      next
        case False
        with i show ?thesis by (auto simp: insert_root_def split: if_splits)
      qed
      have "s \<in> set (t_roots d)"
      proof (cases ins)
        case True
        then have fresh: "\<not> root_exists ?p d" "d1 = d\<lparr>t_roots := t_roots d @ [new_root q now ?p]\<rparr>"
          using i by (auto simp: insert_root_def split: if_splits)
        with sm key_root_exists [OF assms(2)] show ?thesis by fastforce
      next
        case False
        with i sm show ?thesis by (auto simp: insert_root_def split: if_splits)
      qed
      with s d2 b res share show thesis by (intro bound [of d "sr_root s"]) auto
    qed
  qed
qed

lemma bind_without_epoch_facts:
  assumes "bind_without_epoch q now keys aid d = (Inr True, d')" "db_ok d" "session_ok d" "keys_valid keys" "keys \<noteq> []"
  obtains r where "\<forall>h \<in> hashes keys. root_of d h = None \<or> root_of d h = Some r"
    "\<And>x. generation_of d' x = (if x = r then Some 0 else generation_of d x)"
    "generation_of d r = None \<or> generation_of d r = Some 0"
    "\<And>h. root_of d' h = (if h \<in> hashes keys then Some r else root_of d h)"
    "\<And>k. k \<in> set keys \<Longrightarrow> \<exists>f. affinity_of d' (key_hash k) = Some f \<and> af_account f = aid \<and> af_generation f = 0"
    "\<And>h. h \<notin> hashes keys \<Longrightarrow> affinity_of d' h = affinity_of d h"
    "r \<in> hashes keys \<or> root_of d r = Some r"
    "\<forall>s \<in> set (t_roots d). sr_root s = r \<longrightarrow> sr_action s = None"
    "same_base d d'" "db_ok d'"
proof (cases rule: bind_without_epoch_cases [OF assms(1-3,5)])
  case 1
  then show ?thesis by simp
next
  case (2 r d2)
  note bound = 2
  have dist: "distinct (map key_hash keys)" using assms(4) by (simp add: keys_valid_def)
  note bl = bind_keys_lookups [OF bound(4) dist legacy_affinities.keyed_table_axioms, simplified]
  have d2: "db_ok d2 \<and> root_of d2 = root_of d \<and> affinity_of d2 = affinity_of d \<and> same_base d d2
      \<and> (\<forall>x. generation_of d2 x = (if x = r then Some 0 else generation_of d x))
      \<and> (generation_of d r = None \<or> generation_of d r = Some 0) \<and> r \<in> sr_root ` set (t_roots d2)
      \<and> (r \<in> hashes keys \<or> root_of d r = Some r)"
    using bound(2)
  proof
    assume b: "d2 = d \<and> (\<exists>s \<in> set (t_roots d). sr_root s = r \<and> sr_generation s = 0 \<and> sr_action s = None)"
    then obtain s where "s \<in> set (t_roots d)" "sr_root s = r" "sr_generation s = 0" by blast
    with find_of(1) [OF assms(2) this(1)] have "generation_of d r = Some 0" by simp
    with b assms(2) generation_exists [of d r] session_ok_generation [OF assms(3)] show ?thesis by auto
  next
    assume b: "r = preferred_root keys \<and> \<not> root_exists r d \<and> d2 = snd (insert_root q now r d)"
    then have "generation_of d r = None" using generation_exists [of d r] root_exists_iff [of r d] by blast
    with b insert_root_lookups [of q now r d] insert_root_ok [OF assms(2), where q = q and now = now and r = r] preferred_in [OF assms(5)]
    show ?thesis by auto
  qed
  have root: "root_of d' h = (if h \<in> hashes keys then Some r else root_of d h)" for h
    using bl(1) [of h] d2 bound(3) by (cases "root_of d h") (auto simp: or_default_def)
  have zero: "af_generation old = 0" if "affinity_of d h = Some old" "h \<in> hashes keys" for h old
    using session_ok_bound [OF assms(3) that(1)] bound(3) that(2) d2 by auto
  have aff: "\<exists>f. affinity_of d' (key_hash k) = Some f \<and> af_account f = aid \<and> af_generation f = 0" if "k \<in> set keys" for k
  proof -
    have "key_hash k \<in> hashes keys" using that by (simp add: hashes_def)
    with bl(2) [OF that] d2 zero show ?thesis
      by (cases "affinity_of d (key_hash k)") (auto simp: merge_legacy_def)
  qed
  have acts: "\<forall>s \<in> set (t_roots d). sr_root s = r \<longrightarrow> sr_action s = None"
  proof
    fix s assume s: "s \<in> set (t_roots d)"
    show "sr_root s = r \<longrightarrow> sr_action s = None"
    proof
      assume r: "sr_root s = r"
      with s bound(2) obtain s' where s': "s' \<in> set (t_roots d)" "sr_root s' = r" "sr_action s' = None"
        by (auto simp: root_exists_iff)
      have dr: "distinct (map sr_root (t_roots d))" using assms(2) by (simp add: db_ok_def keys_ok_def)
      have "s = s'" using find_distinct [OF dr s] find_distinct [OF dr s'(1)] r s'(2) by simp
      with s'(3) show "sr_action s = None" by simp
    qed
  qed
  have base: "same_base d d'" using same_base_trans [of d d2 d'] d2 bl(6) by blast
  have "routes_ok (account_ids d2) d'"
    using routes_ok_bind_keys [OF bound(4) db_ok_routes _ legacy_affinities.keyed_table_axioms] d2 by blast
  then have "db_ok d'"
    using db_ok_same_base [of d2 d'] d2 bl(6) by blast
  with that [of r] bound(3) d2 root aff bl(3,4) acts base show ?thesis by simp
qed

lemma bind_without_epoch_session_ok:
  assumes "bind_without_epoch q now keys aid d = (Inr True, d')" "db_ok d" "session_ok d" "keys_valid keys" "keys \<noteq> []"
  shows "session_ok d'"
proof (rule bind_without_epoch_facts [OF assms])
  fix r
  assume share: "\<forall>h \<in> hashes keys. root_of d h = None \<or> root_of d h = Some r"
    and gen: "\<And>x. generation_of d' x = (if x = r then Some 0 else generation_of d x)"
    and root: "\<And>h. root_of d' h = (if h \<in> hashes keys then Some r else root_of d h)"
    and aff: "\<And>k. k \<in> set keys \<Longrightarrow> \<exists>f. affinity_of d' (key_hash k) = Some f \<and> af_account f = aid \<and> af_generation f = 0"
    and other: "\<And>h. h \<notin> hashes keys \<Longrightarrow> affinity_of d' h = affinity_of d h"
    and self: "r \<in> hashes keys \<or> root_of d r = Some r"
    and g0: "generation_of d r = None \<or> generation_of d r = Some 0"
  have "0 \<le> g \<and> root_of d' x = Some x" if x: "generation_of d' x = Some g" for x g
  proof (cases "x = r")
    case True
    with x gen root self show ?thesis by auto
  next
    case False
    with x gen session_ok_generation [OF assms(3)] have "0 \<le> g" "root_of d x = Some x" by auto
    with False share root show ?thesis by auto
  qed
  moreover have "0 \<le> af_generation f \<and> (case root_of d' h of None \<Rightarrow> af_generation f = 0
      | Some x \<Rightarrow> (\<exists>g. generation_of d' x = Some g \<and> af_generation f \<le> g))" if f: "affinity_of d' h = Some f" for h f
  proof (cases "h \<in> hashes keys")
    case True
    then obtain k where "k \<in> set keys" "key_hash k = h" by (auto simp: hashes_def)
    with aff [of k] f True root gen show ?thesis by auto
  next
    case False
    with f other have fd: "affinity_of d h = Some f" by simp
    from session_ok_bound [OF assms(3) fd] show ?thesis
      using False root gen g0 by (auto split: if_splits)
  qed
  ultimately show ?thesis unfolding session_ok_def by blast
qed

section \<open>Sequences of operations\<close>

datatype session_op =
    ApplyAction instant instant runtime_settings nat action_request "uuid set"
  | BindKeys instant "route_key list" uuid "route_epoch option"

fun session_step :: "sqlite \<Rightarrow> session_op \<Rightarrow> db \<Rightarrow> db" where
  "session_step q (ApplyAction sel now st iv req live) d = snd (apply_session_route_action q sel now st iv req live d)"
| "session_step q (BindKeys now ks aid ep) d = snd (bind_affinities_at_epoch q now ks aid ep d)"

lemma bind_affinities_cases:
  assumes "bind_affinities_at_epoch q now ks aid epoch d = (res, d')"
  obtains (refused) "d' = d" "res \<noteq> Inr True \<or> ks = []"
  | (at_epoch) keys ep where "keys_valid keys" "hashes keys = hashes ks" "keys \<noteq> []" "epoch = Some ep" "res = Inr True"
      "bind_at_epoch q now keys aid ep d = (Inr True, d')"
  | (no_epoch) keys where "keys_valid keys" "hashes keys = hashes ks" "keys \<noteq> []" "epoch = None" "res = Inr True"
      "bind_without_epoch q now keys aid d = (Inr True, d')"
proof (cases "validate_session_route_keys ks")
  case (Inl e)
  with assms show ?thesis by (intro refused) (auto simp: bind_affinities_at_epoch_def)
next
  case (Inr keys)
  note v = validate_valid [OF Inr]
  show ?thesis
  proof (cases "keys = []")
    case True
    with v have "ks = []" by (auto simp: hashes_def)
    with assms Inr True show ?thesis by (intro refused) (auto simp: bind_affinities_at_epoch_def)
  next
    case ne: False
    show ?thesis
    proof (cases epoch)
      case None
      with assms Inr ne have b: "bind_without_epoch q now keys aid d = (res, d')"
        by (simp add: bind_affinities_at_epoch_def)
      show ?thesis
      proof (cases "res = Inr True")
        case True
        with b v ne None show ?thesis by (intro no_epoch [of keys]) auto
      next
        case False
        with b show ?thesis
          by (intro refused) (auto simp: bind_without_epoch_def Let_def split: prod.splits if_splits sum.splits)
      qed
    next
      case (Some ep)
      with assms Inr ne have b: "bind_at_epoch q now keys aid ep d = (res, d')"
        by (simp add: bind_affinities_at_epoch_def)
      show ?thesis
      proof (cases "res = Inr True")
        case True
        with b v ne Some show ?thesis by (intro at_epoch [of keys ep]) auto
      next
        case False
        from bind_at_epoch_cases [OF b] False show ?thesis by (metis refused)
      qed
    qed
  qed
qed

lemma committed_generation:
  assumes "plan_action q s st iv canon input target live existed d1 = Inr p" "db_ok d1" "keys_valid input"
    and "plan_ready canon p d1" "key_generation d1 h = Some g"
  shows "\<exists>g' \<ge> g. key_generation (commit_action q now canon act p d1) h = Some g'"
proof -
  have dist: "distinct (map key_hash input)" using assms(3) by (simp add: keys_valid_def)
  obtain r where r: "root_of d1 h = Some r" "generation_of d1 r = Some g"
    using assms(5) by (auto simp: key_generation_def bind_eq_Some_conv)
  note rt = commit_root_of [OF assms(4), of q now act]
  note gen = commit_generation [OF assms(4), of q now act]
  show ?thesis
  proof (cases "h \<in> hashes (pl_keys p)")
    case True
    then have "r \<in> pl_roots p" by (rule plan_key_roots [OF assms(1-3) _ r(1)])
    with plan_generation_bounds(1,2) [OF assms(1-3)] r(2) have "g \<le> pl_generation p" by fastforce
    with True rt gen show ?thesis by (simp add: key_generation_def)
  next
    case False
    with r(1) plan_covers(1) [OF assms(1,2) dist] have "r \<notin> pl_roots p"
      by (auto simp: root_of_def dest!: find_Some_key)
    with plan_covers(3) [OF assms(1,2) dist] False rt gen r show ?thesis
      by (auto simp: key_generation_def)
  qed
qed

lemma insert_root_generation:
  assumes "key_generation d h = Some g"
  shows "key_generation (snd (insert_root q now r d)) h = Some g"
proof -
  obtain x where "root_of d h = Some x" "generation_of d x = Some g"
    using assms by (auto simp: key_generation_def bind_eq_Some_conv)
  then show ?thesis
    using insert_root_lookups(3) [of q now r d x] by (auto simp: key_generation_def insert_root_lookups(1) split: if_splits)
qed

lemma session_step_ok:
  assumes "db_ok d" "session_ok d"
  shows "db_ok (session_step q act d) \<and> session_ok (session_step q act d)
     \<and> (\<forall>h g. key_generation d h = Some g \<longrightarrow> (\<exists>g' \<ge> g. key_generation (session_step q act d) h = Some g'))"
proof (cases act)
  case (ApplyAction sel now st iv req live)
  obtain res d' where a: "apply_session_route_action q sel now st iv req live d = (res, d')" by fastforce
  show ?thesis
  proof (cases rule: apply_cases [OF a assms(1)])
    case 1
    with a assms ApplyAction show ?thesis by auto
  next
    case (2 p d1 input target existed)
    have step: "session_step q act d = commit_action q now (req_root req) (req_action req) p d1"
      using ApplyAction a 2(6) by simp
    have "session_ok (session_step q act d)"
      unfolding step using committed_session_ok [OF assms(2,1) 2(3,5,7)] 2(8-10) by blast
    moreover have "\<exists>g' \<ge> g. key_generation (session_step q act d) h = Some g'" if "key_generation d h = Some g" for h g
      unfolding step using committed_generation [OF 2(10,4,7,5)] insert_root_generation [OF that] 2(3) by blast
    ultimately show ?thesis using commit_ok(1) [OF 2(5)] step by auto
  qed
next
  case (BindKeys now ks aid epoch)
  obtain res d' where b: "bind_affinities_at_epoch q now ks aid epoch d = (res, d')" by fastforce
  have step: "session_step q act d = d'" using BindKeys b by simp
  show ?thesis
  proof (cases rule: bind_affinities_cases [OF b])
    case 1
    with step assms show ?thesis by auto
  next
    case (2 keys ep)
    note bf = bind_at_epoch_facts [OF 2(6) assms 2(1,3)]
    have "key_generation d' h = Some g" if "key_generation d h = Some g" for h g
    proof -
      obtain r where "root_of d h = Some r" "generation_of d r = Some g"
        using \<open>key_generation d h = Some g\<close> by (auto simp: key_generation_def bind_eq_Some_conv)
      moreover have "r = ep_root ep" if "h \<in> hashes keys"
        using 2(6) that calculation(1) no_conflict by (cases rule: bind_at_epoch_cases) auto
      ultimately show ?thesis using bf(2) bf(5) [of h] by (auto simp: key_generation_def)
    qed
    with step bf(4) bind_at_epoch_session_ok [OF 2(6) assms 2(1,3)] show ?thesis by auto
  next
    case (3 keys)
    have "\<exists>g' \<ge> g. key_generation d' h = Some g'" if k: "key_generation d h = Some g" for h g
    proof (rule bind_without_epoch_facts [OF 3(6) assms 3(1,3)])
      fix r
      assume share: "\<forall>h \<in> hashes keys. root_of d h = None \<or> root_of d h = Some r"
        and gen: "\<And>x. generation_of d' x = (if x = r then Some 0 else generation_of d x)"
        and g0: "generation_of d r = None \<or> generation_of d r = Some 0"
        and root: "\<And>h. root_of d' h = (if h \<in> hashes keys then Some r else root_of d h)"
      obtain x where "root_of d h = Some x" "generation_of d x = Some g"
        using k by (auto simp: key_generation_def bind_eq_Some_conv)
      with share gen g0 root show ?thesis by (auto simp: key_generation_def)
    qed
    moreover have "db_ok d'" by (rule bind_without_epoch_facts [OF 3(6) assms 3(1,3)])
    ultimately show ?thesis using step bind_without_epoch_session_ok [OF 3(6) assms 3(1,3)] by auto
  qed
qed

lemma session_run_ok:
  assumes "db_ok d" "session_ok d"
  shows "db_ok (fold (session_step q) acts d) \<and> session_ok (fold (session_step q) acts d)
     \<and> (\<forall>h g. key_generation d h = Some g \<longrightarrow> (\<exists>g' \<ge> g. key_generation (fold (session_step q) acts d) h = Some g'))"
  using assms
proof (induction acts arbitrary: d)
  case (Cons a acts)
  note step = session_step_ok [OF Cons.prems, of q a]
  with Cons.IH [of "session_step q a d"] have run: "db_ok (fold (session_step q) (a # acts) d)"
    "session_ok (fold (session_step q) (a # acts) d)"
    and more: "\<forall>h g. key_generation (session_step q a d) h = Some g \<longrightarrow>
      (\<exists>g' \<ge> g. key_generation (fold (session_step q) (a # acts) d) h = Some g')" by auto
  have "\<exists>g' \<ge> g. key_generation (fold (session_step q) (a # acts) d) h = Some g'" if "key_generation d h = Some g" for h g
    using step that more by (meson order_trans)
  with run show ?case by blast
qed auto

text \<open>A bind at an epoch its session has moved past fails and changes nothing.\<close>

lemma stale_bind_fails:
  assumes "db_ok d" "session_ok d" "key_generation d (ep_root ep) = Some g" "ep_generation ep < g" "ks \<noteq> []"
  shows "fst (bind_affinities_at_epoch q now ks aid (Some ep) d) \<noteq> Inr True
     \<and> snd (bind_affinities_at_epoch q now ks aid (Some ep) d) = d"
proof -
  obtain res d' where b: "bind_affinities_at_epoch q now ks aid (Some ep) d = (res, d')" by fastforce
  have "res \<noteq> Inr True \<and> d' = d"
  proof (cases rule: bind_affinities_cases [OF b])
    case 1
    with assms(5) show ?thesis by simp
  next
    case (2 keys ep')
    then have "generation_of d (ep_root ep) = Some (ep_generation ep)"
      using bind_at_epoch_facts(1) [OF 2(6) assms(1,2) 2(1,3)] by simp
    with session_ok_generation [OF assms(2)] assms(3,4) show ?thesis by (auto simp: key_generation_def)
  qed simp
  with b show ?thesis by simp
qed

end
