(* ===== verification/Session_Properties.thy ===== *)
theory Session_Properties
  imports Session_Invariants
begin

text \<open>
  The properties of route actions and binds, over the invariant of \<open>Session_Invariants\<close>, each applied
  to a small database: one imported account and one session.
\<close>

section \<open>A sample session\<close>

definition sample_hash :: string where
  "sample_hash = replicate 64 (CHR ''a'')"

definition sample_key :: route_key where
  "sample_key = \<lparr>key_hash = sample_hash, key_kind = ''session_id''\<rparr>"

definition sample_move :: action_request where
  "sample_move = \<lparr>req_root = sample_hash, req_keys = [sample_key], req_action = Rebalance,
     req_target = None, req_dry_run = False\<rparr>"

definition sample_plan :: action_plan where
  "sample_plan = \<lparr>pl_keys = [sample_key], pl_roots = {sample_hash}, pl_target = None, pl_requested = None,
     pl_effective = Some 7, pl_effective_label = label_of sample_db 7,
     pl_previous = previous_accounts [] {7} sample_db, pl_current = 0, pl_generation = 1, pl_move = True,
     pl_status = Applied, pl_changed = 1, pl_merged = 0\<rparr>"

definition moved_sample :: db where
  "moved_sample = commit_action sample_sqlite 6 sample_hash Rebalance sample_plan
     (snd (insert_root sample_sqlite 6 sample_hash sample_db))"

lemma sample_hash_valid: "valid_affinity_hash sample_hash"
  by (simp add: valid_affinity_hash_def sample_hash_def lower_hex_def list_all_iff byte_def)

lemma sample_kind_valid: "valid_kind ''session_id''"
  by code_simp

lemma sample_keys_valid: "validate_session_route_keys [sample_key] = Inr [sample_key]"
  using validate_loop_id [of "[]" "[sample_key]"] sample_hash_valid sample_kind_valid
  by (simp add: validate_session_route_keys_def keys_valid_def sample_key_def del: validate_keys_loop.simps)

lemma sample_tables: "t_roots sample_db = []" "t_route_keys sample_db = []"
  by (simp_all add: sample_db_def upsert_account_def Let_def opt_normalize_label_def insert_imported_def
      account_exists_def ensure_runtime_row_def empty_db_def or_default_def sample_auth_def)

lemma sample_session_ok: "session_ok sample_db"
  by (simp add: session_ok_def generation_of_def affinity_of_def sample_tables sample_db_fields)

lemma sample_plans: "plan_action sample_sqlite s settings_default 60 sample_hash [sample_key] None {7} False sample_db = Inr sample_plan"
  by (simp add: plan_action_def prior_mapped_roots_def sample_tables existing_keys_def merge_keys_def hashes_def
      affinity_routes_def sample_db_fields root_generation_def max_generation_def max_of_def or_default_def
      effective_account_def sample_candidate changed_route_count_def requires_move_def mapping_changed_def
      is_none_or_def plan_status_def sample_plan_def action_roots_def checked_add_def i64_of_def in_i64_def i64_min_def i64_max_def)

lemma sample_opens:
  "open_root q now sample_move sample_db = (False, snd (insert_root q now sample_hash sample_db))"
  by (simp add: open_root_def sample_move_def insert_root_def root_exists_def sample_tables)

lemma sample_input: "validate_action_request sample_move = Inr [sample_key]" "requested_target q d sample_move = Inr None"
  by (simp_all add: validate_action_request_def sample_move_def sample_hash_valid sample_keys_valid requested_target_def)
     (simp add: sample_key_def)

lemma sample_apply:
  "apply_session_route_action sample_sqlite 6 6 settings_default 60 sample_move {7} sample_db
     = (Inr (action_result sample_move sample_plan), moved_sample)"
proof -
  have "generations_ok sample_db" by (simp add: generations_ok_def sample_tables sample_db_fields)
  note plan = plan_insert_root [OF this]
  show ?thesis
    unfolding moved_sample_def apply_session_route_action_def sample_input app_bind.simps
    by (simp add: sample_opens plan sample_plans) (simp add: plan sample_move_def sample_plans)
qed

section \<open>Dry runs\<close>

text \<open>
  C19: a dry run of a route action changes nothing and reports exactly what the same request would
  do for real: the same error, or the same response but for its dry-run mark.
\<close>

theorem dry_run_predicts:
  assumes "db_ok d" "session_ok d"
  shows "apply_session_route_action q sel now st iv (req\<lparr>req_dry_run := True\<rparr>) live d
     = (map_sum id (\<lambda>r. r\<lparr>res_dry_run := True\<rparr>)
          (fst (apply_session_route_action q sel now st iv (req\<lparr>req_dry_run := False\<rparr>) live d)), d)"
proof -
  have label: "label_of (snd (insert_root q now r d)) = label_of d" for r
    by (simp add: insert_root_def label_of_def fun_eq_iff)
  have v: "validate_action_request (req\<lparr>req_dry_run := x\<rparr>) = validate_action_request req"
    "requested_target q d (req\<lparr>req_dry_run := x\<rparr>) = requested_target q d req" for x
    by (simp_all add: validate_action_request_def requested_target_def split: action_kind.split cong: if_cong)
  have opened: "open_root q now (req\<lparr>req_dry_run := True\<rparr>) d = (root_exists (req_root req) d, d)"
    "open_root q now (req\<lparr>req_dry_run := False\<rparr>) d
       = (root_exists (req_root req) d, snd (insert_root q now (req_root req) d))"
    by (simp_all add: open_root_def insert_root_def)
  note plan = plan_insert_root [OF session_generations_ok [OF assms]]
  show ?thesis
    unfolding apply_session_route_action_def v opened
    by (auto simp: label plan action_result_def split: sum.split option.splits)
qed

lemma dry_run_predicts_witness:
  "apply_session_route_action sample_sqlite 6 6 settings_default 60 (sample_move\<lparr>req_dry_run := True\<rparr>) {7} sample_db
     = (Inr ((action_result sample_move sample_plan)\<lparr>res_dry_run := True\<rparr>), sample_db)"
proof -
  have "sample_move\<lparr>req_dry_run := False\<rparr> = sample_move" by (simp add: sample_move_def)
  with dry_run_predicts [OF sample_db_ok sample_session_ok,
      of sample_sqlite 6 6 settings_default 60 sample_move "{7}"] sample_apply
  show ?thesis by simp
qed

section \<open>A route action moves the whole session\<close>

text \<open>The roots a request reaches and the keys of the session they make up.\<close>

definition reached_roots :: "action_request \<Rightarrow> db \<Rightarrow> string set" where
  "reached_roots req d = insert (req_root req) (image_filter (root_of d) (hashes (req_keys req)))"

definition session_keys :: "action_request \<Rightarrow> db \<Rightarrow> string set" where
  "session_keys req d = hashes (req_keys req) \<union> {h. \<exists>r \<in> reached_roots req d. root_of d h = Some r}"

lemma root_of_row: "db_ok d \<Longrightarrow> root_of d h = Some r \<longleftrightarrow> (\<exists>k \<in> set (t_route_keys d). rk_key k = h \<and> rk_root k = r)"
  using find_of(3) [of d] by (auto simp: root_of_def dest: find_Some_key)

lemma plan_session:
  assumes "plan_action q s st iv (req_root req) input target live existed d = Inr p" "db_ok d" "keys_valid input"
    and "hashes input = hashes (req_keys req)"
  shows "pl_roots p = reached_roots req d" and "hashes (pl_keys p) = session_keys req d"
proof -
  have dist: "distinct (map key_hash input)" using assms(3) by (simp add: keys_valid_def)
  note pf = plan_facts(1,2) [OF assms(1,2) dist]
  have "rk_root k \<in> image_filter (root_of d) (hashes (req_keys req))"
    if "k \<in> set (t_route_keys d)" "rk_key k \<in> hashes (req_keys req)" for k
    using that root_of_row [OF assms(2), of "rk_key k" "rk_root k"] unfolding in_image_filter by blast
  then show roots: "pl_roots p = reached_roots req d"
    using root_of_row [OF assms(2)]
    by (auto simp: pf(1) action_roots_def prior_mapped_roots_def reached_roots_def assms(4) simp del: in_image_filter)
       (auto simp: image_iff)
  show "hashes (pl_keys p) = session_keys req d"
    using root_of_row [OF assms(2)]
    by (auto simp: pf(2) hashes_merge_keys existing_keys_set roots session_keys_def assms(4))
qed

lemma insert_root_sessions:
  "reached_roots req (snd (insert_root q now r d)) = reached_roots req d"
  "session_keys req (snd (insert_root q now r d)) = session_keys req d"
  by (simp_all add: reached_roots_def session_keys_def insert_root_lookups(1))

text \<open>The maps of the session after a committed action.\<close>

lemma action_lookups:
  assumes "db_ok d" "session_ok d" "\<not> req_dry_run req"
    and "apply_session_route_action q sel now st iv req live d = (Inr resp, d')"
  shows "root_of d' h = (if h \<in> session_keys req d then Some (req_root req) else root_of d h)"
    and "generation_of d' r = (if r = req_root req then Some (res_generation resp)
                                  else if r \<in> reached_roots req d then None else generation_of d r)"
proof -
  have "root_of d' h = (if h \<in> session_keys req d then Some (req_root req) else root_of d h)
    \<and> generation_of d' r = (if r = req_root req then Some (res_generation resp)
                                  else if r \<in> reached_roots req d then None else generation_of d r)"
  proof (cases rule: apply_cases [OF assms(4,1)])
    case 1
    with assms(3) show ?thesis by simp
  next
    case (2 p d1 input target existed)
    have plan: "plan_action q (chrono_text q sel) st iv (req_root req) input target live existed d = Inr p"
      using 2(10) plan_insert_root [OF session_generations_ok [OF assms(1,2)]] unfolding 2(3) by simp
    note ps = plan_session [OF plan assms(1) 2(7,8)]
    note ins = insert_root_lookups [of q now "req_root req" d, folded 2(3)]
    have resp: "res_generation resp = pl_generation p" using 2(2) by (simp add: action_result_def)
    have canon: "req_root req \<in> reached_roots req d" by (simp add: reached_roots_def)
    show ?thesis unfolding 2(6) using canon
      by (simp add: commit_root_of [OF 2(5)] commit_generation [OF 2(5)] ps ins resp)
  qed
  then show "root_of d' h = (if h \<in> session_keys req d then Some (req_root req) else root_of d h)"
    and "generation_of d' r = (if r = req_root req then Some (res_generation resp)
                                  else if r \<in> reached_roots req d then None else generation_of d r)" by blast+
qed

text \<open>
  C3: a route action that commits moves the whole session.  Every key of every root the request
  reaches is mapped to the canonical root, which has the reported generation; the other roots of the
  session are gone; keys, roots and affinities outside the session are untouched.  Either no
  affinity of the session changes (always when the action is pending or a no-op), or all of them
  are at the reported generation on one account, which was eligible (always when it is applied).
\<close>

theorem action_moves_whole_session:
  assumes "db_ok d" "session_ok d" "\<not> req_dry_run req"
    and "apply_session_route_action q sel now st iv req live d = (Inr resp, d')"
  shows "(\<forall>h. root_of d' h = (if h \<in> session_keys req d then Some (req_root req) else root_of d h))
     \<and> (\<forall>r. generation_of d' r = (if r = req_root req then Some (res_generation resp)
                                  else if r \<in> reached_roots req d then None else generation_of d r))
     \<and> (\<forall>h. h \<notin> session_keys req d \<longrightarrow> affinity_of d' h = affinity_of d h)
     \<and> (affinity_of d' = affinity_of d \<and> res_status resp \<noteq> Applied
        \<or> res_status resp \<in> {Applied, Fallback}
          \<and> (\<exists>aid. eligible q (text_day q (chrono_text q sel)) d aid
               \<and> (\<forall>h \<in> session_keys req d. \<exists>f. affinity_of d' h = Some f \<and> af_account f = aid
                     \<and> af_generation f = res_generation resp)))"
proof (cases rule: apply_cases [OF assms(4,1)])
  case 1
  with assms(3) show ?thesis by simp
next
  case (2 p d1 input target existed)
  have dist: "distinct (map key_hash input)" using 2(7) by (simp add: keys_valid_def)
  have plan: "plan_action q (chrono_text q sel) st iv (req_root req) input target live existed d = Inr p"
    using 2(10) plan_insert_root [OF session_generations_ok [OF assms(1,2)]] unfolding 2(3) by simp
  note ps = plan_session [OF plan assms(1) 2(7,8)]
  note ins = insert_root_lookups [of q now "req_root req" d, folded 2(3)]
  have resp: "res_generation resp = pl_generation p" "res_status resp = pl_status p"
    using 2(2) by (simp_all add: action_result_def)
  have root: "\<forall>h. root_of d' h = (if h \<in> session_keys req d then Some (req_root req) else root_of d h)"
    by (simp add: action_lookups(1) [OF assms])
  have gen: "\<forall>r. generation_of d' r = (if r = req_root req then Some (res_generation resp)
      else if r \<in> reached_roots req d then None else generation_of d r)"
    by (simp add: action_lookups(2) [OF assms])
  have other: "\<forall>h. h \<notin> session_keys req d \<longrightarrow> affinity_of d' h = affinity_of d h"
    unfolding 2(6) using commit_affinity(1) [OF 2(5)] by (simp add: ps ins)
  have status: "pl_status p = plan_status (pl_effective p) (snd (effective_account q (chrono_text q sel) st iv target d)) (pl_move p)"
    by (rule plan_facts(10) [OF plan assms(1) dist])
  show ?thesis
  proof (cases "pl_move p \<and> pl_effective p \<noteq> None")
    case False
    then have "affinity_of d' = affinity_of d"
      unfolding 2(6) using commit_affinity(2) [OF 2(5)] by (auto simp: fun_eq_iff ins)
    moreover have "res_status resp \<noteq> Applied" using False status resp by (auto simp: plan_status_def)
    ultimately show ?thesis using root gen other by blast
  next
    case True
    then obtain aid where aid: "pl_effective p = Some aid" by auto
    then have el: "eligible q (text_day q (chrono_text q sel)) d aid"
      using plan_facts(6) [OF plan assms(1) dist] effective_eligible [OF _ assms(1)] by (metis prod.collapse)
    have "\<exists>f. affinity_of d' h = Some f \<and> af_account f = aid \<and> af_generation f = res_generation resp"
      if h: "h \<in> session_keys req d" for h
    proof -
      from h obtain k where "k \<in> set (pl_keys p)" "key_hash k = h" unfolding ps(2) [symmetric] by (auto simp: hashes_def)
      with commit_affinity(3) [OF 2(5) _ aid, of k q now] True show ?thesis
        unfolding 2(6) resp by blast
    qed
    moreover have "res_status resp \<in> {Applied, Fallback}" using True status resp by (auto simp: plan_status_def)
    ultimately show ?thesis using root gen other el by blast
  qed
qed

lemma action_moves_whole_session_witness:
  "root_of moved_sample sample_hash = Some sample_hash \<and> generation_of moved_sample sample_hash = Some 1
     \<and> map_option af_generation (affinity_of moved_sample sample_hash) = Some 1"
proof -
  have "\<not> req_dry_run sample_move" by (simp add: sample_move_def)
  from action_moves_whole_session [OF sample_db_ok sample_session_ok this sample_apply]
  show ?thesis by (auto simp: session_keys_def sample_move_def sample_plan_def sample_key_def hashes_def action_result_def)
qed

section \<open>Generations only grow\<close>

text \<open>
  C17: over any sequence of route actions and binds, the store stays well-formed and the generation
  of the session a key belongs to never decreases: a key once mapped stays mapped, whatever roots
  are merged.
\<close>

theorem generations_never_decrease:
  assumes "db_ok d" "session_ok d" "key_generation d h = Some g"
  shows "db_ok (fold (session_step q) acts d) \<and> session_ok (fold (session_step q) acts d)
     \<and> (\<exists>g' \<ge> g. key_generation (fold (session_step q) acts d) h = Some g')"
  using session_run_ok [OF assms(1,2)] assms(3) by blast

lemma moved_sample_ok: "db_ok moved_sample" "session_ok moved_sample"
  using session_step_ok [OF sample_db_ok sample_session_ok,
      of sample_sqlite "ApplyAction 6 6 settings_default 60 sample_move {7}"]
  by (simp_all add: sample_apply)

lemma moved_sample_tables:
  "t_roots moved_sample = [\<lparr>sr_root = sample_hash, sr_generation = 1, sr_action = Some ''rebalance'',
     sr_requested = None, sr_effective = Some 7, sr_status = Some ''applied'', sr_created_at = unary 6,
     sr_updated_at = unary 6\<rparr>]"
  "t_route_keys moved_sample = [\<lparr>rk_key = sample_hash, rk_root = sample_hash, rk_kind = ''session_id'',
     rk_created_at = unary 6, rk_updated_at = unary 6\<rparr>]"
  "t_affinity moved_sample = [\<lparr>af_key = sample_hash, af_kind = ''session_id'', af_account = 7,
     af_created_at = unary 6, af_last_used_at = unary 6, af_generation = 1\<rparr>]"
  "t_accounts moved_sample = t_accounts sample_db" "t_runtime moved_sample = t_runtime sample_db"
  "t_windows moved_sample = []"
  by (simp_all add: moved_sample_def commit_action_def sample_plan_def insert_root_def root_exists_def sample_tables
      new_root_def map_keys_def upsert_key_def tbl_upsert_def key_row_def sample_key_def drop_roots_def
      move_affinities_def upsert_affinity_def sample_db_fields new_affinity_def record_action_def tbl_update_def Let_def)
    (simp_all add: sample_sqlite_def)

lemma moved_sample_lookups:
  "root_of moved_sample sample_hash = Some sample_hash" "generation_of moved_sample sample_hash = Some 1"
  "key_generation moved_sample sample_hash = Some 1"
  by (simp_all add: root_of_def generation_of_def key_generation_def moved_sample_tables)

lemma generations_never_decrease_witness:
  "\<exists>g \<ge> 1. key_generation (session_step sample_sqlite (ApplyAction 8 8 settings_default 60 sample_move {9}) moved_sample)
     sample_hash = Some g"
  using generations_never_decrease [OF moved_sample_ok moved_sample_lookups(3),
      of sample_sqlite "[ApplyAction 8 8 settings_default 60 sample_move {9}]"] by simp



section \<open>Binds\<close>

text \<open>
  A bind that succeeds at an epoch found the epoch current and pins the request's keys: each
  maps to the epoch's root and its affinity is the account at the epoch's generation.  No
  generation changes, no key of another session moves, and any other affinity row that changed
  belongs to the same session and follows to the same account.
\<close>

lemma bind_pins_keys:
  assumes "db_ok d" "session_ok d" "bind_affinities_at_epoch q now ks aid (Some ep) d = (Inr True, d')" "ks \<noteq> []"
  shows "generation_of d (ep_root ep) = Some (ep_generation ep) \<and> generation_of d' = generation_of d
     \<and> (\<forall>h. root_of d' h = (if h \<in> hashes ks then Some (ep_root ep) else root_of d h))
     \<and> (\<forall>h \<in> hashes ks. root_of d h \<in> {None, Some (ep_root ep)}
          \<and> (\<exists>f. affinity_of d' h = Some f \<and> af_account f = aid \<and> af_generation f = ep_generation ep))
     \<and> (\<forall>h f. affinity_of d' h = Some f \<longrightarrow> affinity_of d h = Some f
          \<or> root_of d' h = Some (ep_root ep) \<and> af_generation f = ep_generation ep \<and> af_account f = aid)"
proof (cases rule: bind_affinities_cases [OF assms(3)])
  case 1
  with assms(4) show ?thesis by simp
next
  case (2 keys ep')
  then have ep: "ep' = ep" by simp
  note b = 2(6) [unfolded ep] and v = 2(1-3)
  note bf = bind_at_epoch_facts [OF b assms(1,2) v(1,3)]
  have "root_of d h \<in> {None, Some (ep_root ep)}" if h: "h \<in> hashes keys" for h
  proof (cases "root_of d h")
    case (Some r)
    from b have "conflicting_keys (ep_root ep) keys d = 0" by (cases rule: bind_at_epoch_cases) auto
    from no_conflict [OF this h Some] Some show ?thesis by simp
  qed simp
  moreover have "\<exists>f. affinity_of d' h = Some f \<and> af_account f = aid \<and> af_generation f = ep_generation ep"
    if h: "h \<in> hashes keys" for h
    using h bf(6) by (auto simp: hashes_def)
  moreover have "\<forall>h. root_of d' h = (if h \<in> hashes keys then Some (ep_root ep) else root_of d h)"
    using bf(5) by blast
  moreover have "affinity_of d h = Some f \<or> root_of d' h = Some (ep_root ep) \<and> af_generation f = ep_generation ep \<and> af_account f = aid"
    if "affinity_of d' h = Some f" for h f
    using bf(7) [OF that] by blast
  ultimately show ?thesis using bf(1,2) v(2) by simp
qed simp

lemma bind_pins_keys_witness:
  "\<exists>d'. bind_affinities_at_epoch sample_sqlite 9 [sample_key] 7
        (Some \<lparr>ep_root = sample_hash, ep_generation = 1, ep_selection_key = sample_hash\<rparr>) moved_sample = (Inr True, d')
     \<and> map_option af_account (affinity_of d' sample_hash) = Some 7"
proof -
  let ?ep = "\<lparr>ep_root = sample_hash, ep_generation = 1, ep_selection_key = sample_hash\<rparr>"
  let ?b = "bind_affinities_at_epoch sample_sqlite 9 [sample_key] 7 (Some ?ep) moved_sample"
  have "fst ?b = Inr True"
    unfolding bind_affinities_at_epoch_def sample_keys_valid
    by (simp add: bind_at_epoch_def moved_sample_tables conflicting_keys_def
        sample_key_def upsert_key_def upsert_affinity_def tbl_upsert_def tbl_update_def affinity_fk_ok_def account_exists_def
        sample_db_fields follow_bound_account_def touch_key_def key_row_def take_affinity_if_newer_def take_affinity_def
        new_affinity_def imported_row_def)
  then obtain d' where b: "?b = (Inr True, d')" by (cases ?b) simp
  have "\<exists>f. affinity_of d' sample_hash = Some f \<and> af_account f = 7"
    using bind_pins_keys [OF moved_sample_ok b] by (auto simp: hashes_def sample_key_def)
  with b show ?thesis by auto
qed

lemma affinity_fk_ok_iff: "affinity_fk_ok d \<longleftrightarrow> (\<forall>f \<in> set (t_affinity d). af_account f \<in> account_ids d)"
  by (simp add: affinity_fk_ok_def list_all_iff account_exists_iff)

text \<open>Binds to an account that exists do not fail.\<close>

lemma bind_keys_total:
  assumes "affinity_fk_ok d" "aid \<in> account_ids d" "\<And>k. af_account (aff k) = aid"
    and "\<And>old k. af_account (merge old (aff k)) \<in> {af_account old, aid}"
  shows "\<exists>d'. bind_keys row merge aff ks d = Inr d' \<and> affinity_fk_ok d' \<and> account_ids d' = account_ids d"
  using assms(1,2)
proof (induction ks arbitrary: d)
  case (Cons k ks)
  let ?d2 = "upsert_affinity merge (aff k) (upsert_key touch_key (row k) d)"
  have ids: "account_ids ?d2 = account_ids d" by (simp add: account_ids_def upsert_affinity_def upsert_key_def)
  have "af_account (merge old (aff k)) \<in> account_ids d" if "old \<in> set (t_affinity d)" for old
    using that Cons.prems assms(4) [of old k] by (auto simp: affinity_fk_ok_iff)
  then have "af_account f \<in> account_ids d" if "f \<in> set (t_affinity ?d2)" for f
    using that Cons.prems assms(3)
    by (auto simp: upsert_affinity_def upsert_key_def tbl_upsert_def set_update affinity_fk_ok_iff split: if_splits)
  then have "affinity_fk_ok ?d2" using ids by (simp add: affinity_fk_ok_iff)
  with Cons.IH [of ?d2] Cons.prems(2) ids show ?case by simp
qed simp

lemma follow_fk_ok:
  "affinity_fk_ok d \<Longrightarrow> aid \<in> account_ids d \<Longrightarrow> affinity_fk_ok (follow_bound_account q now ep s aid d)"
  by (auto simp: affinity_fk_ok_iff follow_bound_account_def Let_def set_update account_ids_def)

lemma bind_at_epoch_succeeds:
  assumes "db_ok d" "generation_of d (ep_root ep) = Some (ep_generation ep)" "account_exists aid d"
    and "\<forall>h \<in> hashes keys. root_of d h \<in> {None, Some (ep_root ep)}"
  shows "fst (bind_at_epoch q now keys aid ep d) = Inr True"
proof -
  obtain s0 where "s0 \<in> set (t_roots d)" "sr_root s0 = ep_root ep \<and> sr_generation s0 = ep_generation ep"
    using assms(2) by (auto simp: generation_of_def dest: find_Some_key)
  then obtain s where s: "List.find (\<lambda>s. sr_root s = ep_root ep \<and> sr_generation s = ep_generation ep) (t_roots d) = Some s"
    by (metis (mono_tags, lifting) find_None_iff not_None_eq)
  have c: "conflicting_keys (ep_root ep) keys d = 0"
    using assms(4) find_of(3) [OF assms(1)] by (fastforce simp: conflicting_keys_def filter_empty_conv)
  have fk: "affinity_fk_ok d" and aid: "aid \<in> account_ids d"
    using assms(1,3) by (simp_all add: affinity_fk_ok_iff db_ok_def foreign_keys_ok_def account_exists_iff)
  have "af_account (take_affinity_if_newer old (new_affinity q now k aid (ep_generation ep))) \<in> {af_account old, aid}" for old k
    by (simp add: take_affinity_if_newer_def take_affinity_def)
  then obtain d1 where "bind_keys (key_row q now (ep_root ep)) take_affinity_if_newer
      (\<lambda>k. new_affinity q now k aid (ep_generation ep)) keys d = Inr d1" "affinity_fk_ok d1" "account_ids d1 = account_ids d"
    using bind_keys_total [OF fk aid, of "\<lambda>k. new_affinity q now k aid (ep_generation ep)" take_affinity_if_newer
        "key_row q now (ep_root ep)" keys]
    by auto
  with s c aid follow_fk_ok [of d1 aid q now ep s] show ?thesis by (simp add: bind_at_epoch_def)
qed

lemma epoch_row_in:
  assumes "db_ok d"
  shows "p \<in> set (epoch_rows keys d) \<longleftrightarrow> fst p \<in> set (t_roots d) \<and> snd p \<in> set (t_route_keys d)
     \<and> rk_key (snd p) \<in> hashes keys \<and> sr_root (fst p) = rk_root (snd p)"
  by (cases p) (auto simp: epoch_rows_def)

lemma current_epoch: "db_ok d \<Longrightarrow> session_route_epoch_is_current ep d \<longleftrightarrow> generation_of d (ep_root ep) = Some (ep_generation ep)"
proof -
  assume ok: "db_ok d"
  let ?P = "\<lambda>s. sr_root s = ep_root ep \<and> sr_generation s = ep_generation ep"
  have dist: "distinct (map sr_root (filter ?P (t_roots d)))"
    using ok by (simp add: db_ok_def keys_ok_def distinct_map_filter)
  have "length (filter ?P (t_roots d)) = card (sr_root ` set (filter ?P (t_roots d)))"
    using distinct_card [OF dist] by simp
  moreover have "sr_root ` set (filter ?P (t_roots d)) = (if \<exists>s \<in> set (t_roots d). ?P s then {ep_root ep} else {})"
    by auto
  moreover have "(\<exists>s \<in> set (t_roots d). ?P s) \<longleftrightarrow> generation_of d (ep_root ep) = Some (ep_generation ep)"
  proof
    show "generation_of d (ep_root ep) = Some (ep_generation ep)" if "\<exists>s \<in> set (t_roots d). ?P s"
    proof -
      from that obtain s where "s \<in> set (t_roots d)" "?P s" ..
      with find_of(1) [OF ok this(1)] show ?thesis by simp
    qed
    show "\<exists>s \<in> set (t_roots d). ?P s" if g: "generation_of d (ep_root ep) = Some (ep_generation ep)"
    proof -
      obtain s where "tbl_find sr_root (ep_root ep) (t_roots d) = Some s" "sr_generation s = ep_generation ep"
        using g by (auto simp: generation_of_def)
      with find_Some_key [OF this(1)] show ?thesis by blast
    qed
  qed
  ultimately show ?thesis by (simp add: session_route_epoch_is_current_def)
qed

text \<open>
  An epoch that was just resolved binds: if some key of the request belongs to a session,
  resolving the keys yields an epoch of one of these sessions at its current generation, and a bind
  of the same keys at once succeeds for any account that exists, unless the keys belong to two
  different sessions.
\<close>

lemma resolved_epoch_binds:
  assumes "db_ok d" "session_ok d" "validate_session_route_keys ks = Inr keys" "h \<in> hashes ks" "root_of d h = Some r"
    and "\<forall>h' \<in> hashes ks. root_of d h' \<in> {None, Some r}" "account_exists aid d"
  shows "\<exists>ep. resolve_session_route_epoch q ks d = Inr (Some ep) \<and> ep_root ep = r
     \<and> generation_of d r = Some (ep_generation ep) \<and> session_route_epoch_is_current ep d
     \<and> fst (bind_affinities_at_epoch q now ks aid (Some ep) d) = Inr True"
proof -
  obtain k where "k \<in> set (t_route_keys d)" "rk_key k = h" "rk_root k = r"
    using assms(5) root_of_row [OF assms(1)] by blast
  moreover from this assms(1) have "r \<in> sr_root ` set (t_roots d)" by (auto simp: db_ok_def foreign_keys_ok_def)
  note v = validate_valid [OF assms(3)]
  obtain s where "s \<in> set (t_roots d)" "sr_root s = r" using \<open>r \<in> sr_root ` set (t_roots d)\<close> by (metis imageE)
  ultimately have "(s, k) \<in> set (epoch_rows keys d)" using assms(4) v by (simp add: epoch_row_in [OF assms(1)])
  then obtain p where p: "first_min (epoch_key q) (epoch_rows keys d) = Some p"
    by (metis first_min_None list.set_cases list.distinct(1) not_None_eq)
  then have "p \<in> set (epoch_rows keys d)" using first_min_Some [OF p] by blast
  then have pr: "fst p \<in> set (t_roots d)" "snd p \<in> set (t_route_keys d)" "rk_key (snd p) \<in> hashes ks" "sr_root (fst p) = rk_root (snd p)"
    using v by (simp_all add: epoch_row_in [OF assms(1)])
  have "sr_root (fst p) = r" using assms(6) pr find_of(3) [OF assms(1) pr(2)] by auto
  moreover have "generation_of d (sr_root (fst p)) = Some (sr_generation (fst p))" using find_of(1) [OF assms(1) pr(1)] .
  moreover have ne: "keys \<noteq> []" using v assms(4) by (auto simp: hashes_def)
  moreover define ep where "ep = \<lparr>ep_root = sr_root (fst p), ep_generation = sr_generation (fst p), ep_selection_key = rk_key (snd p)\<rparr>"
  ultimately have e: "resolve_session_route_epoch q ks d = Inr (Some ep)" "ep_root ep = r" "generation_of d r = Some (ep_generation ep)"
    using p by (simp_all add: resolve_session_route_epoch_def assms(3) case_prod_beta)
  moreover have "fst (bind_affinities_at_epoch q now ks aid (Some ep) d) = Inr True"
    using bind_at_epoch_succeeds [OF assms(1), of ep aid keys q now] e assms(3,6,7) v ne
    by (simp add: bind_affinities_at_epoch_def)
  ultimately show ?thesis using current_epoch [OF assms(1), of ep] by blast
qed

lemma resolved_epoch_binds_witness:
  "\<exists>ep. resolve_session_route_epoch sample_sqlite [sample_key] moved_sample = Inr (Some ep) \<and> ep_generation ep = 1"
proof -
  have "sample_hash \<in> hashes [sample_key]" "account_exists 7 moved_sample"
    "\<forall>h \<in> hashes [sample_key]. root_of moved_sample h \<in> {None, Some sample_hash}"
    using moved_sample_lookups(1)
    by (auto simp: hashes_def sample_key_def account_exists_def moved_sample_tables sample_db_fields imported_row_def)
  then show ?thesis
    using resolved_epoch_binds [OF moved_sample_ok sample_keys_valid, of sample_hash sample_hash 7 sample_sqlite 9]
      moved_sample_lookups by auto
qed

text \<open>
  A bind without an epoch never takes a key from a session a route action has claimed: when it
  succeeds, every key of the request that had a root had the same root, at generation 0 and never
  acted on; all keys end up on one root of generation 0 and on the account; every other key,
  generation and affinity is untouched.
\<close>

lemma unclaimed_bind_safe:
  assumes "db_ok d" "session_ok d" "bind_affinities_at_epoch q now ks aid None d = (Inr True, d')" "ks \<noteq> []"
  shows "\<exists>r. (\<forall>h \<in> hashes ks. root_of d h \<in> {None, Some r})
     \<and> (\<forall>s \<in> set (t_roots d). sr_root s = r \<longrightarrow> sr_generation s = 0 \<and> sr_action s = None)
     \<and> generation_of d' = (generation_of d)(r \<mapsto> 0)
     \<and> (\<forall>h. root_of d' h = (if h \<in> hashes ks then Some r else root_of d h))
     \<and> (\<forall>h \<in> hashes ks. \<exists>f. affinity_of d' h = Some f \<and> af_account f = aid \<and> af_generation f = 0)
     \<and> (\<forall>h. h \<notin> hashes ks \<longrightarrow> affinity_of d' h = affinity_of d h)"
proof (cases rule: bind_affinities_cases [OF assms(3)])
  case 1
  with assms(4) show ?thesis by simp
next
  case (3 keys)
  note v = 3(1-3)
  show ?thesis
  proof (rule bind_without_epoch_facts [OF 3(6) assms(1,2) v(1,3)])
    fix r
    assume share: "\<forall>h \<in> hashes keys. root_of d h = None \<or> root_of d h = Some r"
      and gen: "\<And>x. generation_of d' x = (if x = r then Some 0 else generation_of d x)"
      and g0: "generation_of d r = None \<or> generation_of d r = Some 0"
      and root: "\<And>h. root_of d' h = (if h \<in> hashes keys then Some r else root_of d h)"
      and aff: "\<And>k. k \<in> set keys \<Longrightarrow> \<exists>f. affinity_of d' (key_hash k) = Some f \<and> af_account f = aid \<and> af_generation f = 0"
      and other: "\<And>h. h \<notin> hashes keys \<Longrightarrow> affinity_of d' h = affinity_of d h"
      and act: "\<forall>s \<in> set (t_roots d). sr_root s = r \<longrightarrow> sr_action s = None"
    have zero: "sr_generation s = 0" if "s \<in> set (t_roots d)" "sr_root s = r" for s
      using find_of(1) [OF assms(1) that(1)] that(2) g0 by auto
    have "\<exists>f. affinity_of d' h = Some f \<and> af_account f = aid \<and> af_generation f = 0" if "h \<in> hashes keys" for h
      using that aff by (auto simp: hashes_def)
    moreover have "generation_of d' = (generation_of d)(r \<mapsto> 0)" by (rule ext) (simp add: gen)
    ultimately show ?thesis using share root other act zero v(2) by (intro exI [of _ r]) auto
  qed
qed (use assms(4) in simp_all)

lemma unclaimed_bind_safe_witness:
  "\<exists>d' r. bind_affinities_at_epoch sample_sqlite 6 [sample_key] 7 None sample_db = (Inr True, d')
     \<and> root_of d' sample_hash = Some r \<and> generation_of d' r = Some 0"
proof -
  let ?b = "bind_affinities_at_epoch sample_sqlite 6 [sample_key] 7 None sample_db"
  have b: "bind_without_epoch sample_sqlite 6 [sample_key] 7 sample_db = ?b"
    by (simp add: bind_affinities_at_epoch_def sample_keys_valid)
  have "fst (bind_without_epoch sample_sqlite 6 [sample_key] 7 sample_db) = Inr True"
    by (simp add: bind_without_epoch_def preferred_root_def sample_key_def insert_root_def root_exists_def sample_tables
        mapped_roots_def epoch_rows_def Let_def upsert_key_def upsert_affinity_def tbl_upsert_def affinity_fk_ok_def
        account_exists_def sample_db_fields legacy_affinity_def imported_row_def)
  then obtain d' where d': "?b = (Inr True, d')" unfolding b by (cases ?b) simp
  have "sample_hash \<in> hashes [sample_key]" by (simp add: hashes_def sample_key_def)
  with unclaimed_bind_safe [OF sample_db_ok sample_session_ok d'] d' show ?thesis by auto
qed

section \<open>Pending actions\<close>

text \<open>Every key that is stored passed the validation; the operations keep this.\<close>

definition stored_key_ok :: "route_key_row \<Rightarrow> bool" where
  "stored_key_ok k \<longleftrightarrow> valid_affinity_hash (rk_key k) \<and> valid_kind (rk_kind k)"

abbreviation stored_keys_ok :: "db \<Rightarrow> bool" where
  "stored_keys_ok d \<equiv> \<forall>k \<in> set (t_route_keys d). stored_key_ok k"

lemma upsert_all:
  assumes "\<forall>r \<in> set t. P r" "\<forall>n \<in> set ns. P n" "\<And>old n. P old \<Longrightarrow> P n \<Longrightarrow> P (merge old n)"
  shows "\<forall>r \<in> set (fold (tbl_upsert key merge) ns t). P r"
  using assms(1,2)
proof (induction ns arbitrary: t)
  case (Cons n ns)
  have "\<forall>r \<in> set (tbl_upsert key merge n t). P r"
    using set_upsert [of _ key merge n t] Cons.prems assms(3) by fastforce
  with Cons show ?case by simp
qed simp

lemma stored_merge:
  "stored_key_ok old \<Longrightarrow> stored_key_ok n \<Longrightarrow> stored_key_ok (touch_key old n)"
  "stored_key_ok old \<Longrightarrow> stored_key_ok n \<Longrightarrow> stored_key_ok (claim_key old n)"
  by (simp_all add: stored_key_ok_def touch_key_def claim_key_def)

lemma stored_rows:
  assumes "\<forall>k \<in> set ks. valid_affinity_hash (key_hash k) \<and> valid_kind (key_kind k)"
  shows "\<forall>n \<in> set (map (key_row q now r) ks). stored_key_ok n"
  using assms by (auto simp: stored_key_ok_def)

lemma stored_keys_bind:
  assumes "bind_keys (key_row q now r) merge aff keys d = Inr d'" "stored_keys_ok d" "keys_valid keys"
  shows "stored_keys_ok d'"
proof -
  have "t_route_keys d' = fold (tbl_upsert rk_key touch_key) (map (key_row q now r) keys) (t_route_keys d)"
    by (simp add: bind_keys_Inr [OF assms(1), THEN conjunct1])
  moreover have "\<forall>n \<in> set (map (key_row q now r) keys). stored_key_ok n"
    using assms(3) by (intro stored_rows) (simp add: keys_valid_def)
  ultimately show ?thesis
    using upsert_all [OF assms(2), of _ touch_key] stored_merge(1) by metis
qed

lemma stored_keys_commit:
  assumes "plan_action q s st iv canon input target live existed d = Inr p" "plan_ready canon p d" "keys_valid input" "stored_keys_ok d"
  shows "stored_keys_ok (commit_action q now canon act p d)"
proof -
  have dist: "distinct (map key_hash input)" using assms(3) by (simp add: keys_valid_def)
  have ok: "db_ok d" using assms(2) by (simp add: plan_ready_def)
  have "\<forall>k \<in> set (pl_keys p). valid_affinity_hash (key_hash k) \<and> valid_kind (key_kind k)"
    using assms(3,4) unfolding plan_facts(2) [OF assms(1) ok dist] set_merge_keys
    by (auto simp: keys_valid_def existing_keys_set plain_key_def stored_key_ok_def)
  note rows = stored_rows [OF this]
  have "t_route_keys (commit_action q now canon act p d)
      = fold (tbl_upsert rk_key claim_key) (map (key_row q now canon) (pl_keys p)) (t_route_keys d)"
    unfolding commit_action_alt record_action_def
    by (simp add: moved_fields(1) [OF assms(2)] mapped_db_def map_keys_def upsert_key_fold)
  then show ?thesis
    using upsert_all [OF assms(4) rows stored_merge(2)] by simp
qed

lemma stored_keys_step:
  assumes "db_ok d" "session_ok d" "stored_keys_ok d"
  shows "stored_keys_ok (session_step q act d)"
proof (cases act)
  case (ApplyAction sel now st iv req live)
  obtain res d' where a: "apply_session_route_action q sel now st iv req live d = (res, d')" by fastforce
  show ?thesis
  proof (cases rule: apply_cases [OF a assms(1)])
    case 1
    with ApplyAction a assms(3) show ?thesis by simp
  next
    case (2 p d1 input target existed)
    have "stored_keys_ok d1" using 2(3) assms(3) by (simp add: insert_root_def)
    with stored_keys_commit [OF 2(10,5,7)] 2(6) ApplyAction a show ?thesis by simp
  qed
next
  case (BindKeys now ks aid epoch)
  obtain res d' where b: "bind_affinities_at_epoch q now ks aid epoch d = (res, d')" by fastforce
  have "stored_keys_ok d'"
  proof (cases rule: bind_affinities_cases [OF b])
    case 1
    with assms(3) show ?thesis by simp
  next
    case (2 keys ep)
    then obtain s d1 where "bind_keys (key_row q now (ep_root ep)) take_affinity_if_newer
        (\<lambda>k. new_affinity q now k aid (ep_generation ep)) keys d = Inr d1" "d' = follow_bound_account q now ep s aid d1"
      by (cases rule: bind_at_epoch_cases [OF 2(6)]) auto
    with stored_keys_bind [OF this(1) assms(3) 2(1)] show ?thesis
      by (simp add: follow_bound_account_def Let_def)
  next
    case (3 keys)
    from bind_without_epoch_cases [OF 3(6) assms(1,2) 3(3)]
    obtain r d2 where "d2 = d \<or> d2 = snd (insert_root q now r d)"
      "bind_keys (key_row q now r) (merge_legacy q now) (\<lambda>k. legacy_affinity q now k aid) keys d2 = Inr d'"
      by metis
    moreover from this(1) assms(3) have "stored_keys_ok d2" by (auto simp: insert_root_def split: if_splits)
    ultimately show ?thesis using stored_keys_bind 3(1) by blast
  qed
  with BindKeys b show ?thesis by simp
qed

lemma stored_keys_run:
  "db_ok d \<Longrightarrow> session_ok d \<Longrightarrow> stored_keys_ok d \<Longrightarrow> stored_keys_ok (fold (session_step q) acts d)"
proof (induction acts arbitrary: d)
  case (Cons a acts)
  from session_step_ok [OF Cons.prems(1,2), of q a] have "db_ok (session_step q a d)" "session_ok (session_step q a d)" by auto
  with Cons.IH stored_keys_step [OF Cons.prems] show ?case by simp
qed simp

lemma collect_in:
  "collect f xs = Inr ys \<Longrightarrow> y \<in> set ys \<Longrightarrow> \<exists>x \<in> set xs. f x = Inr y"
  by (induction xs arbitrary: ys) auto

lemma pending_keys:
  assumes "list_pending_session_route_actions q d limit = Inr reqs" "req \<in> set reqs"
  obtains s where "s \<in> set (t_roots d)" "req_root req = sr_root s" "\<not> req_dry_run req"
    "req_keys req = map plain_key (sort_key rk_key (filter (\<lambda>k. rk_root k = sr_root s) (t_route_keys d)))"
proof -
  obtain s where "s \<in> set (t_roots d)" "pending_request q d s = Inr req"
    using collect_in [OF assms(1) [unfolded list_pending_session_route_actions_def] assms(2)]
    by (auto dest!: in_set_takeD)
  with that show thesis by (auto simp: pending_request_def)
qed


text \<open>A pool whose only account is paused, so that an action stays pending.\<close>

definition paused_db :: db where
  "paused_db = moved_sample\<lparr>t_accounts := map (\<lambda>a. a\<lparr>acc_status := ''paused''\<rparr>) (t_accounts moved_sample),
     t_roots := map (\<lambda>s. s\<lparr>sr_status := Some ''pending''\<rparr>) (t_roots moved_sample)\<rparr>"


end
