(* ===== verification/Request_Log.thy ===== *)
theory Request_Log
  imports Routing
begin

text \<open>
  The request log and its totals (\<open>src/db.rs\<close>): every request is written with its cost estimate and
  counted in its account's runtime row, in one transaction; logs written before costs existed are
  priced by the backfill, in batches, and added to the totals then.
\<close>

section \<open>Writing a log\<close>

record new_request_log =
  nl_request_id :: string
  nl_account :: "uuid option"
  nl_model :: "string option"
  nl_status :: string
  nl_selection_reason :: "selection_reason option"
  nl_error_code :: "string option"
  nl_error_message :: "string option"
  nl_usage :: usage_data
  nl_latency_ms :: "int option"

definition cost_model :: "usage_data \<Rightarrow> string option \<Rightarrow> string option" where
  "cost_model usage model = or_else (effective_model usage) model"

definition flag :: "bool \<Rightarrow> int" where
  "flag b = (if b then 1 else 0)"

definition new_log_row :: "sqlite \<Rightarrow> instant \<Rightarrow> int \<Rightarrow> new_request_log \<Rightarrow> api_cost_estimate \<Rightarrow> log_row" where
  "new_log_row q now row_id e cost =
     (let u = nl_usage e
      in \<lparr>log_id = row_id, log_request_id = nl_request_id e, log_account = nl_account e, log_model = nl_model e,
          log_status = nl_status e, log_selection_reason = map_option selection_reason_str (nl_selection_reason e),
          log_error_code = nl_error_code e, log_error_message = nl_error_message e,
          log_input = input_tokens u, log_output = output_tokens u, log_cached = cached_input_tokens u,
          log_cache_write = cache_write_input_tokens u, log_reasoning = reasoning_tokens u,
          log_effective_model = effective_model u, log_effective_tier = effective_service_tier u,
          log_pricing_version = Some pricing_version, log_cost_status = Some (cost_status_str (cost_status cost)),
          log_cost_lower = lower_nano_usd cost, log_cost_upper = upper_nano_usd cost,
          log_latency_ms = nl_latency_ms e, log_created_at = now_text q now\<rparr>)"

definition count_request ::
  "sqlite \<Rightarrow> instant \<Rightarrow> new_request_log \<Rightarrow> api_cost_estimate \<Rightarrow> runtime_row \<Rightarrow> runtime_row" where
  "count_request q now e cost r =
     (let u = nl_usage e
      in r\<lparr>rt_requests := rt_requests r + 1,
           rt_successful := rt_successful r + flag (nl_status e = ''success''),
           rt_failed := rt_failed r + flag (nl_status e \<noteq> ''success''),
           rt_input := rt_input r + or_default (input_tokens u) 0,
           rt_output := rt_output r + or_default (output_tokens u) 0,
           rt_cached := rt_cached r + or_default (map_option (max 0) (cached_input_tokens u)) 0,
           rt_cache_write := rt_cache_write r + or_default (map_option (max 0) (cache_write_input_tokens u)) 0,
           rt_cost_lower := rt_cost_lower r + or_default (lower_nano_usd cost) 0,
           rt_cost_upper := rt_cost_upper r + or_default (upper_nano_usd cost) 0,
           rt_complete := rt_complete r + flag (cost_status cost = Complete),
           rt_partial := rt_partial r + flag (cost_status cost = MissingCacheWrite),
           rt_unpriced := rt_unpriced r + flag (\<not> is_priced (cost_status cost)),
           rt_updated_at := now_text q now\<rparr>)"

definition insert_request_log :: "sqlite \<Rightarrow> instant \<Rightarrow> new_request_log \<Rightarrow> db \<Rightarrow> unit app_result \<times> db" where
  "insert_request_log q now e d =
     (let cost = estimate_standard_api_cost (cost_model (nl_usage e) (nl_model e)) (nl_usage e);
          row_id = seq_logs d + 1
      in case nl_account e of
           Some aid \<Rightarrow>
             (if \<not> account_exists aid d then (Inl fk_error, d)
              else (Inr (), update_runtime aid (count_request q now e cost)
                     (d\<lparr>t_logs := t_logs d @ [new_log_row q now row_id e cost], seq_logs := row_id\<rparr>)))
         | None \<Rightarrow> (Inr (), d\<lparr>t_logs := t_logs d @ [new_log_row q now row_id e cost], seq_logs := row_id\<rparr>))"

record logs_query =
  lq_limit :: "int option"
  lq_offset :: "int option"

definition list_request_logs :: "logs_query \<Rightarrow> db \<Rightarrow> log_row list" where
  "list_request_logs query d =
     (let limit = clamp 1 500 (or_default (lq_limit query) 100);
          offset = max 0 (or_default (lq_offset query) 0)
      in take (nat limit) (drop (nat offset) (rev (sort_key (\<lambda>l. (log_created_at l, log_id l)) (t_logs d)))))"

record usage_summary =
  us_accounts :: nat
  us_active :: nat
  us_requests :: int
  us_successful :: int
  us_failed :: int
  us_input :: int
  us_output :: int

definition usage_summary_of :: "db \<Rightarrow> usage_summary" where
  "usage_summary_of d =
     \<lparr>us_accounts = length (t_accounts d),
      us_active = length (filter (\<lambda>a. acc_status a = ''active'') (t_accounts d)),
      us_requests = sum_list (map rt_requests (t_runtime d)),
      us_successful = sum_list (map rt_successful (t_runtime d)),
      us_failed = sum_list (map rt_failed (t_runtime d)),
      us_input = sum_list (map rt_input (t_runtime d)), us_output = sum_list (map rt_output (t_runtime d))\<rparr>"

section \<open>The backfill\<close>

definition backfill_batch_size :: int where
  "backfill_batch_size = 500"

record backfill_batch =
  bf_selected :: nat
  bf_updated :: nat

record pending_row =
  pd_id :: int
  pd_account :: "uuid option"
  pd_model :: "string option"
  pd_usage :: usage_data

definition pending_of :: "log_row \<Rightarrow> pending_row" where
  "pending_of l = \<lparr>pd_id = log_id l, pd_account = log_account l, pd_model = log_model l,
     pd_usage = \<lparr>input_tokens = log_input l, output_tokens = log_output l, cached_input_tokens = log_cached l,
       cache_write_input_tokens = log_cache_write l, reasoning_tokens = log_reasoning l,
       effective_model = log_effective_model l, effective_service_tier = log_effective_tier l\<rparr>\<rparr>"

definition pending_rows :: "int \<Rightarrow> db \<Rightarrow> pending_row list" where
  "pending_rows batch_size d =
     map pending_of (take (nat (clamp 1 backfill_batch_size batch_size))
       (sort_key log_id (filter (\<lambda>l. log_cost_status l = None) (t_logs d))))"

record cost_delta =
  dl_cached :: int
  dl_cache_write :: int
  dl_lower :: int
  dl_upper :: int
  dl_complete :: int
  dl_partial :: int

definition delta_default :: cost_delta where
  "delta_default = \<lparr>dl_cached = 0, dl_cache_write = 0, dl_lower = 0, dl_upper = 0, dl_complete = 0, dl_partial = 0\<rparr>"

definition checked_accumulate :: "int \<Rightarrow> int \<Rightarrow> int app_result" where
  "checked_accumulate tot v =
     ok_or (checked_add tot v) (Internal ''API cost backfill aggregate overflowed'')"

definition delta_add :: "pending_row \<Rightarrow> api_cost_estimate \<Rightarrow> cost_delta \<Rightarrow> cost_delta app_result" where
  "delta_add row est dl =
     app_bind (checked_accumulate (dl_cached dl) (max 0 (or_default (cached_input_tokens (pd_usage row)) 0))) (\<lambda>cached.
     app_bind (checked_accumulate (dl_cache_write dl) (max 0 (or_default (cache_write_input_tokens (pd_usage row)) 0))) (\<lambda>written.
     app_bind (checked_accumulate (dl_lower dl) (or_default (lower_nano_usd est) 0)) (\<lambda>lower.
     app_bind (checked_accumulate (dl_upper dl) (or_default (upper_nano_usd est) 0)) (\<lambda>upper.
     app_bind (checked_accumulate (dl_complete dl) (flag (cost_status est = Complete))) (\<lambda>complete.
     app_bind (checked_accumulate (dl_partial dl) (flag (cost_status est = MissingCacheWrite))) (\<lambda>partly.
     Inr \<lparr>dl_cached = cached, dl_cache_write = written, dl_lower = lower, dl_upper = upper,
          dl_complete = complete, dl_partial = partly\<rparr>))))))"

definition pending_estimate :: "pending_row \<Rightarrow> api_cost_estimate" where
  "pending_estimate row = estimate_standard_api_cost (cost_model (pd_usage row) (pd_model row)) (pd_usage row)"

definition log_pending :: "int \<Rightarrow> log_row \<Rightarrow> bool" where
  "log_pending row_id l \<longleftrightarrow> log_id l = row_id \<and> log_cost_status l = None"

definition price_log :: "api_cost_estimate \<Rightarrow> log_row \<Rightarrow> log_row" where
  "price_log est l = l\<lparr>log_pricing_version := Some pricing_version,
     log_cost_status := Some (cost_status_str (cost_status est)),
     log_cost_lower := lower_nano_usd est, log_cost_upper := upper_nano_usd est\<rparr>"

text \<open>The map of deltas by account, as a table with one row per account.\<close>

definition delta_of :: "uuid \<Rightarrow> (uuid \<times> cost_delta) list \<Rightarrow> cost_delta" where
  "delta_of aid ds = (case tbl_find fst aid ds of None \<Rightarrow> delta_default | Some x \<Rightarrow> snd x)"

definition set_delta :: "uuid \<Rightarrow> cost_delta \<Rightarrow> (uuid \<times> cost_delta) list \<Rightarrow> (uuid \<times> cost_delta) list" where
  "set_delta aid dl ds = tbl_upsert fst (\<lambda>_ new. new) (aid, dl) ds"

fun backfill_rows ::
  "pending_row list \<Rightarrow> log_row list \<Rightarrow> (uuid \<times> cost_delta) list \<Rightarrow> nat
     \<Rightarrow> (log_row list \<times> (uuid \<times> cost_delta) list \<times> nat) app_result" where
  "backfill_rows [] logs ds updated = Inr (logs, ds, updated)"
| "backfill_rows (row # rows) logs ds updated =
     (let est = pending_estimate row;
          logs' = tbl_update (log_pending (pd_id row)) (price_log est) logs
      in if length (filter (log_pending (pd_id row)) logs) \<noteq> 1 then backfill_rows rows logs' ds updated
         else case pd_account row of
             None \<Rightarrow> backfill_rows rows logs' ds (updated + 1)
           | Some aid \<Rightarrow> (case delta_add row est (delta_of aid ds) of
               Inl e \<Rightarrow> Inl e
             | Inr dl \<Rightarrow> backfill_rows rows logs' (set_delta aid dl ds) (updated + 1)))"

definition add_delta :: "cost_delta \<Rightarrow> runtime_row \<Rightarrow> runtime_row" where
  "add_delta dl r = r\<lparr>rt_cached := rt_cached r + dl_cached dl,
     rt_cache_write := rt_cache_write r + dl_cache_write dl,
     rt_cost_lower := rt_cost_lower r + dl_lower dl, rt_cost_upper := rt_cost_upper r + dl_upper dl,
     rt_complete := rt_complete r + dl_complete dl, rt_partial := rt_partial r + dl_partial dl,
     rt_unpriced := max 0 (rt_requests r - (rt_complete r + dl_complete dl) - (rt_partial r + dl_partial dl))\<rparr>"

definition add_deltas :: "(uuid \<times> cost_delta) list \<Rightarrow> db \<Rightarrow> db" where
  "add_deltas ds d = fold (\<lambda>(aid, dl). update_runtime aid (add_delta dl)) ds d"

text \<open>The rows were read before the transaction: \<open>backfill_commit\<close> takes them as they were read.\<close>

definition backfill_commit :: "pending_row list \<Rightarrow> db \<Rightarrow> backfill_batch app_result \<times> db" where
  "backfill_commit rows d =
     (if rows = [] then (Inr \<lparr>bf_selected = 0, bf_updated = 0\<rparr>, d)
      else case backfill_rows rows (t_logs d) [] 0 of
        Inl e \<Rightarrow> (Inl e, d)
      | Inr (logs, ds, updated) \<Rightarrow>
          (Inr \<lparr>bf_selected = length rows, bf_updated = updated\<rparr>, add_deltas ds (d\<lparr>t_logs := logs\<rparr>)))"

definition backfill_api_costs_batch :: "int \<Rightarrow> db \<Rightarrow> backfill_batch app_result \<times> db" where
  "backfill_api_costs_batch batch_size d = backfill_commit (pending_rows batch_size d) d"

section \<open>Termination of the backfill\<close>

definition pending_total :: "db \<Rightarrow> nat" where
  "pending_total d = length (filter (\<lambda>l. log_cost_status l = None) (t_logs d))"

lemma price_log_fields [simp]:
  "log_id (price_log est l) = log_id l" "log_account (price_log est l) = log_account l"
  "log_cost_status (price_log est l) = Some (cost_status_str (cost_status est))"
  "log_cost_lower (price_log est l) = lower_nano_usd est" "log_cost_upper (price_log est l) = upper_nano_usd est"
  "pending_of (price_log est l) = pending_of l" "log_pricing_version (price_log est l) = Some pricing_version"
  by (simp_all add: price_log_def pending_of_def)

lemma update_pending_le:
  "length (filter (\<lambda>l. log_cost_status l = None) (tbl_update (log_pending i) (price_log est) logs))
     \<le> length (filter (\<lambda>l. log_cost_status l = None) logs)"
  by (induction logs) (auto simp: tbl_update_def log_pending_def)

lemma update_pending_less:
  assumes "l \<in> set logs" "log_pending i l"
  shows "length (filter (\<lambda>l. log_cost_status l = None) (tbl_update (log_pending i) (price_log est) logs))
     < length (filter (\<lambda>l. log_cost_status l = None) logs)"
  using assms
proof (induction logs)
  case (Cons x logs)
  show ?case
  proof (cases "log_pending i x")
    case True
    then show ?thesis
      using update_pending_le [of i est logs] by (auto simp: tbl_update_def log_pending_def)
  next
    case False
    with Cons show ?thesis by (auto simp: tbl_update_def)
  qed
qed simp

lemma backfill_rows_le:
  "backfill_rows rows logs ds n = Inr (logs', ds', n')
   \<Longrightarrow> length (filter (\<lambda>l. log_cost_status l = None) logs') \<le> length (filter (\<lambda>l. log_cost_status l = None) logs)"
proof (induction rows arbitrary: logs ds n)
  case (Cons row rows)
  note le = update_pending_le [of "pd_id row" "pending_estimate row" logs]
  from Cons.prems Cons.IH le show ?case
    by (fastforce simp: Let_def split: if_splits option.splits sum.splits)
qed simp

lemma add_deltas_fields [simp]:
  "t_logs (add_deltas ds d) = t_logs d" "t_accounts (add_deltas ds d) = t_accounts d"
  "seq_logs (add_deltas ds d) = seq_logs d"
  unfolding add_deltas_def by (induction ds arbitrary: d) auto

lemma pending_row_in:
  assumes "row \<in> set (pending_rows n d)"
  shows "\<exists>l \<in> set (t_logs d). log_pending (pd_id row) l \<and> row = pending_of l"
  using assms by (auto simp: pending_rows_def log_pending_def pending_of_def dest!: in_set_takeD)

lemma batch_decreases:
  assumes "backfill_api_costs_batch n d = (Inr b, d')" "bf_selected b \<noteq> 0"
  shows "pending_total d' < pending_total d"
proof -
  obtain row rows where r: "pending_rows n d = row # rows"
    using assms by (cases "pending_rows n d") (auto simp: backfill_api_costs_batch_def backfill_commit_def)
  obtain logs ds u where bf: "backfill_rows (row # rows) (t_logs d) [] 0 = Inr (logs, ds, u)"
    and d': "d' = add_deltas ds (d\<lparr>t_logs := logs\<rparr>)"
    using assms(1) r by (auto simp: backfill_api_costs_batch_def backfill_commit_def split: sum.splits)
  obtain l where l: "l \<in> set (t_logs d)" "log_pending (pd_id row) l"
    using pending_row_in [of row n d] r by auto
  let ?logs1 = "tbl_update (log_pending (pd_id row)) (price_log (pending_estimate row)) (t_logs d)"
  have "\<exists>ds1 u1. backfill_rows rows ?logs1 ds1 u1 = Inr (logs, ds, u)"
    using bf by (auto simp: Let_def split: if_splits option.splits sum.splits)
  with backfill_rows_le have "length (filter (\<lambda>l. log_cost_status l = None) logs)
      \<le> length (filter (\<lambda>l. log_cost_status l = None) ?logs1)" by blast
  with update_pending_less [OF l, of "pending_estimate row"] show ?thesis
    by (simp add: pending_total_def d')
qed

function backfill_loop :: "nat \<Rightarrow> db \<Rightarrow> nat app_result \<times> db" where
  "backfill_loop tot d =
     (case backfill_api_costs_batch backfill_batch_size d of
        (Inl e, d') \<Rightarrow> (Inl e, d')
      | (Inr b, d') \<Rightarrow>
          if bf_selected b = 0 then (Inr tot, d')
          else if tot + bf_updated b \<ge> 2 ^ 64 then (Inl (Internal ''API cost backfill count overflowed''), d')
          else backfill_loop (tot + bf_updated b) d')"
  by pat_completeness auto

termination backfill_loop
  by (relation "measure (\<lambda>(tot, d). pending_total d)") (auto intro: batch_decreases [OF sym])

declare backfill_loop.simps [simp del]

definition backfill_api_costs :: "db \<Rightarrow> nat app_result \<times> db" where
  "backfill_api_costs d = backfill_loop 0 d"

section \<open>What a batch does\<close>

lemma other_pending:
  "i \<noteq> j \<Longrightarrow> filter (log_pending i) (tbl_update (log_pending j) (price_log est) logs) = filter (log_pending i) logs"
  by (induction logs) (auto simp: tbl_update_def log_pending_def)

abbreviation price_row :: "pending_row \<Rightarrow> log_row list \<Rightarrow> log_row list" where
  "price_row row logs \<equiv> tbl_update (log_pending (pd_id row)) (price_log (pending_estimate row)) logs"

text \<open>Each row read names exactly one log that is still pending.\<close>

definition rows_fresh :: "pending_row list \<Rightarrow> log_row list \<Rightarrow> bool" where
  "rows_fresh rows logs \<longleftrightarrow> distinct (map pd_id rows)
     \<and> (\<forall>row \<in> set rows. length (filter (log_pending (pd_id row)) logs) = 1
          \<and> (\<forall>l \<in> set logs. log_pending (pd_id row) l \<longrightarrow> row = pending_of l))"

lemma rows_fresh_step:
  assumes "rows_fresh (row # rows) logs"
  shows "rows_fresh rows (price_row row logs)"
proof -
  have ne: "pd_id x \<noteq> pd_id row" if "x \<in> set rows" for x
    using assms that by (auto simp: rows_fresh_def)
  have "x = pending_of l" if "x \<in> set rows" "l \<in> set (price_row row logs)" "log_pending (pd_id x) l" for x l
  proof -
    have "l \<in> set (filter (log_pending (pd_id x)) (price_row row logs))" using that by simp
    then have "l \<in> set logs" unfolding other_pending [OF ne [OF that(1)]] by simp
    with that assms show ?thesis by (auto simp: rows_fresh_def)
  qed
  then show ?thesis using assms ne by (auto simp: rows_fresh_def other_pending)
qed

lemma backfill_step:
  assumes "backfill_rows (row # rows) logs ds n = Inr res" "rows_fresh (row # rows) logs"
  obtains (unowned) "pd_account row = None" "backfill_rows rows (price_row row logs) ds (n + 1) = Inr res"
    | (owned) a dl where "pd_account row = Some a" "delta_add row (pending_estimate row) (delta_of a ds) = Inr dl"
      "backfill_rows rows (price_row row logs) (set_delta a dl ds) (n + 1) = Inr res"
proof -
  have "length (filter (log_pending (pd_id row)) logs) = 1" using assms(2) by (simp add: rows_fresh_def)
  with assms(1) that show thesis by (cases "pd_account row") (auto simp: Let_def split: sum.splits)
qed

interpretation delta_table: keyed_table "fst :: uuid \<times> cost_delta \<Rightarrow> uuid" "\<lambda>_ new. new"
  by unfold_locales (rule refl)

lemma delta_of_set: "delta_of aid (set_delta a dl ds) = (if aid = a then dl else delta_of aid ds)"
  using delta_table.find_upsert [of aid "(a, dl)" ds] by (auto simp: delta_of_def set_delta_def split: option.splits)

lemma backfill_rows_deltas:
  assumes "\<And>row dl dl'. delta_add row (pending_estimate row) dl = Inr dl' \<Longrightarrow> g dl' = g dl + (f row :: int)"
    and "backfill_rows rows logs ds n = Inr (logs', ds', n')" "rows_fresh rows logs"
  shows "g (delta_of aid ds') = g (delta_of aid ds) + sum_list (map f (filter (\<lambda>row. pd_account row = Some aid) rows))"
  using assms(2,3)
proof (induction rows arbitrary: logs ds n)
  case (Cons row rows)
  note IH = Cons.IH [OF _ rows_fresh_step [OF Cons.prems(2)]]
  show ?case
  proof (cases rule: backfill_step [OF Cons.prems])
    case 1
    with IH [OF 1(2)] show ?thesis by simp
  next
    case (2 a dl)
    with IH [OF 2(3)] assms(1) [OF 2(2)] show ?thesis by (auto simp: delta_of_set)
  qed
qed simp

lemma backfill_rows_logs:
  assumes "backfill_rows rows logs ds n = Inr (logs', ds', n')" "rows_fresh rows logs"
  shows "logs' = map (\<lambda>l. if log_cost_status l = None \<and> log_id l \<in> pd_id ` set rows
              then price_log (pending_estimate (pending_of l)) l else l) logs \<and> n' = n + length rows"
  using assms
proof (induction rows arbitrary: logs ds n)
  case (Cons row rows)
  note IH = Cons.IH [OF _ rows_fresh_step [OF Cons.prems(2)]]
  let ?f = "\<lambda>rows l. if log_cost_status l = None \<and> log_id l \<in> pd_id ` set rows
              then price_log (pending_estimate (pending_of l)) l else l"
  have "?f rows (if log_pending (pd_id row) l then price_log (pending_estimate row) l else l) = ?f (row # rows) l"
    if "l \<in> set logs" for l
  proof (cases "log_pending (pd_id row) l")
    case True
    with Cons.prems(2) that have "row = pending_of l" by (auto simp: rows_fresh_def)
    with True show ?thesis by (auto simp: log_pending_def)
  qed (auto simp: log_pending_def)
  then have "map (?f rows) (price_row row logs) = map (?f (row # rows)) logs"
    by (auto simp: tbl_update_def)
  moreover obtain ds1 where "backfill_rows rows (price_row row logs) ds1 (n + 1) = Inr (logs', ds', n')"
    by (cases rule: backfill_step [OF Cons.prems]) auto
  note IH [OF this]
  ultimately show ?case by simp
qed simp

lemma backfill_rows_accounts:
  assumes "backfill_rows rows logs ds n = Inr (logs', ds', n')" "rows_fresh rows logs" "distinct (map fst ds)"
  shows "distinct (map fst ds') \<and> fst ` set ds' = fst ` set ds \<union> {a. \<exists>row \<in> set rows. pd_account row = Some a}"
  using assms
proof (induction rows arbitrary: logs ds n)
  case (Cons row rows)
  note IH = Cons.IH [OF _ rows_fresh_step [OF Cons.prems(2)]]
  show ?case
  proof (cases rule: backfill_step [OF Cons.prems(1,2)])
    case 1
    with IH [OF 1(2) Cons.prems(3)] show ?thesis by auto
  next
    case (2 a dl)
    have "distinct (map fst (set_delta a dl ds))"
      unfolding set_delta_def by (rule delta_table.distinct_upsert [OF Cons.prems(3)])
    moreover have "fst ` set (set_delta a dl ds) = insert a (fst ` set ds)"
      using arg_cong [OF delta_table.keys_upsert [of "(a, dl)" ds], of set] by (auto simp: set_delta_def)
    ultimately show ?thesis using IH [OF 2(3)] 2(1) by auto
  qed
qed simp

lemma add_deltas_rows:
  assumes "distinct (map fst ds)"
  shows "t_runtime (add_deltas ds d)
     = map (\<lambda>r. if rt_account r \<in> fst ` set ds then add_delta (delta_of (rt_account r) ds) r else r) (t_runtime d)"
  using assms
proof (induction ds arbitrary: d)
  case (Cons x ds)
  obtain a dl where x: "x = (a, dl)" by fastforce
  with Cons.prems have a: "a \<notin> fst ` set ds" by auto
  have acc: "rt_account (add_delta dl r) = rt_account r" for r by (simp add: add_delta_def)
  have "delta_of b (x # ds) = (if b = a then dl else delta_of b ds)" for b
    by (simp add: delta_of_def x)
  moreover have "add_deltas (x # ds) d = add_deltas ds (update_runtime a (add_delta dl) d)"
    by (simp add: add_deltas_def x)
  ultimately show ?case
    using Cons.IH [of "update_runtime a (add_delta dl) d"] Cons.prems a x
    by (auto simp: tbl_update_def acc)
qed (simp add: add_deltas_def)

section \<open>The invariant of the log and its totals\<close>

text \<open>Log ids are unique and given out in order; a pending log has no cost, any other has the cost
  the estimate gives for its own counters.\<close>

definition log_cost_ok :: "log_row \<Rightarrow> bool" where
  "log_cost_ok l \<longleftrightarrow>
     (if log_cost_status l = None then log_cost_lower l = None \<and> log_cost_upper l = None
      else log_cost_status l = Some (cost_status_str (cost_status (pending_estimate (pending_of l))))
        \<and> log_cost_lower l = lower_nano_usd (pending_estimate (pending_of l))
        \<and> log_cost_upper l = upper_nano_usd (pending_estimate (pending_of l)))"

definition logs_ok :: "db \<Rightarrow> bool" where
  "logs_ok d \<longleftrightarrow> distinct (map log_id (t_logs d)) \<and> (\<forall>l \<in> set (t_logs d). log_id l \<le> seq_logs d \<and> log_cost_ok l)"

text \<open>Of an account: how many of its logs are pending, and what its logs cost.\<close>

definition pending_count :: "uuid \<Rightarrow> log_row list \<Rightarrow> int" where
  "pending_count aid logs = sum_list (map (\<lambda>l. flag (log_account l = Some aid \<and> log_cost_status l = None)) logs)"

definition billed :: "(log_row \<Rightarrow> int option) \<Rightarrow> uuid \<Rightarrow> log_row list \<Rightarrow> int" where
  "billed f aid logs = sum_list (map (\<lambda>l. if log_account l = Some aid then or_default (f l) 0 else 0) logs)"

definition metrics_row :: "log_row list \<Rightarrow> runtime_row \<Rightarrow> bool" where
  "metrics_row logs r \<longleftrightarrow>
     rt_complete r + rt_partial r + rt_unpriced r = rt_requests r
     \<and> rt_successful r + rt_failed r = rt_requests r
     \<and> 0 \<le> rt_successful r \<and> 0 \<le> rt_failed r \<and> 0 \<le> rt_complete r \<and> 0 \<le> rt_partial r
     \<and> pending_count (rt_account r) logs \<le> rt_unpriced r
     \<and> 0 \<le> rt_cost_lower r \<and> rt_cost_lower r \<le> rt_cost_upper r"

definition metrics_ok :: "db \<Rightarrow> bool" where
  "metrics_ok d \<longleftrightarrow> logs_ok d \<and> (\<forall>r \<in> set (t_runtime d). metrics_row (t_logs d) r)"

text \<open>The estimate of a request, in the three forms it is recorded.\<close>

lemma estimate_flags:
  fixes m u
  defines "e \<equiv> estimate_standard_api_cost m u"
  shows "flag (cost_status e = Complete) + flag (cost_status e = MissingCacheWrite) + flag (\<not> is_priced (cost_status e)) = 1"
    and "0 \<le> or_default (lower_nano_usd e) 0" and "or_default (lower_nano_usd e) 0 \<le> or_default (upper_nano_usd e) 0"
  unfolding e_def by (cases rule: estimate_cases [of m u];
      (auto simp: flag_def priced_def unpriced_def or_default_def elim!: is_priced.elims))+

lemma flag_bounds: "0 \<le> flag b" "flag b \<le> 1"
  by (simp_all add: flag_def)

lemma pending_count_nonneg: "0 \<le> pending_count aid logs"
  unfolding pending_count_def by (rule sum_list_nonneg) (auto simp: flag_def)

section \<open>Writing keeps it\<close>

lemma new_log_row_fields [simp]:
  "log_id (new_log_row q now i e cost) = i" "log_account (new_log_row q now i e cost) = nl_account e"
  "log_cost_status (new_log_row q now i e cost) = Some (cost_status_str (cost_status cost))"
  "log_cost_lower (new_log_row q now i e cost) = lower_nano_usd cost"
  "log_cost_upper (new_log_row q now i e cost) = upper_nano_usd cost"
  "pending_estimate (pending_of (new_log_row q now i e cost))
     = estimate_standard_api_cost (cost_model (nl_usage e) (nl_model e)) (nl_usage e)"
  by (cases "nl_usage e"; simp add: new_log_row_def Let_def pending_of_def pending_estimate_def)+

lemma count_request_account [simp]: "rt_account (count_request q now e cost r) = rt_account r"
  by (simp add: count_request_def Let_def)

lemma insert_log_cases:
  assumes "insert_request_log q now e d = (res, d')"
  obtains (refused) "res = Inl fk_error" "d' = d" "\<exists>aid. nl_account e = Some aid \<and> \<not> account_exists aid d"
  | (written) cost where "res = Inr ()" "opt_in (nl_account e) (account_ids d)"
      "cost = estimate_standard_api_cost (cost_model (nl_usage e) (nl_model e)) (nl_usage e)"
      "t_logs d' = t_logs d @ [new_log_row q now (seq_logs d + 1) e cost]" "seq_logs d' = seq_logs d + 1"
      "t_runtime d' = map (\<lambda>r. if nl_account e = Some (rt_account r) then count_request q now e cost r else r) (t_runtime d)"
      "d' = d\<lparr>t_logs := t_logs d', seq_logs := seq_logs d', t_runtime := t_runtime d'\<rparr>"
proof -
  let ?cost = "estimate_standard_api_cost (cost_model (nl_usage e) (nl_model e)) (nl_usage e)"
  show thesis
  proof (cases "opt_in (nl_account e) (account_ids d)")
    case True
    with assms show thesis
      by (intro written [of ?cost]; cases "nl_account e")
        (auto simp: insert_request_log_def Let_def account_exists_iff tbl_update_def)
  next
    case False
    with assms show thesis
      by (intro refused; cases "nl_account e") (auto simp: insert_request_log_def Let_def account_exists_iff)
  qed
qed

lemma insert_log_metrics:
  assumes "metrics_ok d"
  shows "metrics_ok (snd (insert_request_log q now e d))"
proof -
  obtain res d' where i: "insert_request_log q now e d = (res, d')" by fastforce
  show ?thesis
  proof (cases rule: insert_log_cases [OF i])
    case 1
    with i assms show ?thesis by simp
  next
    case (2 cost)
    have ids: "log_id l \<le> seq_logs d" if "l \<in> set (t_logs d)" for l
      using assms that by (auto simp: metrics_ok_def logs_ok_def)
    then have new: "seq_logs d + 1 \<notin> log_id ` set (t_logs d)" by fastforce
    have "log_id l \<le> seq_logs d + 1" if "l \<in> set (t_logs d)" for l
      using ids [OF that] by simp
    moreover have "log_cost_ok (new_log_row q now (seq_logs d + 1) e cost)" by (simp add: log_cost_ok_def 2(3))
    ultimately have "logs_ok d'"
      using assms new by (auto simp: metrics_ok_def logs_ok_def 2(4,5))
    moreover have rows: "metrics_row (t_logs d') (if nl_account e = Some (rt_account r) then count_request q now e cost r else r)"
      if "r \<in> set (t_runtime d)" for r
    proof -
      have "metrics_row (t_logs d) r" using assms that by (simp add: metrics_ok_def)
      moreover have "pending_count aid (t_logs d') = pending_count aid (t_logs d)" for aid
        by (simp add: pending_count_def 2(4) flag_def)
      ultimately show ?thesis
        using estimate_flags [of "cost_model (nl_usage e) (nl_model e)" "nl_usage e", folded 2(3)]
        by (auto simp: metrics_row_def count_request_def Let_def flag_def split: if_splits)
    qed
    have "\<forall>r \<in> set (t_runtime d'). metrics_row (t_logs d') r"
      unfolding 2(6) set_map ball_simps using rows by blast
    with \<open>logs_ok d'\<close> i show ?thesis by (simp add: metrics_ok_def)
  qed
qed

section \<open>The backfill keeps it\<close>

definition selected :: "pending_row list \<Rightarrow> log_row \<Rightarrow> bool" where
  "selected rows l \<longleftrightarrow> log_cost_status l = None \<and> log_id l \<in> pd_id ` set rows"

definition selected_sum :: "(pending_row \<Rightarrow> int) \<Rightarrow> pending_row list \<Rightarrow> uuid \<Rightarrow> log_row list \<Rightarrow> int" where
  "selected_sum f rows aid logs =
     sum_list (map (\<lambda>l. if selected rows l \<and> log_account l = Some aid then f (pending_of l) else 0) logs)"

lemma pending_of_fields [simp]:
  "pd_id (pending_of l) = log_id l" "pd_account (pending_of l) = log_account l"
  by (simp_all add: pending_of_def)

text \<open>The logs a batch selects, as they are read.\<close>

lemma pending_rows_logs:
  assumes "logs_ok d"
  obtains S where "pending_rows n d = map pending_of S" "distinct (map log_id S)"
    "set S = {l \<in> set (t_logs d). selected (pending_rows n d) l}" "\<forall>l \<in> set S. log_cost_status l = None"
proof -
  let ?P = "filter (\<lambda>l. log_cost_status l = None) (t_logs d)"
  let ?S = "take (nat (clamp 1 backfill_batch_size n)) (sort_key log_id ?P)"
  have dl: "distinct (map log_id (t_logs d))" using assms by (simp add: logs_ok_def)
  have "distinct (map log_id (sort_key log_id ?P))"
    using dl by (metis distinct_map distinct_map_filter distinct_sort set_sort)
  then have dS: "distinct (map log_id ?S)" by (simp add: distinct_take take_map [symmetric])
  have sub: "set ?S \<subseteq> set ?P" using set_take_subset by fastforce
  have rows: "pending_rows n d = map pending_of ?S" by (simp add: pending_rows_def)
  have "l \<in> set ?S" if "l \<in> set (t_logs d)" "selected (pending_rows n d) l" for l
  proof -
    from that rows obtain l' where l': "l' \<in> set ?S" "log_id l' = log_id l"
      by (auto simp: selected_def)
    then have "l' \<in> set (t_logs d)" using sub by auto
    with that(1) l'(2) dl have "l' = l" by (auto simp: distinct_map dest: inj_onD)
    with l' show ?thesis by simp
  qed
  moreover have "selected (pending_rows n d) l" if "l \<in> set ?S" for l
  proof -
    have "pd_id (pending_of l) \<in> pd_id ` pending_of ` set ?S" using that by (intro imageI)
    then have "log_id l \<in> pd_id ` set (pending_rows n d)" by (simp only: rows set_map pending_of_fields)
    moreover have "l \<in> set ?P" using that sub by blast
    ultimately show ?thesis by (simp add: selected_def)
  qed
  moreover have "l \<in> set (t_logs d)" "log_cost_status l = None" if "l \<in> set ?S" for l
    using subsetD [OF sub that] by simp_all
  ultimately have "set ?S = {l \<in> set (t_logs d). selected (pending_rows n d) l}" "\<forall>l \<in> set ?S. log_cost_status l = None"
    by blast+
  with that [OF rows dS] show thesis by blast
qed

lemma one_log:
  assumes "distinct (map log_id logs)" "l \<in> set logs" "log_cost_status l = None"
  shows "length (filter (log_pending (log_id l)) logs) = 1"
  using assms
proof (induction logs)
  case (Cons x logs)
  show ?case
  proof (cases "x = l")
    case True
    with Cons.prems have "filter (log_pending (log_id l)) logs = []"
      by (auto simp: filter_empty_conv log_pending_def) (metis image_eqI)
    with True Cons.prems show ?thesis by (simp add: log_pending_def [abs_def])
  next
    case False
    with Cons.prems have "log_id x \<noteq> log_id l" by auto
    with False Cons show ?thesis by (simp add: log_pending_def)
  qed
qed simp

lemma pending_rows_fresh:
  assumes "logs_ok d"
  shows "rows_fresh (pending_rows n d) (t_logs d)"
proof (rule pending_rows_logs [OF assms])
  fix S
  assume S: "pending_rows n d = map pending_of S" "distinct (map log_id S)"
    "set S = {l \<in> set (t_logs d). selected (pending_rows n d) l}" "\<forall>l \<in> set S. log_cost_status l = None"
  have dl: "distinct (map log_id (t_logs d))" using assms by (simp add: logs_ok_def)
  have "l' = l" if "l \<in> set S" "l' \<in> set (t_logs d)" "log_id l' = log_id l" for l l'
    using that S(3) dl by (auto simp: distinct_map dest: inj_onD)
  moreover have "length (filter (log_pending (log_id l)) (t_logs d)) = 1" if "l \<in> set S" for l
    using that S(3,4) one_log [OF dl] by auto
  ultimately show ?thesis
    using S(2) by (auto simp: rows_fresh_def S(1) comp_def log_pending_def)
qed

lemma sum_all_rows:
  assumes "logs_ok d"
  shows "sum_list (map g (pending_rows n d))
     = sum_list (map (\<lambda>l. if selected (pending_rows n d) l then g (pending_of l) else (0 :: int)) (t_logs d))"
proof (rule pending_rows_logs [OF assms])
  fix S
  assume S: "pending_rows n d = map pending_of S" "distinct (map log_id S)"
    "set S = {l \<in> set (t_logs d). selected (pending_rows n d) l}"
  let ?g = "\<lambda>l. g (pending_of l)"
  let ?sel = "filter (selected (pending_rows n d)) (t_logs d)"
  have dl: "distinct (t_logs d)" "distinct S" using assms S(2) by (auto simp: logs_ok_def distinct_map)
  have "sum_list (map g (pending_rows n d)) = sum_list (map ?g S)" by (simp add: S(1) comp_def)
  also have "\<dots> = sum ?g (set S)" using dl(2) by (rule sum_list_distinct_conv_sum_set)
  also have "set S = set ?sel" using S(3) by auto
  also have "sum ?g (set ?sel) = sum_list (map ?g ?sel)"
    using dl(1) by (intro sum_list_distinct_conv_sum_set [symmetric]) simp
  also have "sum_list (map ?g (filter P xs)) = sum_list (map (\<lambda>l. if P l then g (pending_of l) else 0) xs)" for P xs
    by (induction xs) auto
  finally show ?thesis .
qed

lemma sum_rows:
  assumes "logs_ok d"
  shows "sum_list (map f (filter (\<lambda>row. pd_account row = Some aid) (pending_rows n d)))
     = selected_sum f (pending_rows n d) aid (t_logs d)"
proof -
  let ?g = "\<lambda>row. if pd_account row = Some aid then f row else 0"
  have "sum_list (map f (filter (\<lambda>row. pd_account row = Some aid) rows)) = sum_list (map ?g rows)" for rows
    by (induction rows) auto
  then have "sum_list (map f (filter (\<lambda>row. pd_account row = Some aid) (pending_rows n d))) = sum_list (map ?g (pending_rows n d))" .
  also have "\<dots> = sum_list (map (\<lambda>l. if selected (pending_rows n d) l then ?g (pending_of l) else 0) (t_logs d))"
    by (rule sum_all_rows [OF assms])
  also have "\<dots> = selected_sum f (pending_rows n d) aid (t_logs d)"
    unfolding selected_sum_def by (rule arg_cong [where f = sum_list]) simp
  finally show ?thesis .
qed

text \<open>The contribution of a row to each field of its account's delta.\<close>

lemma delta_add_fields:
  assumes "delta_add row (pending_estimate row) dl = Inr dl'"
  shows "dl_lower dl' = dl_lower dl + or_default (lower_nano_usd (pending_estimate row)) 0"
    and "dl_upper dl' = dl_upper dl + or_default (upper_nano_usd (pending_estimate row)) 0"
    and "dl_complete dl' = dl_complete dl + flag (cost_status (pending_estimate row) = Complete)"
    and "dl_partial dl' = dl_partial dl + flag (cost_status (pending_estimate row) = MissingCacheWrite)"
  using assms by (auto simp: delta_add_def checked_accumulate_def split: option.splits)

lemma batch_cases:
  assumes "backfill_api_costs_batch n d = (res, d')" "logs_ok d"
  obtains (unchanged) "d' = d" "(\<exists>e. res = Inl e) \<or> pending_rows n d = [] \<and> res = Inr \<lparr>bf_selected = 0, bf_updated = 0\<rparr>"
  | (priced) ds where "pending_rows n d \<noteq> []"
      "res = Inr \<lparr>bf_selected = length (pending_rows n d), bf_updated = length (pending_rows n d)\<rparr>"
      "t_logs d' = map (\<lambda>l. if selected (pending_rows n d) l then price_log (pending_estimate (pending_of l)) l else l) (t_logs d)"
      "seq_logs d' = seq_logs d" "d' = add_deltas ds (d\<lparr>t_logs := t_logs d'\<rparr>)"
      "t_runtime d' = map (\<lambda>r. if rt_account r \<in> fst ` set ds then add_delta (delta_of (rt_account r) ds) r else r) (t_runtime d)"
      "\<And>aid. dl_lower (delta_of aid ds) = selected_sum (\<lambda>row. or_default (lower_nano_usd (pending_estimate row)) 0) (pending_rows n d) aid (t_logs d)"
      "\<And>aid. dl_upper (delta_of aid ds) = selected_sum (\<lambda>row. or_default (upper_nano_usd (pending_estimate row)) 0) (pending_rows n d) aid (t_logs d)"
      "\<And>aid. dl_complete (delta_of aid ds) = selected_sum (\<lambda>row. flag (cost_status (pending_estimate row) = Complete)) (pending_rows n d) aid (t_logs d)"
      "\<And>aid. dl_partial (delta_of aid ds) = selected_sum (\<lambda>row. flag (cost_status (pending_estimate row) = MissingCacheWrite)) (pending_rows n d) aid (t_logs d)"
      "\<And>aid f. aid \<notin> fst ` set ds \<Longrightarrow> selected_sum f (pending_rows n d) aid (t_logs d) = 0"
proof (cases "pending_rows n d = []")
  case True
  with assms(1) show thesis by (intro unchanged) (auto simp: backfill_api_costs_batch_def backfill_commit_def)
next
  case False
  note run = assms(1) [unfolded backfill_api_costs_batch_def backfill_commit_def]
  show thesis
  proof (cases "backfill_rows (pending_rows n d) (t_logs d) [] 0")
    case (Inl e)
    with run False show thesis by (intro unchanged) auto
  next
    case (Inr x)
    obtain logs ds u where x: "x = (logs, ds, u)" by (cases x)
    note b = Inr [unfolded x] and fresh = pending_rows_fresh [OF assms(2), of n]
    note l = backfill_rows_logs [OF b fresh]
    note a = backfill_rows_accounts [OF b fresh]
    have d': "res = Inr \<lparr>bf_selected = length (pending_rows n d), bf_updated = u\<rparr>" "d' = add_deltas ds (d\<lparr>t_logs := logs\<rparr>)"
      using run False b by auto
    have dist: "distinct (map fst ds)" and accs: "fst ` set ds = {a. \<exists>row \<in> set (pending_rows n d). pd_account row = Some a}"
      using a by simp_all
    have zero: "delta_of aid [] = delta_default" for aid by (simp add: delta_of_def)
    note dels = backfill_rows_deltas [OF _ b fresh, unfolded zero sum_rows [OF assms(2)]]
    show thesis
    proof (rule priced [of ds])
      show "pending_rows n d \<noteq> []" by (rule False)
      show "res = Inr \<lparr>bf_selected = length (pending_rows n d), bf_updated = length (pending_rows n d)\<rparr>"
        using d'(1) l by simp
      show "t_logs d' = map (\<lambda>l. if selected (pending_rows n d) l then price_log (pending_estimate (pending_of l)) l else l) (t_logs d)"
        using d'(2) l by (simp add: selected_def)
      show "seq_logs d' = seq_logs d" "d' = add_deltas ds (d\<lparr>t_logs := t_logs d'\<rparr>)" using d'(2) by simp_all
      show "t_runtime d' = map (\<lambda>r. if rt_account r \<in> fst ` set ds then add_delta (delta_of (rt_account r) ds) r else r) (t_runtime d)"
        using add_deltas_rows [OF dist] d'(2) by simp
      show "selected_sum f (pending_rows n d) aid (t_logs d) = 0" if "aid \<notin> fst ` set ds" for aid f
      proof -
        have "filter (\<lambda>row. pd_account row = Some aid) (pending_rows n d) = []"
          using that unfolding accs by (auto simp: filter_empty_conv)
        then show ?thesis by (simp add: sum_rows [OF assms(2), symmetric])
      qed
    qed (use dels [where g = dl_lower, OF delta_add_fields(1)] dels [where g = dl_upper, OF delta_add_fields(2)] dels [where g = dl_complete, OF delta_add_fields(3)]
          dels [where g = dl_partial, OF delta_add_fields(4)] in \<open>simp_all add: delta_default_def\<close>)
  qed
qed

lemma add_delta_account [simp]: "rt_account (add_delta dl r) = rt_account r"
  by (simp add: add_delta_def)

lemma selected_sum_mono:
  "(\<And>row. f row \<le> g row) \<Longrightarrow> selected_sum f rows aid logs \<le> selected_sum g rows aid logs"
  unfolding selected_sum_def by (rule sum_list_mono) auto

lemma selected_sum_add:
  "selected_sum f rows aid logs + selected_sum g rows aid logs = selected_sum (\<lambda>row. f row + g row) rows aid logs"
  unfolding selected_sum_def sum_list_addf [symmetric] by (rule arg_cong [where f = sum_list]) auto

lemma selected_sum_nonneg: "(\<And>row. 0 \<le> f row) \<Longrightarrow> 0 \<le> selected_sum f rows aid logs"
  unfolding selected_sum_def by (rule sum_list_nonneg) auto

abbreviation price_selected :: "pending_row list \<Rightarrow> log_row list \<Rightarrow> log_row list" where
  "price_selected rows logs \<equiv>
     map (\<lambda>l. if selected rows l then price_log (pending_estimate (pending_of l)) l else l) logs"

lemma pending_count_priced:
  "pending_count aid (price_selected rows logs) = pending_count aid logs - selected_sum (\<lambda>_. 1) rows aid logs"
  by (induction logs) (auto simp: pending_count_def selected_sum_def flag_def selected_def)

lemma billed_priced:
  assumes "\<forall>l \<in> set logs. log_cost_ok l"
  shows "billed log_cost_lower aid (price_selected rows logs)
       = billed log_cost_lower aid logs + selected_sum (\<lambda>row. or_default (lower_nano_usd (pending_estimate row)) 0) rows aid logs"
    and "billed log_cost_upper aid (price_selected rows logs)
       = billed log_cost_upper aid logs + selected_sum (\<lambda>row. or_default (upper_nano_usd (pending_estimate row)) 0) rows aid logs"
  using assms
  by (induction logs)
    (auto simp: billed_def selected_sum_def selected_def log_cost_ok_def or_default_def)

lemma pending_estimate_flags:
  "flag (cost_status (pending_estimate row) = Complete) + flag (cost_status (pending_estimate row) = MissingCacheWrite) \<le> 1"
  "0 \<le> or_default (lower_nano_usd (pending_estimate row)) 0"
  "or_default (lower_nano_usd (pending_estimate row)) 0 \<le> or_default (upper_nano_usd (pending_estimate row)) 0"
  using estimate_flags [of "cost_model (pd_usage row) (pd_model row)" "pd_usage row"] flag_bounds
  by (simp_all add: pending_estimate_def flag_def split: if_splits)

text \<open>What the batch adds to one account's row: exactly the costs its logs get.\<close>

lemma batch_row:
  assumes "metrics_row logs r"
    and "\<And>aid. dl_lower (delta_of aid ds) = selected_sum (\<lambda>row. or_default (lower_nano_usd (pending_estimate row)) 0) rows aid logs"
    and "\<And>aid. dl_upper (delta_of aid ds) = selected_sum (\<lambda>row. or_default (upper_nano_usd (pending_estimate row)) 0) rows aid logs"
    and "\<And>aid. dl_complete (delta_of aid ds) = selected_sum (\<lambda>row. flag (cost_status (pending_estimate row) = Complete)) rows aid logs"
    and "\<And>aid. dl_partial (delta_of aid ds) = selected_sum (\<lambda>row. flag (cost_status (pending_estimate row) = MissingCacheWrite)) rows aid logs"
  shows "metrics_row (price_selected rows logs) (add_delta (delta_of (rt_account r) ds) r)"
proof -
  let ?aid = "rt_account r"
  let ?s = "\<lambda>f. selected_sum f rows ?aid logs"
  have "?s (\<lambda>row. flag (cost_status (pending_estimate row) = Complete))
      + ?s (\<lambda>row. flag (cost_status (pending_estimate row) = MissingCacheWrite)) \<le> ?s (\<lambda>_. 1)"
    unfolding selected_sum_add by (rule selected_sum_mono) (rule pending_estimate_flags(1))
  moreover have "?s (\<lambda>_. 1) \<le> pending_count ?aid logs"
    using pending_count_nonneg [of ?aid "price_selected rows logs"] by (simp add: pending_count_priced)
  moreover have "0 \<le> ?s (\<lambda>row. flag (cost_status (pending_estimate row) = Complete))"
    "0 \<le> ?s (\<lambda>row. flag (cost_status (pending_estimate row) = MissingCacheWrite))"
    "0 \<le> ?s (\<lambda>row. or_default (lower_nano_usd (pending_estimate row)) 0)"
    by (rule selected_sum_nonneg, simp add: flag_bounds pending_estimate_flags)+
  moreover have "?s (\<lambda>row. or_default (lower_nano_usd (pending_estimate row)) 0)
      \<le> ?s (\<lambda>row. or_default (upper_nano_usd (pending_estimate row)) 0)"
    by (rule selected_sum_mono) (rule pending_estimate_flags(3))
  ultimately show ?thesis
    using assms(1) unfolding metrics_row_def add_delta_account pending_count_priced
    by (simp add: add_delta_def assms(2-5))
qed

lemma metrics_row_untouched:
  assumes "metrics_row logs r" "\<And>f. selected_sum f rows (rt_account r) logs = 0"
  shows "metrics_row (price_selected rows logs) r"
  using assms by (simp add: metrics_row_def pending_count_priced)

lemma batch_logs_ok:
  assumes "logs_ok d"
  shows "logs_ok (snd (backfill_api_costs_batch n d))"
proof -
  obtain res d' where b: "backfill_api_costs_batch n d = (res, d')" by fastforce
  show ?thesis
  proof (cases rule: batch_cases [OF b assms])
    case 1
    with b assms show ?thesis by simp
  next
    case (2 ds)
    have "map log_id (t_logs d') = map log_id (t_logs d)" by (simp add: 2(3))
    then have "distinct (map log_id (t_logs d'))" using assms by (simp only: logs_ok_def)
    moreover have "\<forall>l \<in> set (t_logs d'). log_id l \<le> seq_logs d' \<and> log_cost_ok l"
      using assms by (auto simp: logs_ok_def 2(3,4) log_cost_ok_def)
    ultimately show ?thesis using b by (simp add: logs_ok_def)
  qed
qed

lemma batch_metrics:
  assumes "metrics_ok d"
  shows "metrics_ok (snd (backfill_api_costs_batch n d))"
proof -
  have lok: "logs_ok d" using assms by (simp add: metrics_ok_def)
  obtain res d' where b: "backfill_api_costs_batch n d = (res, d')" by fastforce
  show ?thesis
  proof (cases rule: batch_cases [OF b lok])
    case 1
    with b assms show ?thesis by simp
  next
    case (2 ds)
    have "logs_ok d'" using batch_logs_ok [OF lok, of n] b by simp
    moreover have "metrics_row (t_logs d') (if rt_account r \<in> fst ` set ds then add_delta (delta_of (rt_account r) ds) r else r)"
      if "r \<in> set (t_runtime d)" for r
      using assms that batch_row [OF _ 2(7-10), of r] metrics_row_untouched [of "t_logs d" r "pending_rows n d"] 2(11) [of "rt_account r"]
      unfolding 2(3) metrics_ok_def by simp
    then have "\<forall>r \<in> set (t_runtime d'). metrics_row (t_logs d') r"
      unfolding 2(6) set_map ball_simps by blast
    ultimately show ?thesis using b by (simp add: metrics_ok_def)
  qed
qed

section \<open>Any sequence of requests and batches\<close>

datatype log_op = LogRequest instant new_request_log | BackfillBatch int

fun log_step :: "sqlite \<Rightarrow> log_op \<Rightarrow> db \<Rightarrow> db" where
  "log_step q (LogRequest now e) d = snd (insert_request_log q now e d)"
| "log_step q (BackfillBatch n) d = snd (backfill_api_costs_batch n d)"

lemma find_map_rows:
  "(\<And>r. rt_account (f r) = rt_account r) \<Longrightarrow> t_runtime d' = map f (t_runtime d)
   \<Longrightarrow> get_runtime aid d' = map_option f (get_runtime aid d)"
  by (simp add: find_map_key)

definition surplus :: "uuid \<Rightarrow> runtime_row \<Rightarrow> db \<Rightarrow> int \<times> int" where
  "surplus aid r d = (rt_cost_lower r - billed log_cost_lower aid (t_logs d),
     rt_cost_upper r - billed log_cost_upper aid (t_logs d))"

lemma log_step_surplus:
  assumes "metrics_ok d" "get_runtime aid d = Some r"
  shows "metrics_ok (log_step q act d)
     \<and> (\<exists>r'. get_runtime aid (log_step q act d) = Some r' \<and> surplus aid r' (log_step q act d) = surplus aid r d)"
proof (cases act)
  case (LogRequest now e)
  obtain res d' where i: "insert_request_log q now e d = (res, d')" by fastforce
  have acc: "rt_account r = aid" using find_Some_key [OF assms(2)] by simp
  have "\<exists>r'. get_runtime aid d' = Some r' \<and> surplus aid r' d' = surplus aid r d"
  proof (cases rule: insert_log_cases [OF i])
    case 1
    with assms(2) show ?thesis by simp
  next
    case (2 cost)
    have "get_runtime aid d' = Some (if nl_account e = Some (rt_account r) then count_request q now e cost r else r)"
      using find_map_rows [OF _ 2(6), of aid] assms(2) by simp
    then show ?thesis using acc by (auto simp: surplus_def billed_def 2(4) count_request_def Let_def)
  qed
  with insert_log_metrics [OF assms(1), of q now e] LogRequest i show ?thesis by simp
next
  case (BackfillBatch n)
  have lok: "logs_ok d" using assms(1) by (simp add: metrics_ok_def)
  obtain res d' where b: "backfill_api_costs_batch n d = (res, d')" by fastforce
  have acc: "rt_account r = aid" using find_Some_key [OF assms(2)] by simp
  have "\<exists>r'. get_runtime aid d' = Some r' \<and> surplus aid r' d' = surplus aid r d"
  proof (cases rule: batch_cases [OF b lok])
    case 1
    with assms(2) show ?thesis by simp
  next
    case (2 ds)
    have r': "get_runtime aid d' = Some (if aid \<in> fst ` set ds then add_delta (delta_of aid ds) r else r)"
      using find_map_rows [OF _ 2(6), of aid] assms(2) acc by simp
    have lc: "\<forall>l \<in> set (t_logs d). log_cost_ok l" using lok by (simp add: logs_ok_def)
    show ?thesis
      unfolding r' surplus_def 2(3) billed_priced [OF lc]
      using 2(7,8,11) by (auto simp: add_delta_def)
  qed
  with batch_metrics [OF assms(1), of n] BackfillBatch b show ?thesis by simp
qed


definition sample_log :: new_request_log where
  "sample_log = \<lparr>nl_request_id = ''q'', nl_account = Some 7, nl_model = Some ''gpt-5.6-sol'', nl_status = ''success'',
     nl_selection_reason = Some Sticky, nl_error_code = None, nl_error_message = None,
     nl_usage = usage_default\<lparr>input_tokens := Some 2000, cached_input_tokens := Some 200, output_tokens := Some 100\<rparr>,
     nl_latency_ms = Some 12\<rparr>"

text \<open>A log from before costs existed, counted as unpriced.\<close>

definition old_log :: log_row where
  "old_log = (new_log_row sample_sqlite 6 1 sample_log (unpriced MissingUsage))
     \<lparr>log_pricing_version := None, log_cost_status := None\<rparr>"

definition old_db :: db where
  "old_db = sample_db\<lparr>t_logs := [old_log], seq_logs := 1,
     t_runtime := map (\<lambda>r. r\<lparr>rt_requests := 1, rt_successful := 1, rt_unpriced := 1\<rparr>) (t_runtime sample_db)\<rparr>"

lemma old_log_fields:
  "log_id old_log = 1" "log_account old_log = Some 7" "log_cost_status old_log = None"
  "log_cost_lower old_log = None" "log_cost_upper old_log = None"
  by (simp_all add: old_log_def unpriced_def sample_log_def)

lemma old_db_ok: "metrics_ok old_db"
  by (simp add: metrics_ok_def logs_ok_def old_db_def old_log_fields log_cost_ok_def sample_db_fields metrics_row_def
      pending_count_def flag_def new_runtime_row_def)


text \<open>
  No log is counted twice: when another process has priced the rows of a batch between their
  selection and the transaction, the batch updates nothing, adds nothing to the totals, and still
  reports how many rows it selected.
\<close>

lemma lost_batch_changes_nothing:
  assumes "logs_ok d" "backfill_api_costs_batch n d = (Inr b, d')" "bf_selected b \<noteq> 0"
  shows "backfill_commit (pending_rows n d) d' = (Inr \<lparr>bf_selected = bf_selected b, bf_updated = 0\<rparr>, d')"
proof -
  have none: "filter (log_pending (pd_id row)) (t_logs d') = []" if "row \<in> set (pending_rows n d)" for row
    using that
    by (cases rule: batch_cases [OF assms(2,1)])
      (use assms(3) in \<open>auto simp: filter_empty_conv log_pending_def selected_def\<close>)
  have "backfill_rows rows (t_logs d') [] 0 = Inr (t_logs d', [], 0)" if "set rows \<subseteq> set (pending_rows n d)" for rows
    using that
  proof (induction rows)
    case (Cons row rows)
    have "filter (log_pending (pd_id row)) (t_logs d') = []" using none Cons.prems by simp
    then have "tbl_update (log_pending (pd_id row)) f (t_logs d') = t_logs d'" for f
      by (auto simp: tbl_update_def filter_empty_conv intro!: map_idI)
    with Cons \<open>filter (log_pending (pd_id row)) (t_logs d') = []\<close> show ?case by simp
  qed simp
  moreover have "pending_rows n d \<noteq> [] \<and> bf_selected b = length (pending_rows n d)"
    using assms(3) by (cases rule: batch_cases [OF assms(2,1)]) auto
  ultimately show ?thesis by (simp add: backfill_commit_def add_deltas_def)
qed

lemma old_estimate: "pending_estimate (pending_of old_log) = priced MissingCacheWrite 12100000 14350000"
proof -
  have "estimate_standard_api_cost (Some ''gpt-5.6-sol'')
     (usage_default\<lparr>input_tokens := Some 2000, cached_input_tokens := Some 200, output_tokens := Some 100\<rparr>)
     = priced MissingCacheWrite 12100000 14350000"
    by code_simp
  then show ?thesis
    by (simp add: pending_estimate_def pending_of_def old_log_def new_log_row_def Let_def sample_log_def
        usage_default_def cost_model_def or_else_def)
qed

lemma old_logs: "t_logs old_db = [old_log]"
  by (simp add: old_db_def)

lemma old_rows: "pending_rows 500 old_db = [pending_of old_log]"
  by (simp add: pending_rows_def old_db_def old_log_fields clamp_def backfill_batch_size_def)

lemma old_batch:
  "\<exists>d'. backfill_api_costs_batch 500 old_db = (Inr \<lparr>bf_selected = 1, bf_updated = 1\<rparr>, d')"
proof -
  have u: "cached_input_tokens (pd_usage (pending_of old_log)) = Some 200"
    "cache_write_input_tokens (pd_usage (pending_of old_log)) = None"
    by (simp_all add: pending_of_def old_log_def new_log_row_def Let_def sample_log_def usage_default_def)
  show ?thesis
    by (simp add: backfill_api_costs_batch_def backfill_commit_def old_rows old_logs old_log_fields log_pending_def
        old_estimate delta_add_def checked_accumulate_def checked_add_def i64_of_def in_i64_def i64_min_def i64_max_def
        delta_of_def delta_default_def priced_def flag_def or_default_def u)
qed

lemma lost_batch_changes_nothing_witness:
  "\<exists>d'. snd (backfill_api_costs_batch 500 old_db) = d'
     \<and> backfill_commit (pending_rows 500 old_db) d' = (Inr \<lparr>bf_selected = 1, bf_updated = 0\<rparr>, d')"
proof -
  obtain d' where b: "backfill_api_costs_batch 500 old_db = (Inr \<lparr>bf_selected = 1, bf_updated = 1\<rparr>, d')"
    using old_batch by blast
  have "logs_ok old_db" using old_db_ok by (simp add: metrics_ok_def)
  from lost_batch_changes_nothing [OF this b] b show ?thesis by simp
qed

section \<open>The backfill finishes\<close>

text \<open>A bound on what one row adds to any field of a delta.\<close>

definition weight :: "pending_row \<Rightarrow> int" where
  "weight row = max 0 (or_default (cached_input_tokens (pd_usage row)) 0)
     + max 0 (or_default (cache_write_input_tokens (pd_usage row)) 0)
     + or_default (upper_nano_usd (pending_estimate row)) 0 + 1"

definition delta_within :: "int \<Rightarrow> cost_delta \<Rightarrow> bool" where
  "delta_within w dl \<longleftrightarrow> (\<forall>x \<in> {dl_cached dl, dl_cache_write dl, dl_lower dl, dl_upper dl, dl_complete dl, dl_partial dl}. 0 \<le> x \<and> x \<le> w)"

lemma upper_nonneg: "0 \<le> or_default (upper_nano_usd (pending_estimate row)) 0"
  using pending_estimate_flags(2,3) [of row] by simp

lemma weight_pos: "1 \<le> weight row"
  using upper_nonneg [of row] by (simp add: weight_def)

lemma weight_nonneg: "0 \<le> weight row"
  using weight_pos [of row] by simp

lemma delta_within_mono: "delta_within w dl \<Longrightarrow> w \<le> w' \<Longrightarrow> delta_within w' dl"
  by (auto simp: delta_within_def)

lemma accumulate_ok:
  "0 \<le> x \<Longrightarrow> 0 \<le> y \<Longrightarrow> x + y \<le> i64_max \<Longrightarrow> checked_accumulate x y = Inr (x + y)"
  by (simp add: checked_accumulate_def checked_add_def i64_of_def in_i64_def i64_min_def i64_max_def)

lemma delta_add_within:
  assumes "delta_within w dl" "0 \<le> w" "w + weight row \<le> i64_max"
  shows "\<exists>dl'. delta_add row (pending_estimate row) dl = Inr dl' \<and> delta_within (w + weight row) dl'"
proof -
  let ?c = "max 0 (or_default (cached_input_tokens (pd_usage row)) 0)"
  let ?k = "max 0 (or_default (cache_write_input_tokens (pd_usage row)) 0)"
  let ?l = "or_default (lower_nano_usd (pending_estimate row)) 0"
  let ?u = "or_default (upper_nano_usd (pending_estimate row)) 0"
  let ?f = "flag (cost_status (pending_estimate row) = Complete)"
  let ?p = "flag (cost_status (pending_estimate row) = MissingCacheWrite)"
  have w: "weight row = ?c + ?k + ?u + 1" by (simp add: weight_def)
  have b: "0 \<le> ?c" "0 \<le> ?k" "0 \<le> ?l" "?l \<le> ?u" "0 \<le> ?f" "?f \<le> 1" "0 \<le> ?p" "?p \<le> 1"
    using pending_estimate_flags [of row] flag_bounds by simp_all
  have d: "0 \<le> dl_cached dl" "dl_cached dl \<le> w" "0 \<le> dl_cache_write dl" "dl_cache_write dl \<le> w"
    "0 \<le> dl_lower dl" "dl_lower dl \<le> w" "0 \<le> dl_upper dl" "dl_upper dl \<le> w"
    "0 \<le> dl_complete dl" "dl_complete dl \<le> w" "0 \<le> dl_partial dl" "dl_partial dl \<le> w"
    using assms(1) by (simp_all add: delta_within_def)
  have "checked_accumulate (dl_cached dl) ?c = Inr (dl_cached dl + ?c)"
    "checked_accumulate (dl_cache_write dl) ?k = Inr (dl_cache_write dl + ?k)"
    "checked_accumulate (dl_lower dl) ?l = Inr (dl_lower dl + ?l)"
    "checked_accumulate (dl_upper dl) ?u = Inr (dl_upper dl + ?u)"
    "checked_accumulate (dl_complete dl) ?f = Inr (dl_complete dl + ?f)"
    "checked_accumulate (dl_partial dl) ?p = Inr (dl_partial dl + ?p)"
    using b d assms(3) unfolding w by (intro accumulate_ok; linarith)+
  then have "delta_add row (pending_estimate row) dl = Inr \<lparr>dl_cached = dl_cached dl + ?c, dl_cache_write = dl_cache_write dl + ?k,
      dl_lower = dl_lower dl + ?l, dl_upper = dl_upper dl + ?u, dl_complete = dl_complete dl + ?f, dl_partial = dl_partial dl + ?p\<rparr>"
    by (simp add: delta_add_def)
  moreover have "delta_within (w + weight row) \<lparr>dl_cached = dl_cached dl + ?c, dl_cache_write = dl_cache_write dl + ?k,
      dl_lower = dl_lower dl + ?l, dl_upper = dl_upper dl + ?u, dl_complete = dl_complete dl + ?f, dl_partial = dl_partial dl + ?p\<rparr>"
    unfolding delta_within_def ball_simps cost_delta.select_convs w using b d by (intro conjI TrueI; linarith)
  ultimately show ?thesis by blast
qed

lemma backfill_rows_total:
  assumes "\<And>aid. delta_within w (delta_of aid ds)" "0 \<le> w" "w + sum_list (map weight rows) \<le> i64_max"
  shows "\<exists>res. backfill_rows rows logs ds n = Inr res"
  using assms
proof (induction rows arbitrary: w logs ds n)
  case (Cons row rows)
  have rest: "0 \<le> sum_list (map weight rows)" by (intro sum_list_nonneg) (auto simp: weight_nonneg)
  have wider: "delta_within (w + weight row) (delta_of aid ds)" for aid
    using delta_within_mono [OF Cons.prems(1)] weight_pos [of row] by simp
  have "0 \<le> w + weight row" "w + weight row + sum_list (map weight rows) \<le> i64_max"
    using Cons.prems(2,3) weight_pos [of row] by simp_all
  note IH = Cons.IH [OF _ this]
  show ?case
  proof (cases "pd_account row")
    case None
    with IH [OF wider] show ?thesis by (simp add: Let_def)
  next
    case (Some a)
    have "w + weight row \<le> i64_max" using Cons.prems(3) rest by simp
    from delta_add_within [OF Cons.prems(1,2) this]
    obtain dl where dl: "delta_add row (pending_estimate row) (delta_of a ds) = Inr dl" "delta_within (w + weight row) dl"
      by blast
    have "delta_within (w + weight row) (delta_of aid (set_delta a dl ds))" for aid
      using dl(2) wider by (simp add: delta_of_set)
    with IH IH [OF wider] dl(1) Some show ?thesis by (simp add: Let_def)
  qed
qed simp

definition pending_weight :: "db \<Rightarrow> int" where
  "pending_weight d = sum_list (map (\<lambda>l. if log_cost_status l = None then weight (pending_of l) else 0) (t_logs d))"

lemma batch_succeeds:
  assumes "logs_ok d" "pending_weight d \<le> i64_max"
  shows "\<exists>b. fst (backfill_api_costs_batch n d) = Inr b"
proof -
  have "sum_list (map weight (pending_rows n d)) \<le> pending_weight d"
    unfolding sum_all_rows [OF assms(1)] pending_weight_def
    by (rule sum_list_mono) (auto simp: selected_def weight_nonneg)
  then have "0 + sum_list (map weight (pending_rows n d)) \<le> i64_max" using assms(2) by simp
  moreover have "delta_within 0 (delta_of aid [])" for aid
    by (simp add: delta_of_def delta_default_def delta_within_def)
  ultimately have "\<exists>res. backfill_rows (pending_rows n d) (t_logs d) [] 0 = Inr res"
    by (intro backfill_rows_total) auto
  then show ?thesis by (auto simp: backfill_api_costs_batch_def backfill_commit_def)
qed

lemma no_rows_pending: "pending_rows backfill_batch_size d = [] \<Longrightarrow> pending_total d = 0"
proof -
  let ?P = "filter (\<lambda>l. log_cost_status l = None) (t_logs d)"
  assume "pending_rows backfill_batch_size d = []"
  then have "sort_key log_id ?P = []" by (simp add: pending_rows_def clamp_def backfill_batch_size_def)
  then have "length ?P = 0" by (metis length_0_conv length_sort)
  then show "pending_total d = 0" by (simp only: pending_total_def)
qed

lemma sum_list_split:
  "(\<And>x. x \<in> set xs \<Longrightarrow> f x + g x = h x) \<Longrightarrow> sum_list (map f xs) + sum_list (map g xs) = sum_list (map h xs :: int list)"
  by (induction xs) (auto simp: algebra_simps)

lemma pending_total_sum:
  "int (pending_total d) = sum_list (map (\<lambda>l. if log_cost_status l = None then 1 else 0) (t_logs d))"
proof -
  have "int (length (filter P xs)) = sum_list (map (\<lambda>l. if P l then 1 else 0) xs)" for P and xs :: "log_row list"
    by (induction xs) auto
  then show ?thesis by (simp add: pending_total_def)
qed

definition price_all :: "log_row list \<Rightarrow> log_row list" where
  "price_all logs = map (\<lambda>l. if log_cost_status l = None then price_log (pending_estimate (pending_of l)) l else l) logs"

lemma backfill_loop_completes:
  assumes "logs_ok d" "pending_weight d \<le> i64_max" "tot + pending_total d < 2 ^ 64"
  shows "\<exists>d'. backfill_loop tot d = (Inr (tot + pending_total d), d') \<and> t_logs d' = price_all (t_logs d)
     \<and> (metrics_ok d \<longrightarrow> metrics_ok d')"
  using assms
proof (induction tot d rule: backfill_loop.induct)
  case (1 tot d)
  obtain b d1 where b: "backfill_api_costs_batch backfill_batch_size d = (Inr b, d1)"
    using batch_succeeds [OF 1(2,3)] by (metis prod.collapse)
  show ?case
  proof (cases rule: batch_cases [OF b 1(2)])
    case 1
    then have none: "pending_total d = 0" "bf_selected b = 0" using no_rows_pending by auto
    then have "price_all (t_logs d) = t_logs d"
      by (auto simp: price_all_def pending_total_def filter_empty_conv intro!: map_idI)
    with 1 b none show ?thesis by (simp add: backfill_loop.simps)
  next
    case (2 ds)
    let ?rows = "pending_rows backfill_batch_size d"
    have sel: "bf_selected b \<noteq> 0" "bf_updated b = length ?rows" using 2(1,2) by auto
    have "int (pending_total d1) + int (length ?rows) = int (pending_total d)"
    proof -
      have "int (length ?rows) = sum_list (map (\<lambda>_. 1) ?rows)" by (simp add: sum_list_triv)
      then show ?thesis
        unfolding pending_total_sum sum_all_rows [OF 1(2)] 2(3) map_map
        by simp (rule sum_list_split, auto simp: selected_def)
    qed
    then have total: "pending_total d = bf_updated b + pending_total d1" using sel(2) by simp
    have "pending_weight d1 \<le> pending_weight d"
      unfolding pending_weight_def 2(3) map_map by (rule sum_list_mono) (auto simp: selected_def weight_nonneg)
    moreover have "logs_ok d1" using batch_logs_ok [OF 1(2), of backfill_batch_size] b by simp
    ultimately have "\<exists>d'. backfill_loop (tot + bf_updated b) d1 = (Inr (tot + bf_updated b + pending_total d1), d')
        \<and> t_logs d' = price_all (t_logs d1) \<and> (metrics_ok d1 \<longrightarrow> metrics_ok d')"
      using 1(1) [OF b [symmetric] refl sel(1)] 1(3,4) total by simp
    moreover have "price_all (t_logs d1) = price_all (t_logs d)"
      by (auto simp: price_all_def 2(3) selected_def)
    moreover have "metrics_ok d \<longrightarrow> metrics_ok d1" using batch_metrics [of d backfill_batch_size] b by simp
    ultimately show ?thesis
      using b sel(1) 1(4) total by (subst backfill_loop.simps) (auto simp: add.assoc)
  qed
qed

text \<open>
  C29: the backfill finishes.  Unless the counters of the pending logs sum beyond 64 bits, it prices
  every pending log with the estimate of its own counters, leaves every other log as it was, reports
  how many logs it priced, and the account totals stay consistent.
\<close>

theorem backfill_completes:
  assumes "logs_ok d" "pending_weight d \<le> i64_max"
  shows "\<exists>d'. backfill_api_costs d = (Inr (pending_total d), d') \<and> t_logs d' = price_all (t_logs d)
     \<and> pending_total d' = 0 \<and> (metrics_ok d \<longrightarrow> metrics_ok d')"
proof -
  have "int (pending_total d) \<le> pending_weight d"
    unfolding pending_total_sum pending_weight_def by (rule sum_list_mono) (simp add: weight_pos)
  with assms(2) have "pending_total d < 2 ^ 64" by (simp add: i64_max_def)
  with backfill_loop_completes [OF assms, of 0]
  obtain d' where "backfill_api_costs d = (Inr (pending_total d), d')" "t_logs d' = price_all (t_logs d)"
    "metrics_ok d \<longrightarrow> metrics_ok d'" by (auto simp: backfill_api_costs_def)
  moreover from this(2) have "pending_total d' = 0"
    by (auto simp: pending_total_def price_all_def filter_empty_conv)
  ultimately show ?thesis by blast
qed

lemma backfill_completes_witness:
  "\<exists>d'. backfill_api_costs old_db = (Inr 1, d')
     \<and> map log_cost_upper (t_logs d') = [Some 14350000]"
proof -
  have "logs_ok old_db" using old_db_ok by (simp add: metrics_ok_def)
  moreover have "pending_weight old_db \<le> i64_max"
    by (simp add: pending_weight_def old_logs old_log_fields weight_def old_estimate priced_def or_default_def i64_max_def)
       (simp add: pending_of_def old_log_def new_log_row_def Let_def sample_log_def usage_default_def)
  moreover have "pending_total old_db = 1" by (simp add: pending_total_def old_logs old_log_fields)
  ultimately show ?thesis
    using backfill_completes [of old_db] by (auto simp: price_all_def old_logs old_log_fields old_estimate priced_def)
qed

end
