(* ===== verification/Usage.thy ===== *)
theory Usage
  imports Auth_File
begin

text \<open>
  Usage payloads and pace (\<open>src/usage.rs\<close>): the quota windows read from the upstream's JSON, and
  the pace metrics of a window.  An \<open>f64\<close> is an exact rational, an infinity or NaN; a panic is the
  value \<open>None\<close> of the parse.  chrono's checked addition is the parameter \<open>add\<close>, of a \<open>DateTime\<close> and
  a number of nanoseconds.
\<close>

section \<open>Floating-point numbers and their text\<close>

datatype f64 = Fin rat | Infinite bool | NaN

fun f64_clamp :: "rat \<Rightarrow> rat \<Rightarrow> f64 \<Rightarrow> f64" where
  "f64_clamp lo hi (Fin x) = Fin (if x < lo then lo else if hi < x then hi else x)"
| "f64_clamp lo hi (Infinite negative) = Fin (if negative then lo else hi)"
| "f64_clamp lo hi NaN = NaN"

definition split_sign :: "string \<Rightarrow> bool \<times> string" where
  "split_sign s = (case s of
     c # cs \<Rightarrow> if c = CHR ''-'' then (True, cs) else if c = CHR ''+'' then (False, cs) else (False, s)
   | [] \<Rightarrow> (False, []))"

definition scale10 :: "rat \<Rightarrow> int \<Rightarrow> rat" where
  "scale10 v e = (if 0 \<le> e then v * 10 ^ nat e else v / 10 ^ nat (- e))"

definition parse_exponent :: "string \<Rightarrow> int option" where
  "parse_exponent s = (case s of
     [] \<Rightarrow> Some 0
   | c # cs \<Rightarrow> if to_ascii_lower c \<noteq> CHR ''e'' then None
               else (let (neg, ds) = split_sign cs
                     in map_option (\<lambda>n. if neg then - int n else int n) (parse_digits ds)))"

definition parse_decimal :: "string \<Rightarrow> rat option" where
  "parse_decimal s =
     (let ints = takeWhile is_ascii_digit s;
          rest = dropWhile is_ascii_digit s;
          (frac, rest') = (case rest of
             c # cs \<Rightarrow> if c = CHR ''.'' then (takeWhile is_ascii_digit cs, dropWhile is_ascii_digit cs) else ([], rest)
           | [] \<Rightarrow> ([], []))
      in Option.bind (parse_digits (ints @ frac)) (\<lambda>n.
         map_option (\<lambda>e. scale10 (of_nat n) (e - int (length frac))) (parse_exponent rest')))"

definition parse_f64 :: "string \<Rightarrow> f64 option" where
  "parse_f64 s =
     (let (neg, body) = split_sign s; word = to_ascii_lowercase body
      in if word = ''inf'' \<or> word = ''infinity'' then Some (Infinite neg)
         else if word = ''nan'' then Some NaN
         else map_option (\<lambda>x. Fin (if neg then - x else x)) (parse_decimal body))"

section \<open>Windows\<close>

record 'f parsed_window =
  pw_quota_key :: string
  pw_quota_name :: string
  pw_source_slot :: string
  pw_window_kind :: string
  pw_used_percent :: 'f
  pw_window_seconds :: "int option"
  pw_reset_at :: "datetime option"

definition window_kind :: "string \<Rightarrow> int option \<Rightarrow> string" where
  "window_kind fallback seconds =
     (case seconds of
        None \<Rightarrow> fallback
      | Some v \<Rightarrow>
          if v = 18000 then ''5h'' else if v = 604800 then ''7d''
          else if v > 0 \<and> v mod 86400 = 0 then show_int (v div 86400) @ ''d''
          else if v > 0 \<and> v mod 3600 = 0 then show_int (v div 3600) @ ''h''
          else fallback)"

text \<open>One output character per character: the continuation bytes of a non-ASCII one are dropped.\<close>

definition continuation :: "char \<Rightarrow> bool" where
  "continuation c \<longleftrightarrow> 128 \<le> byte c \<and> byte c < 192"

definition normalize_key :: "string \<Rightarrow> string" where
  "normalize_key v =
     map (\<lambda>c. if is_ascii_alphanumeric c \<or> c = CHR ''_'' then c else CHR ''_'')
       (filter (\<lambda>c. \<not> continuation c) (to_ascii_lowercase (trim v)))"

definition number_of :: "json option \<Rightarrow> f64 option" where
  "number_of v = (case v of
     Some (JNumber n) \<Rightarrow> map_option Fin (as_f64 (JNumber n))
   | Some (JString s) \<Rightarrow> parse_f64 s
   | _ \<Rightarrow> None)"

definition integer_of :: "json option \<Rightarrow> int option" where
  "integer_of v = (case v of
     Some (JNumber n) \<Rightarrow> number_as_i64 n
   | Some (JString s) \<Rightarrow> parse_i64 s
   | _ \<Rightarrow> None)"

definition nanos_per_second :: int where
  "nanos_per_second = 10 ^ 9"

text \<open>\<open>now + Duration::seconds(seconds)\<close>: both the duration and the sum panic out of range.\<close>

definition plus_seconds :: "(datetime \<Rightarrow> int \<Rightarrow> datetime option) \<Rightarrow> datetime \<Rightarrow> int \<Rightarrow> datetime option" where
  "plus_seconds add now seconds =
     (if seconds * 1000 > i64_max then None else add now (seconds * nanos_per_second))"

definition window_reset ::
  "chrono \<Rightarrow> (datetime \<Rightarrow> int \<Rightarrow> datetime option) \<Rightarrow> datetime \<Rightarrow> json \<Rightarrow> datetime option option" where
  "window_reset ch add now w =
     (case Option.bind (integer_of (jget ''reset_at'' w)) (ts_seconds ch) of
        Some t \<Rightarrow> Some (Some t)
      | None \<Rightarrow> (case integer_of (jget ''reset_after_seconds'' w) of
          None \<Rightarrow> Some None
        | Some seconds \<Rightarrow> map_option Some (plus_seconds add now (max 0 seconds))))"

text \<open>The window of one slot: \<open>None\<close> when it panics, no window when it is absent or has no number.\<close>

definition slot_window ::
  "chrono \<Rightarrow> (datetime \<Rightarrow> int \<Rightarrow> datetime option) \<Rightarrow> datetime \<Rightarrow> string \<Rightarrow> string \<Rightarrow> json \<Rightarrow> string
     \<Rightarrow> (f64 parsed_window list) option" where
  "slot_window ch add now quota_key quota_name rate_limit kind =
     (case jget (kind @ ''_window'') rate_limit of
        None \<Rightarrow> Some []
      | Some w \<Rightarrow> (case number_of (jget ''used_percent'' w) of
          None \<Rightarrow> Some []
        | Some used \<Rightarrow>
            (let window_seconds = integer_of (jget ''limit_window_seconds'' w)
             in map_option (\<lambda>reset. [\<lparr>pw_quota_key = quota_key, pw_quota_name = quota_name,
                  pw_source_slot = kind, pw_window_kind = window_kind kind window_seconds,
                  pw_used_percent = f64_clamp 0 100 used, pw_window_seconds = window_seconds, pw_reset_at = reset\<rparr>])
                (window_reset ch add now w))))"

fun concat_options :: "('a list option) list \<Rightarrow> 'a list option" where
  "concat_options [] = Some []"
| "concat_options (x # xs) = Option.bind x (\<lambda>a. map_option (\<lambda>b. a @ b) (concat_options xs))"

definition append_rate_limit ::
  "chrono \<Rightarrow> (datetime \<Rightarrow> int \<Rightarrow> datetime option) \<Rightarrow> datetime \<Rightarrow> string \<Rightarrow> string \<Rightarrow> json option
     \<Rightarrow> (f64 parsed_window list) option" where
  "append_rate_limit ch add now quota_key quota_name rate_limit =
     (case rate_limit of
        Some (JObject m) \<Rightarrow>
          concat_options (map (slot_window ch add now quota_key quota_name (JObject m)) [''primary'', ''secondary''])
      | _ \<Rightarrow> Some [])"

definition non_blank_str :: "json option \<Rightarrow> string option" where
  "non_blank_str v = Option.bind v (\<lambda>x. Option.bind (as_str x) (\<lambda>s. if trim s = [] then None else Some s))"

definition additional_limit ::
  "chrono \<Rightarrow> (datetime \<Rightarrow> int \<Rightarrow> datetime option) \<Rightarrow> datetime \<Rightarrow> nat \<times> json \<Rightarrow> (f64 parsed_window list) option" where
  "additional_limit ch add now = (\<lambda>(index, additional).
     (let quota_name = or_default (non_blank_str (jget ''limit_name'' additional)) ''Additional quota'';
          quota_key = or_default (map_option normalize_key (non_blank_str (jget ''metered_feature'' additional)))
                        (''additional_'' @ show_nat index)
      in append_rate_limit ch add now quota_key quota_name (jget ''rate_limit'' additional)))"

fun retain_first :: "('a \<Rightarrow> 'k) \<Rightarrow> 'k list \<Rightarrow> 'a list \<Rightarrow> 'a list" where
  "retain_first key seen [] = []"
| "retain_first key seen (x # xs) =
     (if key x \<in> set seen then retain_first key seen xs else x # retain_first key (key x # seen) xs)"

definition window_key :: "'f parsed_window \<Rightarrow> string \<times> string" where
  "window_key w = (pw_quota_key w, pw_source_slot w)"

definition parse_usage_windows ::
  "chrono \<Rightarrow> (datetime \<Rightarrow> int \<Rightarrow> datetime option) \<Rightarrow> json \<Rightarrow> datetime \<Rightarrow> (f64 parsed_window list) option" where
  "parse_usage_windows ch add raw now =
     map_option (retain_first window_key [])
       (concat_options
         (append_rate_limit ch add now ''codex'' ''Codex'' (jget ''rate_limit'' raw)
          # append_rate_limit ch add now ''code_review'' ''Code review'' (jget ''code_review_rate_limit'' raw)
          # map (additional_limit ch add now)
              (enumerate 0 (or_default (Option.bind (jget ''additional_rate_limits'' raw) as_array) []))))"

section \<open>Pace\<close>

record pace_metrics =
  observed_percent_per_hour :: "rat option"
  sustainable_percent_per_hour :: "rat option"
  pace_ratio :: "rat option"
  headroom_percent :: "rat option"
  projected_exhaustion :: "datetime option"
  pace_risk :: string

text \<open>\<open>num_seconds\<close> and \<open>num_milliseconds\<close> truncate towards zero.\<close>

definition num_seconds :: "int \<Rightarrow> int" where
  "num_seconds nanos = nanos sdiv nanos_per_second"

definition num_milliseconds :: "int \<Rightarrow> int" where
  "num_milliseconds nanos = nanos sdiv 1000000"

definition same_reset_window :: "datetime option \<Rightarrow> datetime option \<Rightarrow> bool" where
  "same_reset_window left right =
     (case (left, right) of
        (Some l, Some r) \<Rightarrow> \<bar>num_seconds (l - r)\<bar> \<le> 300
      | (None, None) \<Rightarrow> True
      | _ \<Rightarrow> False)"

definition elapsed_window_percent :: "rat parsed_window \<Rightarrow> datetime \<Rightarrow> rat option" where
  "elapsed_window_percent w now =
     Option.bind (pw_window_seconds w) (\<lambda>length_seconds.
     Option.bind (pw_reset_at w) (\<lambda>reset.
       if length_seconds \<le> 0 then None
       else (let remaining = clamp 0 length_seconds (num_seconds (reset - now))
             in Some (min 100 (max 0 (of_int (length_seconds - remaining) / of_int length_seconds * 100))))))"

definition elapsed_window_ratio :: "rat parsed_window \<Rightarrow> datetime \<Rightarrow> rat option" where
  "elapsed_window_ratio w now =
     Option.bind (elapsed_window_percent w now) (\<lambda>elapsed.
       if elapsed \<le> 1 / 100 then None else Some (pw_used_percent w / elapsed))"

definition projected_exhaustion_at ::
  "(datetime \<Rightarrow> int \<Rightarrow> datetime option) \<Rightarrow> datetime \<Rightarrow> rat \<Rightarrow> rat option \<Rightarrow> datetime option" where
  "projected_exhaustion_at add fetched_at remaining observed =
     (case observed of
        None \<Rightarrow> None
      | Some rate \<Rightarrow>
          if rate \<le> 0 \<or> remaining \<le> 0 then None
          else (let milliseconds = \<lfloor>remaining / rate * 3600000 + 1 / 2\<rfloor>
                in if milliseconds \<le> 0 \<or> milliseconds > 2 ^ 63 then None
                   else add fetched_at (min i64_max milliseconds * 1000000)))"

definition observed_rate :: "rat parsed_window \<Rightarrow> datetime \<Rightarrow> rat \<times> datetime \<times> datetime option \<Rightarrow> rat option" where
  "observed_rate current fetched_at = (\<lambda>(used, recorded_at, reset_at).
     if \<not> same_reset_window reset_at (pw_reset_at current) \<or> pw_used_percent current < used then None
     else (let elapsed_hours = of_int (num_milliseconds (fetched_at - recorded_at)) / 3600000
           in if elapsed_hours \<ge> 1 / 4 \<and> (pw_used_percent current - used) / elapsed_hours \<ge> 0
              then Some ((pw_used_percent current - used) / elapsed_hours) else None))"

definition risk_of :: "rat \<Rightarrow> rat option \<Rightarrow> string" where
  "risk_of used ratio =
     (if used \<ge> 100 then ''critical'' else if used \<ge> 90 then ''danger'' else if used \<ge> 75 then ''warning''
      else (case ratio of
              None \<Rightarrow> ''unknown''
            | Some v \<Rightarrow> if v \<ge> 2 then ''danger'' else if v > 1 then ''warning'' else ''safe''))"

definition pace_metrics_of ::
  "(datetime \<Rightarrow> int \<Rightarrow> datetime option) \<Rightarrow> rat parsed_window \<Rightarrow> datetime
     \<Rightarrow> (rat \<times> datetime \<times> datetime option) option \<Rightarrow> pace_metrics" where
  "pace_metrics_of add current fetched_at previous =
     (let remaining = max 0 (100 - pw_used_percent current);
          remaining_hours = Option.bind (pw_reset_at current) (\<lambda>reset.
            let hours = of_int (max 0 (num_seconds (reset - fetched_at))) / 3600
            in if hours > 0 then Some hours else None);
          sustainable = map_option (\<lambda>hours. remaining / hours) remaining_hours;
          observed = Option.bind previous (observed_rate current fetched_at);
          ratio = (case (observed, sustainable) of
             (Some rate, Some safe) \<Rightarrow> if safe > 0 then Some (rate / safe) else elapsed_window_ratio current fetched_at
           | _ \<Rightarrow> elapsed_window_ratio current fetched_at)
      in \<lparr>observed_percent_per_hour = observed, sustainable_percent_per_hour = sustainable, pace_ratio = ratio,
          headroom_percent = map_option (\<lambda>elapsed. elapsed - pw_used_percent current) (elapsed_window_percent current fetched_at),
          projected_exhaustion = projected_exhaustion_at add fetched_at remaining observed,
          pace_risk = risk_of (pw_used_percent current) ratio\<rparr>)"

section \<open>What a parse returns\<close>

lemma retain_keys:
  "distinct (map key (retain_first key seen xs)) \<and> key ` set (retain_first key seen xs) \<inter> set seen = {}"
  by (induction key seen xs rule: retain_first.induct) auto

lemma retain_subset: "set (retain_first key seen xs) \<subseteq> set xs"
  by (induction key seen xs rule: retain_first.induct) auto

lemma retain_prefix:
  "distinct (map key xs) \<Longrightarrow> key ` set xs \<inter> set seen = {}
   \<Longrightarrow> retain_first key seen (xs @ ys) = xs @ retain_first key (rev (map key xs) @ seen) ys"
  by (induction xs arbitrary: seen) auto

definition used_ok :: "f64 \<Rightarrow> bool" where
  "used_ok u \<longleftrightarrow> (case u of NaN \<Rightarrow> True | Fin x \<Rightarrow> 0 \<le> x \<and> x \<le> 100 | Infinite _ \<Rightarrow> False)"

definition window_ok :: "f64 parsed_window \<Rightarrow> bool" where
  "window_ok w \<longleftrightarrow> pw_source_slot w \<in> {''primary'', ''secondary''} \<and> used_ok (pw_used_percent w)
     \<and> pw_window_kind w \<noteq> []"

lemma clamp_used_ok: "used_ok (f64_clamp 0 100 u)"
  by (cases u) (auto simp: used_ok_def)

lemma window_kind_nonempty: "kind \<noteq> [] \<Longrightarrow> window_kind kind s \<noteq> []"
  by (auto simp: window_kind_def split: option.splits)

lemma slot_window_ok:
  assumes "slot_window ch add now qk qn rl kind = Some ws" "kind \<in> {''primary'', ''secondary''}"
  shows "(\<forall>w \<in> set ws. window_ok w \<and> pw_source_slot w = kind \<and> pw_quota_key w = qk) \<and> length ws \<le> 1"
  using assms(1)
proof -
  have "kind \<noteq> []" using assms(2) by auto
  with assms show ?thesis
    by (auto simp: slot_window_def Let_def window_ok_def clamp_used_ok window_kind_nonempty split: option.splits)
qed

lemma concat_options_Some:
  "concat_options xs = Some ys \<Longrightarrow> \<exists>yss. xs = map Some yss \<and> ys = concat yss"
proof (induction xs arbitrary: ys)
  case (Cons x xs)
  then obtain a b where "x = Some a" "concat_options xs = Some b" "ys = a @ b"
    by (auto simp: bind_eq_Some_conv)
  with Cons.IH [OF this(2)] show ?case by (auto intro: exI [of _ "a # _"])
qed simp

lemma distinct_two_slots:
  assumes "length xs \<le> 1" "length ys \<le> 1" "f ` set xs \<inter> f ` set ys = {}"
  shows "distinct (map f (xs @ ys))"
proof -
  have "distinct (map f zs)" if "length zs \<le> 1" for zs using that by (cases zs) auto
  with assms show ?thesis by simp
qed

lemma append_rate_limit_ok:
  assumes "append_rate_limit ch add now qk qn rl = Some ws"
  shows "(\<forall>w \<in> set ws. window_ok w \<and> pw_quota_key w = qk) \<and> distinct (map window_key ws)"
proof (cases "\<exists>m. rl = Some (JObject m)")
  case False
  with assms show ?thesis by (auto simp: append_rate_limit_def split: option.splits json.splits)
next
  case True
  then obtain m where "rl = Some (JObject m)" by blast
  with assms obtain a b where a: "slot_window ch add now qk qn (JObject m) ''primary'' = Some a"
    and b: "slot_window ch add now qk qn (JObject m) ''secondary'' = Some b" and ws: "ws = a @ b"
    by (auto simp: append_rate_limit_def bind_eq_Some_conv)
  have ao: "\<And>w. w \<in> set a \<Longrightarrow> window_ok w \<and> pw_source_slot w = ''primary'' \<and> pw_quota_key w = qk" "length a \<le> 1"
    and bo: "\<And>w. w \<in> set b \<Longrightarrow> window_ok w \<and> pw_source_slot w = ''secondary'' \<and> pw_quota_key w = qk" "length b \<le> 1"
    using slot_window_ok [OF a] slot_window_ok [OF b] by auto
  have "window_key ` set a \<subseteq> {(qk, ''primary'')}" "window_key ` set b \<subseteq> {(qk, ''secondary'')}"
    using ao(1) bo(1) by (auto simp: window_key_def)
  then have "window_key ` set a \<inter> window_key ` set b = {}" by auto
  from distinct_two_slots [OF ao(2) bo(2) this] show ?thesis unfolding ws using ao(1) bo(1) by auto
qed

lemma parse_windows_cases:
  assumes "parse_usage_windows ch add raw now = Some ws"
  obtains codex rest where "append_rate_limit ch add now ''codex'' ''Codex'' (jget ''rate_limit'' raw) = Some codex"
    "ws = retain_first window_key [] (codex @ rest)" "\<forall>w \<in> set (codex @ rest). window_ok w"
proof -
  let ?extra = "map (additional_limit ch add now)
    (enumerate 0 (or_default (Option.bind (jget ''additional_rate_limits'' raw) as_array) []))"
  from assms obtain codex review extra
    where c: "append_rate_limit ch add now ''codex'' ''Codex'' (jget ''rate_limit'' raw) = Some codex"
    and r: "append_rate_limit ch add now ''code_review'' ''Code review'' (jget ''code_review_rate_limit'' raw) = Some review"
    and e: "concat_options ?extra = Some extra" and ws: "ws = retain_first window_key [] (codex @ review @ extra)"
    by (auto simp: parse_usage_windows_def bind_eq_Some_conv)
  obtain yss where yss: "?extra = map Some yss" "extra = concat yss" using concat_options_Some [OF e] by blast
  have "window_ok w" if w: "w \<in> set extra" for w
  proof -
    from w yss(2) obtain ys where "ys \<in> set yss" "w \<in> set ys" by auto
    with arg_cong [OF yss(1), of set] have "Some ys \<in> set ?extra" by simp
    then obtain x where "additional_limit ch add now x = Some ys" by auto
    with append_rate_limit_ok \<open>w \<in> set ys\<close> show ?thesis
      by (cases x) (fastforce simp: additional_limit_def Let_def)
  qed
  with append_rate_limit_ok [OF c] append_rate_limit_ok [OF r]
  have "\<forall>w \<in> set (codex @ review @ extra). window_ok w" by auto
  with that [OF c ws] show thesis by simp
qed

lemma parsed_windows_shape:
  assumes "parse_usage_windows ch add raw now = Some ws"
  shows "distinct (map window_key ws) \<and> (\<forall>w \<in> set ws. window_ok w)"
proof (rule parse_windows_cases [OF assms])
  fix codex rest
  assume ws: "ws = retain_first window_key [] (codex @ rest)" and ok: "\<forall>w \<in> set (codex @ rest). window_ok w"
  have "distinct (map window_key ws)" unfolding ws using retain_keys by blast
  moreover have "\<forall>w \<in> set ws. window_ok w" unfolding ws using retain_subset [of window_key "[]" "codex @ rest"] ok by blast
  ultimately show ?thesis by blast
qed

text \<open>
  The windows read from a usage payload have distinct keys (quota and slot), a percentage
  between 0 and 100 (unless the payload's text was \<open>nan\<close>) and a kind; the Codex windows come from
  the main rate limit, in order: no additional limit that names the same quota replaces one.
\<close>

lemma parsed_windows_distinct:
  assumes "parse_usage_windows ch add raw now = Some ws"
  shows "distinct (map window_key ws) \<and> (\<forall>w \<in> set ws. window_ok w)
     \<and> (\<exists>codex rest. append_rate_limit ch add now ''codex'' ''Codex'' (jget ''rate_limit'' raw) = Some codex
          \<and> ws = codex @ rest \<and> (\<forall>w \<in> set rest. window_key w \<notin> window_key ` set codex))"
proof (rule parse_windows_cases [OF assms])
  fix codex rest
  assume c: "append_rate_limit ch add now ''codex'' ''Codex'' (jget ''rate_limit'' raw) = Some codex"
    and ws: "ws = retain_first window_key [] (codex @ rest)"
  have "ws = codex @ retain_first window_key (rev (map window_key codex)) rest"
    unfolding ws using retain_prefix [of window_key codex "[]" rest] append_rate_limit_ok [OF c] by simp
  moreover have "\<forall>w \<in> set (retain_first window_key (rev (map window_key codex)) rest). window_key w \<notin> window_key ` set codex"
    using retain_keys [of window_key "rev (map window_key codex)" rest] by auto
  ultimately show ?thesis using c parsed_windows_shape [OF assms] by blast
qed

definition sample_usage :: json where
  "sample_usage = JObject [(''rate_limit'', JObject [(''primary_window'', JObject [(''used_percent'', JNumber (PosInt 40)),
     (''limit_window_seconds'', JNumber (PosInt 18000)), (''reset_after_seconds'', JNumber (PosInt 60))])])]"

lemma sample_usage_parse:
  "parse_usage_windows plain_chrono (\<lambda>t n. Some (t + n)) sample_usage 0
     = Some [\<lparr>pw_quota_key = ''codex'', pw_quota_name = ''Codex'', pw_source_slot = ''primary'', pw_window_kind = ''5h'',
             pw_used_percent = Fin 40, pw_window_seconds = Some 18000, pw_reset_at = Some 60000000000\<rparr>]"
  by (simp add: parse_usage_windows_def sample_usage_def jget_def append_rate_limit_def slot_window_def number_of_def
      integer_of_def window_reset_def plus_seconds_def nanos_per_second_def window_kind_def or_default_def
      i64_of_def in_i64_def i64_min_def i64_max_def window_key_def Let_def)

lemma parsed_windows_distinct_witness:
  "\<exists>ws. parse_usage_windows plain_chrono (\<lambda>t n. Some (t + n)) sample_usage 0 = Some ws \<and> ws \<noteq> [] \<and> (\<forall>w \<in> set ws. window_ok w)"
  using parsed_windows_distinct [OF sample_usage_parse] sample_usage_parse by auto

text \<open>
  A usage payload can make the parser panic: with a window that resets after the largest 64-bit
  number of seconds there is no result, whatever the clock and the other functions of chrono.
\<close>

lemma huge_reset_panics:
  "parse_usage_windows ch add
     (JObject [(''rate_limit'', JObject [(''primary_window'', JObject [(''used_percent'', JNumber (PosInt 1)),
        (''reset_after_seconds'', JNumber (PosInt (2 ^ 63 - 1)))])])]) now = None"
  by (simp add: parse_usage_windows_def jget_def append_rate_limit_def slot_window_def number_of_def
      integer_of_def window_reset_def plus_seconds_def or_default_def
      i64_of_def in_i64_def i64_min_def i64_max_def Let_def)

section \<open>What the pace metrics say\<close>

lemma num_seconds_bounds:
  assumes "0 < num_seconds d"
  shows "num_seconds d * 1000000000 \<le> d \<and> d < num_seconds d * 1000000000 + 1000000000"
proof -
  have "0 < d" using assms by (cases "0 < d") (auto simp: num_seconds_def nanos_per_second_def signed_divide_int_def sgn_if split: if_splits)
  then have "num_seconds d = d div 1000000000"
    by (simp add: num_seconds_def nanos_per_second_def signed_divide_int_def)
  moreover have "d = d div 1000000000 * 1000000000 + d mod 1000000000" by simp
  moreover have "0 \<le> d mod 1000000000" "d mod 1000000000 < 1000000000" by simp_all
  ultimately show ?thesis by (metis add_le_cancel_left add_less_cancel_left add_0_right)
qed

lemma round_half_le: "x \<le> of_int n \<Longrightarrow> \<lfloor>x + 1 / 2\<rfloor> \<le> n" for x :: rat
  by linarith

lemma round_half_ge: "of_int n \<le> x \<Longrightarrow> n \<le> \<lfloor>x + 1 / 2\<rfloor>" for x :: rat
  by linarith

lemma sustainable_rate_pos:
  assumes "sustainable_percent_per_hour (pace_metrics_of add w fetched previous) = Some safe" "0 < safe"
  obtains reset where "pw_reset_at w = Some reset" "0 < num_seconds (reset - fetched)"
    "safe = max 0 (100 - pw_used_percent w) / (of_int (num_seconds (reset - fetched)) / 3600)"
    "0 < max 0 (100 - pw_used_percent w)"
proof -
  from assms(1) obtain reset where r: "pw_reset_at w = Some reset"
    and pos: "0 < (of_int (max 0 (num_seconds (reset - fetched))) / 3600 :: rat)"
    and safe: "safe = max 0 (100 - pw_used_percent w) / (of_int (max 0 (num_seconds (reset - fetched))) / 3600)"
    by (auto simp: pace_metrics_of_def Let_def bind_eq_Some_conv split: if_splits)
  from pos have n: "0 < num_seconds (reset - fetched)" by (auto simp: max_def split: if_splits)
  have "max 0 (100 - pw_used_percent w) \<noteq> 0" using assms(2) unfolding safe by fastforce
  then have "0 < max 0 (100 - pw_used_percent w)" by linarith
  with that r n safe show thesis by simp
qed

lemma projected_exhaustion_cases:
  assumes "projected_exhaustion (pace_metrics_of add w fetched previous) = Some t"
    "observed_percent_per_hour (pace_metrics_of add w fetched previous) = Some rate"
  obtains ms where "ms = \<lfloor>max 0 (100 - pw_used_percent w) / rate * 3600000 + 1 / 2\<rfloor>"
    "0 < rate" "ms \<le> 2 ^ 63" "add fetched (min i64_max ms * 1000000) = Some t"
proof -
  have o: "Option.bind previous (observed_rate w fetched) = Some rate"
    using assms(2) by (simp add: pace_metrics_of_def Let_def)
  have "projected_exhaustion_at add fetched (max 0 (100 - pw_used_percent w)) (Some rate) = Some t"
    using assms(1) unfolding pace_metrics_of_def Let_def pace_metrics.select_convs o .
  with that show thesis
    by (simp add: projected_exhaustion_at_def Let_def split: if_splits)
qed

lemma pace_ratio_of_rates:
  "observed_percent_per_hour (pace_metrics_of add w fetched previous) = Some rate
   \<Longrightarrow> sustainable_percent_per_hour (pace_metrics_of add w fetched previous) = Some safe \<Longrightarrow> 0 < safe
   \<Longrightarrow> pace_ratio (pace_metrics_of add w fetched previous) = Some (rate / safe)"
  unfolding pace_metrics_of_def Let_def pace_metrics.select_convs by (simp only: prod.case option.case if_True)

text \<open>
  For a window with an observed and a sustainable rate, the projected exhaustion agrees with the
  ratio: over pace (a ratio above 1) it is no later than the reset and the risk is at least a warning;
  at or under pace it is not more than a second before the reset (the remaining time is counted in
  whole seconds).
\<close>

lemma projection_agrees_with_ratio:
  assumes exact: "\<And>t n u. add t n = Some u \<Longrightarrow> u = t + n"
    and m: "m = pace_metrics_of add w fetched previous"
    and o: "observed_percent_per_hour m = Some rate"
    and s: "sustainable_percent_per_hour m = Some safe" "0 < safe"
    and t: "projected_exhaustion m = Some t"
  shows "\<exists>reset ratio. pw_reset_at w = Some reset \<and> pace_ratio m = Some ratio
     \<and> (1 < ratio \<longrightarrow> t \<le> reset \<and> pace_risk m \<in> {''critical'', ''danger'', ''warning''})
     \<and> (ratio \<le> 1 \<longrightarrow> reset < t + nanos_per_second)"
proof -
  from s obtain reset where r: "pw_reset_at w = Some reset" and n: "0 < num_seconds (reset - fetched)"
    and safe: "safe = max 0 (100 - pw_used_percent w) / (of_int (num_seconds (reset - fetched)) / 3600)"
    and left: "0 < max 0 (100 - pw_used_percent w)" unfolding m by (rule sustainable_rate_pos)
  from t o obtain ms where ms: "ms = \<lfloor>max 0 (100 - pw_used_percent w) / rate * 3600000 + 1 / 2\<rfloor>"
    and rate: "0 < rate" and cap: "ms \<le> 2 ^ 63" and added: "add fetched (min i64_max ms * 1000000) = Some t"
    unfolding m by (rule projected_exhaustion_cases)
  have t_eq: "t = fetched + min i64_max ms * 1000000" using exact [OF added] .
  have ratio: "pace_ratio m = Some (rate / safe)"
    using pace_ratio_of_rates o s unfolding m .
  note b = num_seconds_bounds [OF n]
  show ?thesis
  proof (intro exI conjI impI)
    assume over: "1 < rate / safe"
    have "max 0 (100 - pw_used_percent w) / rate * 3600000 \<le> of_int (num_seconds (reset - fetched) * 1000)"
      using over s(2) rate n unfolding safe by (simp add: field_simps)
    from round_half_le [OF this] have "ms \<le> num_seconds (reset - fetched) * 1000" unfolding ms .
    then show "t \<le> reset" using b unfolding t_eq by linarith
    show "pace_risk m \<in> {''critical'', ''danger'', ''warning''}"
      using over ratio unfolding m by (auto simp: pace_metrics_of_def Let_def risk_of_def)
  next
    assume under: "rate / safe \<le> 1"
    have "of_int (num_seconds (reset - fetched) * 1000) \<le> max 0 (100 - pw_used_percent w) / rate * 3600000"
      using under s(2) rate n unfolding safe by (simp add: field_simps)
    from round_half_ge [OF this] have "num_seconds (reset - fetched) * 1000 \<le> ms" unfolding ms .
    moreover have "num_seconds (reset - fetched) \<le> 9223372036854775"
      using \<open>num_seconds (reset - fetched) * 1000 \<le> ms\<close> cap by simp
    ultimately have "num_seconds (reset - fetched) * 1000 \<le> min i64_max ms" by (simp add: i64_max_def)
    moreover have "nanos_per_second = 1000000000" by (simp add: nanos_per_second_def)
    moreover have "num_seconds (reset - fetched) * 1000000000 \<le> min i64_max ms * 1000000"
      using \<open>num_seconds (reset - fetched) * 1000 \<le> min i64_max ms\<close> by linarith
    ultimately show "reset < t + nanos_per_second" using b unfolding t_eq by linarith
  qed (use r ratio in auto)
qed

definition sample_window :: "rat parsed_window" where
  "sample_window = \<lparr>pw_quota_key = ''codex'', pw_quota_name = ''Codex'', pw_source_slot = ''primary'', pw_window_kind = ''5h'',
     pw_used_percent = 50, pw_window_seconds = Some 18000, pw_reset_at = Some (7200 * nanos_per_second)\<rparr>"

definition sample_previous :: "(rat \<times> datetime \<times> datetime option) option" where
  "sample_previous = Some (20, - 1800 * nanos_per_second, Some (7200 * nanos_per_second))"

lemma sample_pace:
  "pace_metrics_of (\<lambda>t n. Some (t + n)) sample_window 0 sample_previous
     = \<lparr>observed_percent_per_hour = Some 60, sustainable_percent_per_hour = Some 25, pace_ratio = Some (60 / 25),
        headroom_percent = Some (60 - 50), projected_exhaustion = Some (3000 * nanos_per_second), pace_risk = ''danger''\<rparr>"
  by code_simp

lemma projection_agrees_with_ratio_witness:
  "\<exists>reset ratio. pw_reset_at sample_window = Some reset
     \<and> pace_ratio (pace_metrics_of (\<lambda>t n. Some (t + n)) sample_window 0 sample_previous) = Some ratio
     \<and> (1 < ratio \<longrightarrow> 3000 * nanos_per_second \<le> reset
           \<and> pace_risk (pace_metrics_of (\<lambda>t n. Some (t + n)) sample_window 0 sample_previous) \<in> {''critical'', ''danger'', ''warning''})
     \<and> (ratio \<le> 1 \<longrightarrow> reset < 3000 * nanos_per_second + nanos_per_second)"
  by (rule projection_agrees_with_ratio [OF _ refl, where rate = 60 and safe = 25])
    (simp_all add: sample_pace)

end
