(* ===== verification/Usage_Store.thy ===== *)
theory Usage_Store
  imports Usage Request_Log
begin

text \<open>
  The usage tables of the store and the pruning of history (\<open>src/db.rs\<close>): the windows an account
  has now, the samples and snapshots kept of them, the overview of accounts, and the rows that are
  dropped when they are older than the retention time.
\<close>

section \<open>Snapshots\<close>

definition insert_usage_snapshot ::
  "sqlite \<Rightarrow> instant \<Rightarrow> uuid \<Rightarrow> rat option \<Rightarrow> int option \<Rightarrow> int option \<Rightarrow> datetime option \<Rightarrow> json \<Rightarrow> db
     \<Rightarrow> usage_snapshot app_result \<times> db" where
  "insert_usage_snapshot q now aid used inp outp reset raw d =
     (if \<not> account_exists aid d then (Inl fk_error, d)
      else (let row_id = seq_snapshots d + 1;
                row = \<lparr>snp_id = row_id, snp_account = aid, snp_recorded_at = now_text q now,
                       snp_used_percent = used, snp_input = inp, snp_output = outp,
                       snp_reset_at = map_option (dt_text q) reset, snp_raw = raw\<rparr>
            in (Inr row, d\<lparr>t_snapshots := t_snapshots d @ [row], seq_snapshots := row_id\<rparr>)))"

text \<open>\<open>ORDER BY recorded_at DESC, id DESC\<close>.\<close>

definition list_usage_for_account :: "uuid \<Rightarrow> int \<Rightarrow> db \<Rightarrow> usage_snapshot list" where
  "list_usage_for_account aid limit d =
     take (nat (clamp 1 500 limit))
       (rev (sort_key (\<lambda>s. (snp_recorded_at s, snp_id s)) (filter (\<lambda>s. snp_account s = aid) (t_snapshots d))))"

section \<open>Windows\<close>

text \<open>A percentage is bound as a REAL; SQLite stores NaN as NULL.  (Infinities do not get past the
  clamp of the parser.)\<close>

fun sql_real :: "f64 \<Rightarrow> rat option" where
  "sql_real (Fin x) = Some x"
| "sql_real (Infinite _) = None"
| "sql_real NaN = None"

definition not_null_error :: "string \<Rightarrow> app_error" where
  "not_null_error col = Database (''NOT NULL constraint failed: '' @ col)"

definition window_row :: "sqlite \<Rightarrow> uuid \<Rightarrow> datetime \<Rightarrow> rat \<Rightarrow> 'f parsed_window \<Rightarrow> usage_window" where
  "window_row q aid fetched_at used w =
     \<lparr>w_account = aid, w_quota_key = pw_quota_key w, w_quota_name = pw_quota_name w,
      w_source_slot = pw_source_slot w, w_kind = pw_window_kind w, w_used_percent = used,
      w_window_seconds = pw_window_seconds w, w_reset_at = map_option (dt_text q) (pw_reset_at w),
      w_fetched_at = dt_text q fetched_at\<rparr>"

definition window_pk :: "usage_window \<Rightarrow> uuid \<times> string \<times> string" where
  "window_pk w = (w_account w, w_quota_key w, w_source_slot w)"

definition sample_row :: "int \<Rightarrow> usage_window \<Rightarrow> usage_sample" where
  "sample_row row_id w =
     \<lparr>smp_id = row_id, smp_account = w_account w, smp_quota_key = w_quota_key w, smp_source_slot = w_source_slot w,
      smp_kind = w_kind w, smp_used_percent = w_used_percent w, smp_reset_at = w_reset_at w,
      smp_recorded_at = w_fetched_at w\<rparr>"

definition insert_window :: "sqlite \<Rightarrow> uuid \<Rightarrow> datetime \<Rightarrow> f64 parsed_window \<Rightarrow> db \<Rightarrow> db app_result" where
  "insert_window q aid fetched_at w d =
     (case sql_real (pw_used_percent w) of
        None \<Rightarrow> Inl (not_null_error ''usage_windows.used_percent'')
      | Some used \<Rightarrow>
          (let row = window_row q aid fetched_at used w
           in if list_ex (\<lambda>x. window_pk x = window_pk row) (t_windows d)
              then Inl (unique_error ''usage_windows.account_id, usage_windows.quota_key, usage_windows.source_slot'')
              else if \<not> account_exists aid d then Inl fk_error
              else Inr (d\<lparr>t_windows := t_windows d @ [row],
                          t_samples := t_samples d @ [sample_row (seq_samples d + 1) row],
                          seq_samples := seq_samples d + 1\<rparr>)))"

fun insert_windows :: "sqlite \<Rightarrow> uuid \<Rightarrow> datetime \<Rightarrow> f64 parsed_window list \<Rightarrow> db \<Rightarrow> db app_result" where
  "insert_windows q aid fetched_at [] d = Inr d"
| "insert_windows q aid fetched_at (w # ws) d =
     app_bind (insert_window q aid fetched_at w d) (insert_windows q aid fetched_at ws)"

definition usage_refreshed :: "sqlite \<Rightarrow> instant \<Rightarrow> string option \<Rightarrow> datetime \<Rightarrow> account \<Rightarrow> account" where
  "usage_refreshed q now plan fetched_at a =
     (let limited = acc_status a = ''rate_limited'' \<or> acc_status a = ''quota_exceeded''
      in a\<lparr>acc_plan := or_default plan (acc_plan a), acc_usage_refresh_at := Some (dt_text q fetched_at),
           acc_usage_error := None, acc_status := (if limited then ''active'' else acc_status a),
           acc_status_reason := (if limited then None else acc_status_reason a),
           acc_updated_at := now_text q now\<rparr>)"

definition replace_usage_windows ::
  "sqlite \<Rightarrow> instant \<Rightarrow> uuid \<Rightarrow> string option \<Rightarrow> datetime \<Rightarrow> f64 parsed_window list \<Rightarrow> db \<Rightarrow> unit app_result \<times> db" where
  "replace_usage_windows q now aid plan fetched_at ws d =
     (if \<not> list_ex (\<lambda>w. pw_quota_key w = ''codex'') ws
      then (Inl (Upstream ''usage response did not contain a Codex quota window''), d)
      else case insert_windows q aid fetched_at ws (d\<lparr>t_windows := tbl_delete (\<lambda>w. w_account w = aid) (t_windows d)\<rparr>) of
             Inl e \<Rightarrow> (Inl e, d)
           | Inr d' \<Rightarrow> (Inr (), update_acc aid (usage_refreshed q now plan fetched_at) d'))"

text \<open>\<open>ORDER BY account_id, quota_key, window_seconds ASC, window_kind\<close>, NULL first.\<close>

definition list_usage_windows :: "db \<Rightarrow> usage_window list" where
  "list_usage_windows d =
     sort_key (\<lambda>w. (w_account w, w_quota_key w, w_window_seconds w \<noteq> None, or_default (w_window_seconds w) 0, w_kind w))
       (t_windows d)"

text \<open>\<open>julianday(t, '-15 minutes')\<close> is 900 seconds back.\<close>

definition previous_usage_sample :: "sqlite \<Rightarrow> usage_window \<Rightarrow> db \<Rightarrow> usage_sample option" where
  "previous_usage_sample q w d =
     (let rows = filter (\<lambda>s. smp_account s = w_account w \<and> smp_quota_key s = w_quota_key w
                   \<and> smp_source_slot s = w_source_slot w
                   \<and> jd_le (jd q (smp_recorded_at s)) (jd_back q (w_fetched_at w) 900)) (t_samples d)
      in if rows = [] then None else Some (last (sort_key (\<lambda>s. (smp_recorded_at s, smp_id s)) rows)))"

section \<open>The overview of accounts\<close>

record account_summary =
  sum_id :: uuid
  sum_chatgpt_id :: "string option"
  sum_label :: string
  sum_email :: string
  sum_plan :: string
  sum_status :: string
  sum_status_reason :: "string option"
  sum_last_refresh_at :: string
  sum_expires_at :: "string option"
  sum_usage_refresh_at :: "string option"
  sum_usage_error :: "string option"
  sum_created_at :: string
  sum_latest_used :: "rat option"
  sum_latest_reset :: "string option"
  sum_requests :: int
  sum_input :: int
  sum_cached :: int
  sum_cache_write :: int
  sum_output :: int
  sum_cost_lower :: int
  sum_cost_upper :: int
  sum_complete :: int
  sum_partial :: int
  sum_unpriced :: int
  sum_last_selected_at :: "string option"
  sum_last_request_at :: "string option"
  sum_cooldown_until :: "string option"
  sum_cooldown_reason :: "string option"
  sum_inflight :: int

definition least_of :: "'a::linorder list \<Rightarrow> 'a option" where
  "least_of xs = (case xs of [] \<Rightarrow> None | y # ys \<Rightarrow> Some (fold min ys y))"

definition summary_of :: "db \<Rightarrow> account \<Rightarrow> account_summary" where
  "summary_of d a =
     (let r = get_runtime (acc_id a) d;
          codex = codex_windows d (acc_id a);
          counter = (\<lambda>f. or_default (map_option f r) 0)
      in \<lparr>sum_id = acc_id a, sum_chatgpt_id = acc_chatgpt_id a, sum_label = acc_label a, sum_email = acc_email a,
          sum_plan = acc_plan a, sum_status = acc_status a, sum_status_reason = acc_status_reason a,
          sum_last_refresh_at = acc_last_refresh_at a, sum_expires_at = acc_expires_at a,
          sum_usage_refresh_at = acc_usage_refresh_at a, sum_usage_error = acc_usage_error a,
          sum_created_at = acc_created_at a, sum_latest_used = max_of (map w_used_percent codex),
          sum_latest_reset = least_of (List.map_filter w_reset_at codex),
          sum_requests = counter rt_requests, sum_input = counter rt_input, sum_cached = counter rt_cached,
          sum_cache_write = counter rt_cache_write, sum_output = counter rt_output,
          sum_cost_lower = counter rt_cost_lower, sum_cost_upper = counter rt_cost_upper,
          sum_complete = counter rt_complete, sum_partial = counter rt_partial, sum_unpriced = counter rt_unpriced,
          sum_last_selected_at = Option.bind r rt_last_selected_at, sum_last_request_at = Option.bind r rt_last_request_at,
          sum_cooldown_until = Option.bind r rt_cooldown_until, sum_cooldown_reason = Option.bind r rt_cooldown_reason,
          sum_inflight = counter rt_inflight\<rparr>)"

definition list_accounts :: "db \<Rightarrow> account_summary list" where
  "list_accounts d = map (summary_of d) (sort_key acc_created_at (t_accounts d))"

section \<open>Pruning\<close>

definition prune_history :: "sqlite \<Rightarrow> instant \<Rightarrow> int \<Rightarrow> db \<Rightarrow> db" where
  "prune_history q now retention_days d =
     (let days = clamp 1 365 retention_days; limit = now_back_days q now days
      in d\<lparr>t_samples := tbl_delete (\<lambda>s. smp_recorded_at s < limit) (t_samples d),
           t_snapshots := tbl_delete (\<lambda>s. snp_recorded_at s < limit) (t_snapshots d),
           t_affinity := tbl_delete (\<lambda>f. jd_gt (Some (now_jd now - of_int days)) (jd q (af_last_used_at f))) (t_affinity d),
           t_logs := tbl_delete (\<lambda>l. log_created_at l < limit) (t_logs d)\<rparr>)"

section \<open>A refresh stores what was parsed\<close>

definition stored_rows :: "sqlite \<Rightarrow> uuid \<Rightarrow> datetime \<Rightarrow> f64 parsed_window list \<Rightarrow> usage_window list" where
  "stored_rows q aid fetched_at ws =
     List.map_filter (\<lambda>w. map_option (\<lambda>used. window_row q aid fetched_at used w) (sql_real (pw_used_percent w))) ws"

lemma stored_rows_simps [simp]:
  "stored_rows q aid t [] = []"
  "sql_real (pw_used_percent w) = Some u \<Longrightarrow> stored_rows q aid t (w # ws) = window_row q aid t u w # stored_rows q aid t ws"
  by (simp_all add: stored_rows_def map_filter_simps)

lemma window_pk_row [simp]: "window_pk (window_row q aid t u w) = (aid, window_key w)"
  by (simp add: window_pk_def window_row_def window_key_def)

definition samples_from :: "int \<Rightarrow> usage_window list \<Rightarrow> usage_sample list" where
  "samples_from n rows = map (\<lambda>(i, w). sample_row (n + 1 + int i) w) (enumerate 0 rows)"

lemma samples_from_simps [simp]:
  "samples_from n [] = []" "samples_from n (r # rows) = sample_row (n + 1) r # samples_from (n + 1) rows"
  by (simp_all add: samples_from_def enumerate_Suc_eq comp_def split_beta algebra_simps)

lemma insert_windows_stores:
  assumes "account_exists aid d" "distinct (map window_key ws)" "\<forall>w \<in> set ws. sql_real (pw_used_percent w) \<noteq> None"
    and "\<forall>w \<in> set ws. \<forall>x \<in> set (t_windows d). window_pk x \<noteq> (aid, window_key w)"
  shows "insert_windows q aid t ws d =
     Inr (d\<lparr>t_windows := t_windows d @ stored_rows q aid t ws,
            t_samples := t_samples d @ samples_from (seq_samples d) (stored_rows q aid t ws),
            seq_samples := seq_samples d + int (length ws)\<rparr>)"
  using assms
proof (induction ws arbitrary: d)
  case (Cons w ws)
  from Cons.prems(3) obtain u where u: "sql_real (pw_used_percent w) = Some u" by auto
  let ?row = "window_row q aid t u w"
  let ?d = "d\<lparr>t_windows := t_windows d @ [?row], t_samples := t_samples d @ [sample_row (seq_samples d + 1) ?row],
               seq_samples := seq_samples d + 1\<rparr>"
  have "\<not> list_ex (\<lambda>x. window_pk x = window_pk ?row) (t_windows d)"
    using Cons.prems(4) by (auto simp: list_ex_iff)
  with u Cons.prems(1) have i: "insert_window q aid t w d = Inr ?d" by (simp add: insert_window_def Let_def)
  have "insert_windows q aid t ws ?d = Inr (?d\<lparr>t_windows := t_windows ?d @ stored_rows q aid t ws,
            t_samples := t_samples ?d @ samples_from (seq_samples ?d) (stored_rows q aid t ws),
            seq_samples := seq_samples ?d + int (length ws)\<rparr>)"
    by (rule Cons.IH) (use Cons.prems in \<open>auto simp: account_exists_def\<close>)
  then show ?case using u by (simp add: i)
qed simp

lemma usage_refreshed_keys:
  "acc_id (usage_refreshed q now plan t a) = acc_id a \<and> acc_chatgpt_id (usage_refreshed q now plan t a) = acc_chatgpt_id a"
  by (simp add: usage_refreshed_def Let_def)

lemma stored_rows_account: "w \<in> set (stored_rows q aid t ws) \<Longrightarrow> w_account w = aid"
  by (auto simp: stored_rows_def map_filter_def window_row_def)

lemma stored_rows_pks:
  "\<forall>w \<in> set ws. sql_real (pw_used_percent w) \<noteq> None \<Longrightarrow> map window_pk (stored_rows q aid t ws) = map (\<lambda>w. (aid, window_key w)) ws"
  by (induction ws) (auto simp: stored_rows_def map_filter_simps)

lemma samples_from_account: "s \<in> set (samples_from n rows) \<Longrightarrow> \<exists>w \<in> set rows. smp_account s = w_account w"
  by (auto simp: samples_from_def in_set_enumerate_eq sample_row_def)

text \<open>
  The windows of a usage payload that names a Codex window and gives every percentage a number
  are all stored: after the refresh the account has exactly these windows, in order, the windows of
  other accounts are untouched, one sample is added per window, an account that was rate limited or
  out of quota is active again, and the store stays well-formed.
\<close>

lemma parsed_usage_is_stored:
  assumes ok: "db_ok d" and a: "get_account aid d = Some a"
    and ws: "parse_usage_windows ch add raw fetched_at = Some ws"
    and codex: "\<exists>w \<in> set ws. pw_quota_key w = ''codex''" and fin: "\<forall>w \<in> set ws. pw_used_percent w \<noteq> NaN"
  shows "\<exists>d'. replace_usage_windows q now aid plan fetched_at ws d = (Inr (), d') \<and> db_ok d'
     \<and> filter (\<lambda>w. w_account w = aid) (t_windows d') = stored_rows q aid fetched_at ws
     \<and> length (stored_rows q aid fetched_at ws) = length ws
     \<and> filter (\<lambda>w. w_account w \<noteq> aid) (t_windows d') = filter (\<lambda>w. w_account w \<noteq> aid) (t_windows d)
     \<and> t_samples d' = t_samples d @ samples_from (seq_samples d) (stored_rows q aid fetched_at ws)
     \<and> get_account aid d' = Some (usage_refreshed q now plan fetched_at a)
     \<and> t_runtime d' = t_runtime d \<and> t_affinity d' = t_affinity d"
proof -
  from parsed_windows_shape [OF ws] have dist: "distinct (map window_key ws)" and wok: "\<forall>w \<in> set ws. window_ok w" by auto
  have real: "\<forall>w \<in> set ws. sql_real (pw_used_percent w) \<noteq> None"
  proof
    fix w assume "w \<in> set ws"
    with fin wok show "sql_real (pw_used_percent w) \<noteq> None"
      by (cases "pw_used_percent w") (auto simp: window_ok_def used_ok_def)
  qed
  let ?d0 = "d\<lparr>t_windows := tbl_delete (\<lambda>w. w_account w = aid) (t_windows d)\<rparr>"
  let ?rows = "stored_rows q aid fetched_at ws"
  let ?d1 = "?d0\<lparr>t_windows := t_windows ?d0 @ ?rows,
            t_samples := t_samples ?d0 @ samples_from (seq_samples ?d0) ?rows,
            seq_samples := seq_samples ?d0 + int (length ws)\<rparr>"
  have ex: "account_exists aid d" using find_Some_key [OF a] by (auto simp: account_exists_iff account_ids_def)
  have ins: "insert_windows q aid fetched_at ws ?d0 = Inr ?d1"
    by (rule insert_windows_stores) (use ex dist real in \<open>auto simp: account_exists_def window_pk_def tbl_delete_def\<close>)
  have pks: "map window_pk ?rows = map (\<lambda>w. (aid, window_key w)) ws" using stored_rows_pks [OF real] .
  have len: "length ?rows = length ws" using arg_cong [OF pks, of length] by simp
  have pk: "distinct (map window_pk (t_windows d))" using ok by (simp add: db_ok_def keys_ok_def window_pk_def [abs_def])
  have "distinct (map window_pk (t_windows ?d1))"
  proof -
    have "inj_on (\<lambda>w. (aid, window_key w)) (set ws)" using dist by (auto simp: distinct_map inj_on_def)
    then have "distinct (map window_pk ?rows)" unfolding pks using dist by (simp add: distinct_map inj_on_def)
    moreover have "window_pk ` set ?rows \<inter> window_pk ` set (t_windows ?d0) = {}"
      using stored_rows_account [of _ q aid fetched_at ws] by (auto simp: window_pk_def tbl_delete_def)
    ultimately show ?thesis using distinct_delete [OF pk] by auto
  qed
  moreover have "\<forall>s \<in> set (samples_from n ?rows). smp_account s \<in> account_ids d" for n
    using samples_from_account [of _ n ?rows] stored_rows_account [of _ q aid fetched_at ws] ex by (force simp: account_exists_iff)
  ultimately have d1: "db_ok ?d1"
    using ok ex stored_rows_account [of _ q aid fetched_at ws]
    by (auto simp: db_ok_def keys_ok_def foreign_keys_ok_def runtime_total_def account_ids_def window_pk_def [abs_def]
        tbl_delete_def account_exists_iff)
  have "\<exists>w \<in> set ws. pw_quota_key w = ''codex''" by (rule codex)
  then have "replace_usage_windows q now aid plan fetched_at ws d
      = (Inr (), update_acc aid (usage_refreshed q now plan fetched_at) ?d1)"
    by (auto simp: replace_usage_windows_def ins list_ex_iff)
  moreover have "db_ok (update_acc aid (usage_refreshed q now plan fetched_at) ?d1)"
    by (rule db_ok_update_plain [OF usage_refreshed_keys d1])
  moreover have "filter (\<lambda>w. w_account w = aid) ?rows = ?rows" "filter (\<lambda>w. w_account w \<noteq> aid) ?rows = []"
    using stored_rows_account [of _ q aid fetched_at ws] by (auto simp: filter_id_conv filter_empty_conv)
  moreover have "get_account aid (update_acc aid (usage_refreshed q now plan fetched_at) ?d1)
      = Some (usage_refreshed q now plan fetched_at a)"
    using a usage_refreshed_keys by (simp add: find_update_same)
  ultimately show ?thesis using len by (auto simp: tbl_delete_def)
qed

lemma parsed_usage_is_stored_witness:
  "\<exists>d'. replace_usage_windows sample_sqlite 6 7 None 0
        [\<lparr>pw_quota_key = ''codex'', pw_quota_name = ''Codex'', pw_source_slot = ''primary'', pw_window_kind = ''5h'',
          pw_used_percent = Fin 40, pw_window_seconds = Some 18000, pw_reset_at = Some 60000000000\<rparr>] sample_db = (Inr (), d')
     \<and> db_ok d' \<and> length (filter (\<lambda>w. w_account w = 7) (t_windows d')) = 1"
proof -
  have "get_account 7 sample_db = Some (hd (t_accounts sample_db))" by (simp add: sample_db_fields)
  from parsed_usage_is_stored [OF sample_db_ok this sample_usage_parse, of sample_sqlite 6 None] show ?thesis
    by (auto simp del: stored_rows_simps)
qed

section \<open>Pruning keeps the books\<close>

lemma pending_count_delete: "pending_count aid (tbl_delete p logs) \<le> pending_count aid logs"
  by (induction logs) (auto simp: pending_count_def tbl_delete_def flag_def)

lemma prune_history_metrics: "metrics_ok d \<Longrightarrow> metrics_ok (prune_history q now days d)"
proof -
  assume m: "metrics_ok d"
  then have "logs_ok (prune_history q now days d)"
    by (auto simp: metrics_ok_def logs_ok_def prune_history_def Let_def distinct_delete set_delete)
  moreover have "metrics_row (tbl_delete p (t_logs d)) r" if "metrics_row (t_logs d) r" for p r
    using that pending_count_delete [of "rt_account r" p "t_logs d"] by (auto simp: metrics_row_def)
  ultimately show ?thesis using m by (auto simp: metrics_ok_def prune_history_def Let_def)
qed

lemma prune_history_db_ok: "db_ok d \<Longrightarrow> db_ok (prune_history q now days d)"
  by (auto simp: db_ok_def keys_ok_def foreign_keys_ok_def runtime_total_def account_ids_def prune_history_def Let_def
      distinct_delete set_delete)

section \<open>Frames\<close>

text \<open>Only the usage tables change.\<close>

definition same_but_usage :: "db \<Rightarrow> db \<Rightarrow> bool" where
  "same_but_usage d d' \<longleftrightarrow> t_runtime d' = t_runtime d \<and> t_affinity d' = t_affinity d \<and> t_roots d' = t_roots d
     \<and> t_route_keys d' = t_route_keys d \<and> t_logs d' = t_logs d \<and> seq_logs d' = seq_logs d \<and> t_settings d' = t_settings d"

lemma same_but_usage_refl [simp]: "same_but_usage d d"
  by (simp add: same_but_usage_def)

lemma same_but_usage_trans: "same_but_usage a b \<Longrightarrow> same_but_usage b c \<Longrightarrow> same_but_usage a c"
  by (simp add: same_but_usage_def)

lemma same_but_usage_accounts [simp]: "same_but_usage a (b\<lparr>t_accounts := x\<rparr>) = same_but_usage a b"
  by (simp add: same_but_usage_def)

lemma insert_window_ok:
  assumes "insert_window q aid t w d = Inr d'" "db_ok d"
  shows "db_ok d' \<and> same_but_usage d d' \<and> t_accounts d' = t_accounts d \<and> t_snapshots d' = t_snapshots d"
proof -
  from assms(1) obtain u where u: "sql_real (pw_used_percent w) = Some u"
    by (cases "sql_real (pw_used_percent w)") (simp_all add: insert_window_def)
  define row where "row = window_row q aid t u w"
  have row: "w_account row = aid" by (simp add: row_def window_row_def)
  have new: "window_pk row \<notin> window_pk ` set (t_windows d)" "aid \<in> account_ids d"
    and d': "d' = d\<lparr>t_windows := t_windows d @ [row], t_samples := t_samples d @ [sample_row (seq_samples d + 1) row],
                  seq_samples := seq_samples d + 1\<rparr>"
    using assms(1) unfolding insert_window_def u option.case Let_def row_def [symmetric]
    by (auto simp: table_simps account_exists_iff split: if_splits)
  have "db_ok d'" using assms(2) row new unfolding d'
    by (auto simp: db_ok_def keys_ok_def foreign_keys_ok_def runtime_total_def account_ids_def sample_row_def window_pk_def [abs_def])
  then show ?thesis by (simp add: d' same_but_usage_def)
qed

lemma insert_windows_ok:
  "insert_windows q aid t ws d = Inr d' \<Longrightarrow> db_ok d
   \<Longrightarrow> db_ok d' \<and> same_but_usage d d' \<and> t_accounts d' = t_accounts d \<and> t_snapshots d' = t_snapshots d"
proof (induction ws arbitrary: d)
  case (Cons w ws)
  then obtain d1 where "insert_window q aid t w d = Inr d1" "insert_windows q aid t ws d1 = Inr d'" by auto
  with insert_window_ok [OF this(1) Cons.prems(2)] Cons.IH [of d1] show ?case
    by (auto intro: same_but_usage_trans)
qed simp

lemma replace_usage_windows_ok:
  assumes "replace_usage_windows q now aid plan t ws d = (res, d')" "db_ok d"
  shows "db_ok d' \<and> same_but_usage d d'
     \<and> t_accounts d' = (if res = Inr () then tbl_update (\<lambda>a. acc_id a = aid) (usage_refreshed q now plan t) (t_accounts d)
                       else t_accounts d)"
proof -
  let ?d0 = "d\<lparr>t_windows := tbl_delete (\<lambda>w. w_account w = aid) (t_windows d)\<rparr>"
  have d0: "db_ok ?d0" using assms(2)
    by (auto simp: db_ok_def keys_ok_def foreign_keys_ok_def runtime_total_def account_ids_def set_delete distinct_delete)
  consider (err) e where "res = Inl e" "d' = d"
    | (ok) d1 where "res = Inr ()" "insert_windows q aid t ws ?d0 = Inr d1"
        "d' = update_acc aid (usage_refreshed q now plan t) d1"
    using assms(1) by (auto simp: replace_usage_windows_def split: if_splits sum.splits)
  then show ?thesis
  proof cases
    case err
    with assms(2) show ?thesis by simp
  next
    case ok
    note i = insert_windows_ok [OF ok(2) d0]
    have "same_but_usage d ?d0" by (simp add: same_but_usage_def)
    with i have "same_but_usage d d1" using same_but_usage_trans by blast
    with i ok db_ok_update_plain [OF usage_refreshed_keys, of d1] show ?thesis by simp
  qed
qed

lemma insert_usage_snapshot_ok:
  assumes "insert_usage_snapshot q now aid u i out r raw d = (res, d')" "db_ok d"
  shows "db_ok d' \<and> same_but_usage d d' \<and> t_accounts d' = t_accounts d \<and> (account_exists aid d \<longrightarrow> (\<exists>s. res = Inr s))"
proof (cases "account_exists aid d")
  case True
  then have "aid \<in> acc_id ` set (t_accounts d)" by (simp add: account_exists_iff account_ids_def)
  moreover obtain row where "res = Inr row" "snp_account row = aid"
    "d' = d\<lparr>t_snapshots := t_snapshots d @ [row], seq_snapshots := seq_snapshots d + 1\<rparr>"
    using assms(1) True by (auto simp: insert_usage_snapshot_def Let_def)
  ultimately show ?thesis using assms(2)
    by (simp add: same_but_usage_def db_ok_def keys_ok_def foreign_keys_ok_def runtime_total_def account_ids_def)
next
  case False
  with assms show ?thesis by (simp add: insert_usage_snapshot_def)
qed

end
