(* ===== verification/Capture.thy ===== *)
theory Capture
  imports Rust_Text Tables
begin

text \<open>
  What the proxies remember of a streamed response (\<open>TailCapture\<close> and \<open>SseTerminalDetector\<close> of
  \<open>src/proxy.rs\<close>): the last bytes of the body, in a ring buffer, and whether an event that ends a
  response has been seen in full, whatever the chunks the body arrives in.
\<close>

section \<open>The ring buffer\<close>

record tail_capture =
  tc_buffer :: string
  tc_capacity :: nat
  tc_start :: nat

definition tail_capture_new :: "nat \<Rightarrow> tail_capture" where
  "tail_capture_new capacity = \<lparr>tc_buffer = [], tc_capacity = capacity, tc_start = 0\<rparr>"

text \<open>\<open>copy_from_slice\<close> into \<open>buf[i..i + n]\<close>: a range outside the buffer panics.\<close>

definition copy_into :: "nat \<Rightarrow> string \<Rightarrow> string \<Rightarrow> string option" where
  "copy_into i xs buf =
     (if i + length xs \<le> length buf then Some (take i buf @ xs @ drop (i + length xs) buf) else None)"

definition tail_overwrite :: "string \<Rightarrow> tail_capture \<Rightarrow> tail_capture option" where
  "tail_overwrite bytes tc =
     (let first = min (length bytes) (tc_capacity tc - tc_start tc);
          start' = (tc_start tc + length bytes) mod tc_capacity tc
      in Option.bind (copy_into (tc_start tc) (take first bytes) (tc_buffer tc)) (\<lambda>b1.
         Option.bind (if length bytes - first > 0 then copy_into 0 (drop first bytes) b1 else Some b1) (\<lambda>b2.
           Some (tc\<lparr>tc_buffer := b2, tc_start := start'\<rparr>))))"

definition tail_push :: "tail_capture \<Rightarrow> string \<Rightarrow> tail_capture option" where
  "tail_push tc bytes =
     (let cap = tc_capacity tc; len = length (tc_buffer tc)
      in if cap = 0 then Some tc
         else if length bytes \<ge> cap
         then Some (tc\<lparr>tc_buffer := drop (length bytes - cap) bytes, tc_start := 0\<rparr>)
         else if len < cap
         then (let append = min (length bytes) (cap - len);
                   tc' = tc\<lparr>tc_buffer := tc_buffer tc @ take append bytes\<rparr>
               in if drop append bytes = [] then Some tc' else tail_overwrite (drop append bytes) tc')
         else tail_overwrite bytes tc)"

definition tail_to_vec :: "tail_capture \<Rightarrow> string" where
  "tail_to_vec tc =
     (if length (tc_buffer tc) < tc_capacity tc \<or> tc_start tc = 0 then tc_buffer tc
      else drop (tc_start tc) (tc_buffer tc) @ take (tc_start tc) (tc_buffer tc))"

fun tail_push_all :: "tail_capture \<Rightarrow> string list \<Rightarrow> tail_capture option" where
  "tail_push_all tc [] = Some tc"
| "tail_push_all tc (c # cs) = Option.bind (tail_push tc c) (\<lambda>tc'. tail_push_all tc' cs)"

text \<open>\<open>tail_bytes\<close>: the last \<open>limit\<close> bytes.\<close>

definition tail_bytes :: "'a list \<Rightarrow> nat \<Rightarrow> 'a list" where
  "tail_bytes xs limit = drop (length xs - limit) xs"

lemma tail_bytes_append: "tail_bytes (tail_bytes xs n @ ys) n = tail_bytes (xs @ ys) n"
  by (cases "length xs \<le> n") (auto simp: tail_bytes_def drop_append add.commute)

lemma length_tail_bytes [simp]: "length (tail_bytes xs n) = min n (length xs)"
  by (auto simp: tail_bytes_def)

definition tail_ok :: "tail_capture \<Rightarrow> bool" where
  "tail_ok tc \<longleftrightarrow> length (tc_buffer tc) \<le> tc_capacity tc
     \<and> (if length (tc_buffer tc) < tc_capacity tc \<or> tc_capacity tc = 0 then tc_start tc = 0
        else tc_start tc < tc_capacity tc)"

lemma rotate_overwrite:
  assumes "length buf = cap" "s < cap" "length xs < cap"
  shows "\<exists>buf'. tail_overwrite xs \<lparr>tc_buffer = buf, tc_capacity = cap, tc_start = s\<rparr>
           = Some \<lparr>tc_buffer = buf', tc_capacity = cap, tc_start = (s + length xs) mod cap\<rparr>
     \<and> length buf' = cap
     \<and> (let e = (s + length xs) mod cap in drop e buf' @ take e buf' = drop (length xs) (drop s buf @ take s buf) @ xs)"
proof (cases "s + length xs \<le> cap")
  case True
  then have m: "min (length xs) (cap - s) = length xs" by simp
  have e: "(s + length xs) mod cap = (if s + length xs = cap then 0 else s + length xs)"
    using True assms by auto
  show ?thesis using True assms m unfolding e
    by (auto simp: tail_overwrite_def copy_into_def Let_def drop_append add.commute)
next
  case False
  then have m: "min (length xs) (cap - s) = cap - s" by simp
  have e: "(s + length xs) mod cap = s + length xs - cap"
  proof -
    have "s + length xs - cap < cap" using assms by linarith
    with False le_mod_geq [of cap "s + length xs"] show ?thesis by simp
  qed
  have "length buf = cap \<Longrightarrow> ?thesis" using False assms(2,3) m e
    by (simp add: tail_overwrite_def copy_into_def Let_def drop_append) (auto simp: not_le)
  with assms(1) show ?thesis by blast
qed

lemma tail_bytes_short: "length xs \<le> n \<Longrightarrow> tail_bytes xs n = xs"
  by (simp add: tail_bytes_def)

lemma tail_bytes_full: "length xs = n \<Longrightarrow> tail_bytes (xs @ ys) n = drop (length ys) xs @ drop (length ys - n) ys"
  by (simp add: tail_bytes_def drop_append)

lemma tail_to_vec_full:
  "length buf = cap \<Longrightarrow> s < cap
   \<Longrightarrow> tail_to_vec \<lparr>tc_buffer = buf, tc_capacity = cap, tc_start = s\<rparr> = drop s buf @ take s buf"
  by (simp add: tail_to_vec_def)

lemma tail_overwrite_ok:
  assumes "length (tc_buffer tc) = tc_capacity tc" "tc_start tc < tc_capacity tc" "length xs < tc_capacity tc"
  shows "\<exists>tc'. tail_overwrite xs tc = Some tc' \<and> tail_ok tc' \<and> tc_capacity tc' = tc_capacity tc
     \<and> tail_to_vec tc' = tail_bytes (tail_to_vec tc @ xs) (tc_capacity tc)"
proof -
  obtain buf cap s where tc: "tc = \<lparr>tc_buffer = buf, tc_capacity = cap, tc_start = s\<rparr>" by (cases tc) auto
  with assms have a: "length buf = cap" "s < cap" "length xs < cap" by auto
  from rotate_overwrite [OF a] obtain buf' where b:
    "tail_overwrite xs tc = Some \<lparr>tc_buffer = buf', tc_capacity = cap, tc_start = (s + length xs) mod cap\<rparr>"
    "length buf' = cap"
    "drop ((s + length xs) mod cap) buf' @ take ((s + length xs) mod cap) buf' = drop (length xs) (drop s buf @ take s buf) @ xs"
    unfolding tc by (auto simp: Let_def)
  have lt: "(s + length xs) mod cap < cap" using a by simp
  have v: "tail_to_vec tc = drop s buf @ take s buf" unfolding tc using a by (rule_tac tail_to_vec_full)
  have "length (drop s buf @ take s buf) = cap" using a by simp
  from tail_bytes_full [OF this, of xs] a(3)
  have "tail_bytes (tail_to_vec tc @ xs) cap = drop (length xs) (drop s buf @ take s buf) @ xs" unfolding v by simp
  with b lt tail_to_vec_full [OF b(2) lt] show ?thesis
    by (auto simp: tc tail_ok_def)
qed

lemma tail_push_ok:
  assumes ok: "tail_ok tc"
  shows "\<exists>tc'. tail_push tc xs = Some tc' \<and> tail_ok tc' \<and> tc_capacity tc' = tc_capacity tc
     \<and> tail_to_vec tc' = tail_bytes (tail_to_vec tc @ xs) (tc_capacity tc)"
proof -
  let ?cap = "tc_capacity tc" and ?len = "length (tc_buffer tc)"
  consider (zero) "?cap = 0" | (long) "?cap \<noteq> 0" "?cap \<le> length xs"
    | (fits) "?cap \<noteq> 0" "?len < ?cap" "length xs + ?len \<le> ?cap" "length xs < ?cap"
    | (spills) "?cap \<noteq> 0" "?len < ?cap" "?cap < length xs + ?len" "length xs < ?cap"
    | (full) "?cap \<noteq> 0" "?len = ?cap" "length xs < ?cap"
    using ok unfolding tail_ok_def by linarith
  then show ?thesis
  proof cases
    case zero
    then show ?thesis using ok by (auto simp: tail_push_def tail_ok_def tail_to_vec_def tail_bytes_def)
  next
    case long
    then have "tail_bytes (tail_to_vec tc @ xs) ?cap = drop (length xs - ?cap) xs"
      by (auto simp: tail_bytes_def)
    with long show ?thesis by (auto simp: tail_push_def Let_def tail_ok_def tail_to_vec_def)
  next
    case fits
    then show ?thesis using ok
      by (auto simp: tail_push_def Let_def tail_ok_def tail_to_vec_def tail_bytes_short)
  next
    case spills
    let ?n = "?cap - ?len"
    let ?tc = "tc\<lparr>tc_buffer := tc_buffer tc @ take ?n xs\<rparr>"
    have s: "tc_start tc = 0" using ok spills by (simp add: tail_ok_def)
    have p: "tail_push tc xs = tail_overwrite (drop ?n xs) ?tc"
      using spills by (auto simp: tail_push_def Let_def min_def)
    have v: "tail_to_vec ?tc = tail_to_vec tc @ take ?n xs" using s by (simp add: tail_to_vec_def)
    have "\<exists>tc'. tail_overwrite (drop ?n xs) ?tc = Some tc' \<and> tail_ok tc' \<and> tc_capacity tc' = tc_capacity ?tc
     \<and> tail_to_vec tc' = tail_bytes (tail_to_vec ?tc @ drop ?n xs) (tc_capacity ?tc)"
      by (rule tail_overwrite_ok) (use spills s in auto)
    then show ?thesis unfolding p v by simp
  next
    case full
    then have "tc_start tc < ?cap" using ok by (simp add: tail_ok_def)
    moreover have "tail_push tc xs = tail_overwrite xs tc" using full by (simp add: tail_push_def Let_def)
    ultimately show ?thesis using tail_overwrite_ok [of tc xs] full by simp
  qed
qed

text \<open>What a capture holds: the state invariant with the bytes it shows.\<close>

definition holds_tail :: "tail_capture \<Rightarrow> string \<Rightarrow> nat \<Rightarrow> bool" where
  "holds_tail tc s capacity \<longleftrightarrow> tail_ok tc \<and> tc_capacity tc = capacity \<and> tail_to_vec tc = tail_bytes s capacity"

lemma holds_tail_new: "holds_tail (tail_capture_new capacity) [] capacity"
  by (auto simp: holds_tail_def tail_capture_new_def tail_ok_def tail_to_vec_def tail_bytes_def)

lemma holds_tail_push:
  "holds_tail tc s capacity \<Longrightarrow> \<exists>tc'. tail_push tc c = Some tc' \<and> holds_tail tc' (s @ c) capacity"
  using tail_push_ok [of tc c] by (fastforce simp: holds_tail_def tail_bytes_append)

lemma holds_tail_push_all:
  "holds_tail tc s capacity \<Longrightarrow> \<exists>tc'. tail_push_all tc cs = Some tc' \<and> holds_tail tc' (s @ concat cs) capacity"
proof (induction cs arbitrary: tc s)
  case (Cons c cs)
  from holds_tail_push [OF Cons.prems] obtain tc' where "tail_push tc c = Some tc'" "holds_tail tc' (s @ c) capacity"
    by blast
  with Cons.IH show ?case by fastforce
qed simp

text \<open>
  The capture of a stream is the last bytes of the stream, whatever the chunks it came in, and
  pushing never leaves the buffer's bounds.
\<close>

lemma capture_is_tail:
  "\<exists>tc. tail_push_all (tail_capture_new capacity) chunks = Some tc
     \<and> tail_to_vec tc = tail_bytes (concat chunks) capacity"
  using holds_tail_push_all [OF holds_tail_new] by (fastforce simp: holds_tail_def)

section \<open>The end of a response in an event stream\<close>

datatype sse_terminal = SseCompleted | SseIncomplete | SseFailed | SseError

record sse_detector =
  det_carry :: string
  det_pending :: "sse_terminal option"

definition detector_default :: sse_detector where
  "detector_default = \<lparr>det_carry = [], det_pending = None\<rparr>"

text \<open>\<open>windows(len).position(...)\<close>: the first place where the pattern stands.\<close>

fun position :: "string \<Rightarrow> string \<Rightarrow> nat option" where
  "position w [] = (if w = [] then Some 0 else None)"
| "position w (c # cs) = (if starts_with (c # cs) w then Some 0 else map_option Suc (position w cs))"

definition sse_patterns :: "(string \<times> sse_terminal) list" where
  "sse_patterns =
     [(''\"type\":\"response.completed\"'', SseCompleted),
      (''\"type\": \"response.completed\"'', SseCompleted),
      (''\"type\":\"response.incomplete\"'', SseIncomplete),
      (''\"type\": \"response.incomplete\"'', SseIncomplete),
      (''\"type\":\"response.failed\"'', SseFailed),
      (''\"type\": \"response.failed\"'', SseFailed),
      (''\"type\":\"error\"'', SseError),
      (''\"type\": \"error\"'', SseError)]"

definition find_sse_terminal :: "string \<Rightarrow> (nat \<times> sse_terminal) option" where
  "find_sse_terminal bytes =
     first_min fst (List.map_filter (\<lambda>(w, t). map_option (\<lambda>i. (i, t)) (position w bytes)) sse_patterns)"

definition occurs :: "string \<Rightarrow> string \<Rightarrow> bool" where
  "occurs w bytes \<longleftrightarrow> position w bytes \<noteq> None"

definition contains_sse_boundary :: "string \<Rightarrow> bool" where
  "contains_sse_boundary bytes \<longleftrightarrow>
     occurs [CHR 0x0A, CHR 0x0A] bytes \<or> occurs [CHR 0x0D, CHR 0x0A, CHR 0x0D, CHR 0x0A] bytes"

definition observe :: "sse_detector \<Rightarrow> string \<Rightarrow> sse_terminal option \<times> sse_detector" where
  "observe det bytes =
     (let combined = det_carry det @ bytes
      in case det_pending det of
           Some terminal \<Rightarrow>
             if contains_sse_boundary combined
             then (Some terminal, det\<lparr>det_pending := None, det_carry := []\<rparr>)
             else (None, det\<lparr>det_carry := tail_bytes combined 3\<rparr>)
         | None \<Rightarrow>
             (case find_sse_terminal combined of
                Some (p, terminal) \<Rightarrow>
                  if contains_sse_boundary (drop p combined)
                  then (Some terminal, det\<lparr>det_carry := []\<rparr>)
                  else (None, det\<lparr>det_pending := Some terminal, det_carry := tail_bytes (drop p combined) 3\<rparr>)
              | None \<Rightarrow> (None, det\<lparr>det_carry := tail_bytes combined 64\<rparr>)))"

text \<open>The streams observe a chunk at a time until the first terminal (\<open>settled\<close>).\<close>

fun first_terminal :: "sse_detector \<Rightarrow> string list \<Rightarrow> sse_terminal option" where
  "first_terminal det [] = None"
| "first_terminal det (c # cs) =
     (case observe det c of (Some t, _) \<Rightarrow> Some t | (None, det') \<Rightarrow> first_terminal det' cs)"

text \<open>What is to be found, on the whole body at once.\<close>

definition terminal_of :: "string \<Rightarrow> sse_terminal option" where
  "terminal_of body =
     (case find_sse_terminal body of
        None \<Rightarrow> None
      | Some (p, t) \<Rightarrow> if contains_sse_boundary (drop p body) then Some t else None)"

section \<open>Patterns in a text that grows\<close>

definition occurs_at :: "string \<Rightarrow> string \<Rightarrow> nat \<Rightarrow> bool" where
  "occurs_at w s i \<longleftrightarrow> i \<le> length s \<and> starts_with (drop i s) w"

lemma starts_with_iff: "starts_with s p \<longleftrightarrow> (\<exists>r. s = p @ r)"
  by (auto simp: starts_with_def strip_prefix_Some)

lemma starts_with_take: "starts_with s p \<longleftrightarrow> take (length p) s = p"
  unfolding starts_with_iff by (metis append_take_drop_id append_eq_conv_conj)

lemma occurs_at_length: "occurs_at w s i \<Longrightarrow> i + length w \<le> length s"
proof -
  assume a: "occurs_at w s i"
  then obtain r where "drop i s = w @ r" by (auto simp: occurs_at_def starts_with_iff)
  from arg_cong [OF this, of length] have "length s - i = length w + length r" by simp
  moreover have "i \<le> length s" using a by (simp add: occurs_at_def)
  ultimately show ?thesis by linarith
qed

lemma position_Some:
  "position w s = Some i \<longleftrightarrow> occurs_at w s i \<and> (\<forall>j < i. \<not> occurs_at w s j)"
proof (induction s arbitrary: i)
  case Nil
  show ?case by (cases w) (auto simp: occurs_at_def starts_with_iff)
next
  case (Cons c cs)
  have z: "occurs_at w (c # cs) 0 \<longleftrightarrow> starts_with (c # cs) w" by (simp add: occurs_at_def)
  have s: "occurs_at w (c # cs) (Suc j) \<longleftrightarrow> occurs_at w cs j" for j by (simp add: occurs_at_def)
  show ?case
  proof (cases "starts_with (c # cs) w")
    case True
    then show ?thesis using z by (cases i) auto
  next
    case False
    then show ?thesis using z s Cons.IH by (cases i) (auto simp: less_Suc_eq_0_disj)
  qed
qed

lemma position_None: "position w s = None \<longleftrightarrow> (\<forall>i. \<not> occurs_at w s i)"
proof
  assume "position w s = None"
  then show "\<forall>i. \<not> occurs_at w s i"
  proof (induction s)
    case Nil
    then show ?case by (auto simp: occurs_at_def starts_with_iff split: if_splits)
  next
    case (Cons c cs)
    show ?case
    proof
      fix i
      show "\<not> occurs_at w (c # cs) i"
        using Cons by (cases i) (auto simp: occurs_at_def split: if_splits)
    qed
  qed
next
  assume n: "\<forall>i. \<not> occurs_at w s i"
  show "position w s = None"
    using n position_Some by (cases "position w s") auto
qed

lemma occurs_at_append: "occurs_at w s i \<Longrightarrow> occurs_at w (s @ b) i"
  using occurs_at_length [of w s i] by (auto simp: occurs_at_def starts_with_take)

lemma occurs_at_prefix: "occurs_at w (s @ b) i \<Longrightarrow> i + length w \<le> length s \<Longrightarrow> occurs_at w s i"
  by (auto simp: occurs_at_def starts_with_take)

lemma occurs_at_suffix: "occurs_at w (u @ v) (length u + k) = occurs_at w v k"
  by (auto simp: occurs_at_def)

text \<open>A pattern that does not stand in \<open>s\<close> is found in \<open>s @ b\<close> from the last bytes of \<open>s\<close> on.\<close>

lemma position_tail:
  assumes "position w s = None" "length w \<le> Suc n"
  shows "position w (s @ b) = map_option (\<lambda>k. length s - n + k) (position w (tail_bytes s n @ b))"
proof -
  let ?u = "take (length s - n) s" and ?v = "tail_bytes s n @ b"
  have s: "s @ b = ?u @ ?v" by (simp add: tail_bytes_def)
  have lu: "length ?u = length s - n" by simp
  have early: "\<not> occurs_at w (s @ b) i" if "i < length s - n" for i
  proof
    assume o: "occurs_at w (s @ b) i"
    have "i + length w \<le> length s" using that assms(2) by linarith
    from occurs_at_prefix [OF o this] assms(1) show False by (simp add: position_None)
  qed
  have shift: "occurs_at w (s @ b) (length s - n + k) = occurs_at w ?v k" for k
    using occurs_at_suffix [of w ?u ?v k] unfolding s lu .
  show ?thesis
  proof (cases "position w ?v")
    case None
    have "\<not> occurs_at w (s @ b) i" for i
    proof (cases "i < length s - n")
      case False
      then obtain k where "i = length s - n + k" by (metis le_Suc_ex not_le)
      with None shift show ?thesis by (simp add: position_None)
    qed (rule early)
    then have "position w (s @ b) = None" by (simp add: position_None)
    with None show ?thesis by simp
  next
    case (Some k)
    then have k: "occurs_at w ?v k" "\<forall>j < k. \<not> occurs_at w ?v j" by (simp_all add: position_Some)
    have "\<not> occurs_at w (s @ b) j" if "j < length s - n + k" for j
    proof (cases "j < length s - n")
      case False
      then obtain i where "j = length s - n + i" by (metis le_Suc_ex not_le)
      with that k(2) shift show ?thesis by simp
    qed (rule early)
    with k(1) shift have "position w (s @ b) = Some (length s - n + k)" by (simp add: position_Some)
    with Some show ?thesis by simp
  qed
qed

lemma occurs_tail: "\<not> occurs w s \<Longrightarrow> length w \<le> Suc n \<Longrightarrow> occurs w (s @ b) = occurs w (tail_bytes s n @ b)"
  using position_tail [of w s n b] by (auto simp: occurs_def)

lemma occurs_append: "occurs w s \<Longrightarrow> occurs w (s @ b)"
  by (auto simp: occurs_def position_None intro: occurs_at_append)

lemma boundary_tail:
  "\<not> contains_sse_boundary s \<Longrightarrow> contains_sse_boundary (s @ b) = contains_sse_boundary (tail_bytes s 3 @ b)"
  unfolding contains_sse_boundary_def using occurs_tail [of _ s 3 b] by simp

lemma boundary_append: "contains_sse_boundary s \<Longrightarrow> contains_sse_boundary (s @ b)"
  unfolding contains_sse_boundary_def using occurs_append by blast

lemma first_min_shift:
  "first_min fst (map (\<lambda>(i, t). (k + i, t)) xs) = map_option (\<lambda>(i, t). (k + i, t)) (first_min fst xs)"
  for xs :: "(nat \<times> 'b) list"
  by (induction xs) (auto split: option.splits)

lemma find_terminal_tail:
  assumes "find_sse_terminal s = None"
  shows "find_sse_terminal (s @ b) = map_option (\<lambda>(i, t). (length s - 64 + i, t)) (find_sse_terminal (tail_bytes s 64 @ b))"
proof -
  let ?f = "\<lambda>s (w, t). map_option (\<lambda>i. (i, t)) (position w s)"
  have none: "position w s = None" if "(w, t) \<in> set sse_patterns" for w t
  proof -
    from assms have "List.map_filter (?f s) sse_patterns = []" by (simp add: find_sse_terminal_def)
    then have "\<forall>x \<in> set sse_patterns. ?f s x = None" by (auto simp: map_filter_def filter_empty_conv)
    from bspec [OF this that] show ?thesis by simp
  qed
  have short: "length w \<le> Suc 64" if "(w, t) \<in> set sse_patterns" for w t
  proof -
    have "list_all (\<lambda>(w, t). length w \<le> Suc 64) sse_patterns" by (simp add: sse_patterns_def)
    with that show ?thesis by (auto simp: list_all_iff)
  qed
  have each: "?f (s @ b) x = map_option (\<lambda>(i, t). (length s - 64 + i, t)) (?f (tail_bytes s 64 @ b) x)"
    if "x \<in> set sse_patterns" for x
  proof -
    obtain w t where x: "x = (w, t)" by (cases x)
    show ?thesis using that position_tail [OF none short, of w t t b]
      unfolding x by (simp add: option.map_comp comp_def)
  qed
  have "List.map_filter (?f (s @ b)) ps = map (\<lambda>(i, t). (length s - 64 + i, t)) (List.map_filter (?f (tail_bytes s 64 @ b)) ps)"
    if "set ps \<subseteq> set sse_patterns" for ps
    using that
  proof (induction ps)
    case (Cons p ps)
    with each [of p] show ?case
      by (cases "?f (tail_bytes s 64 @ b) p") (auto simp: map_filter_simps split: option.splits)
  qed (simp add: map_filter_simps)
  from this [of sse_patterns] show ?thesis
    by (simp add: find_sse_terminal_def first_min_shift)
qed

text \<open>No pattern stands inside another.\<close>

lemma patterns_apart:
  "\<forall>(w, t) \<in> set sse_patterns. \<forall>(w', t') \<in> set sse_patterns. \<forall>k \<in> set [0..<length w'].
     starts_with (drop k w') w \<longrightarrow> k = 0 \<and> (w, t) = (w', t')"
  by code_simp

lemma find_terminal_Some:
  "find_sse_terminal s = Some (p, t) \<longleftrightarrow>
     (\<exists>w. (w, t) \<in> set sse_patterns \<and> occurs_at w s p)
     \<and> (\<forall>(w, t') \<in> set sse_patterns. \<forall>j < p. \<not> occurs_at w s j)" (is "_ \<longleftrightarrow> ?E s p t \<and> ?F s p")
proof -
  let ?xs = "List.map_filter (\<lambda>(w, t). map_option (\<lambda>i. (i, t)) (position w s)) sse_patterns"
  have in_xs: "(i, t) \<in> set ?xs \<longleftrightarrow> (\<exists>w. (w, t) \<in> set sse_patterns \<and> position w s = Some i)" for i t
    by (force simp: map_filter_def)
  have one: "?E s p t \<and> ?F s p" if "find_sse_terminal s = Some (p, t)" for p t
  proof -
    from that have m: "(p, t) \<in> set ?xs \<and> (\<forall>r \<in> set ?xs. p \<le> fst r)"
      using first_min_Some [of fst ?xs "(p, t)"] unfolding find_sse_terminal_def by simp
    then obtain w where w: "(w, t) \<in> set sse_patterns" "position w s = Some p" by (auto simp: in_xs)
    have "\<not> occurs_at w' s j" if "(w', t') \<in> set sse_patterns" "j < p" for w' t' j
    proof
      assume "occurs_at w' s j"
      then obtain i where i: "position w' s = Some i" by (cases "position w' s") (auto simp: position_None)
      with \<open>occurs_at w' s j\<close> have "i \<le> j" using position_Some [of w' s i] by (meson not_le)
      moreover have "p \<le> i" using m in_xs that(1) i by force
      ultimately show False using that(2) by simp
    qed
    with w show ?thesis by (auto simp: position_Some)
  qed
  show ?thesis
  proof (rule iffI)
    assume "find_sse_terminal s = Some (p, t)"
    then show "?E s p t \<and> ?F s p" by (rule one)
  next
    assume ef: "?E s p t \<and> ?F s p"
    then obtain w where w: "(w, t) \<in> set sse_patterns" "occurs_at w s p" by blast
    with ef have "position w s = Some p" by (auto simp: position_Some)
    with w in_xs have "?xs \<noteq> []" by (metis empty_iff list.set(1))
    then obtain p' t' where f: "find_sse_terminal s = Some (p', t')"
      unfolding find_sse_terminal_def by (metis first_min_None option.exhaust surj_pair)
    from one [OF f] obtain w' where w': "(w', t') \<in> set sse_patterns" "occurs_at w' s p'" and F: "?F s p'" by blast
    have "p' = p" using F ef w w' by (metis (mono_tags, lifting) case_prodD linorder_neqE_nat)
    have "starts_with w' w \<or> starts_with w w'"
      using w(2) w'(2) unfolding \<open>p' = p\<close> occurs_at_def starts_with_iff
      by (metis append_eq_append_conv2)
    moreover have "w \<noteq> [] \<and> w' \<noteq> []" using w(1) w'(1) by (auto simp: sse_patterns_def)
    ultimately have "t' = t"
      using patterns_apart w(1) w'(1) by force
    with f \<open>p' = p\<close> show "find_sse_terminal s = Some (p, t)" by simp
  qed
qed

lemma find_terminal_append:
  assumes "find_sse_terminal s = Some (p, t)"
  shows "find_sse_terminal (s @ b) = Some (p, t)"
proof -
  from assms obtain w where w: "(w, t) \<in> set sse_patterns" "occurs_at w s p"
    and first: "\<And>w' t' j. (w', t') \<in> set sse_patterns \<Longrightarrow> j < p \<Longrightarrow> \<not> occurs_at w' s j"
    unfolding find_terminal_Some by blast
  have "\<not> occurs_at w' (s @ b) j" if w': "(w', t') \<in> set sse_patterns" and j: "j < p" for w' t' j
  proof
    assume o: "occurs_at w' (s @ b) j"
    show False
    proof (cases "j + length w' \<le> length s")
      case True
      with occurs_at_prefix [OF o] first [OF w' j] show False by blast
    next
      case False
      have len: "p + length w \<le> length s" using occurs_at_length [OF w(2)] .
      have "take (length w') (drop j (s @ b)) = w'"
        using o by (simp add: occurs_at_def starts_with_take)
      then have "drop (p - j) w' = take (length w' - (p - j)) (drop p (s @ b))"
        using j by (metis drop_drop drop_take le_add_diff_inverse2 less_imp_le)
      moreover have "take (length w) (drop p (s @ b)) = w"
        using occurs_at_append [OF w(2), of b] by (simp add: occurs_at_def starts_with_take)
      ultimately have "starts_with (drop (p - j) w') w"
        using False len j by (simp add: starts_with_take min_def)
      moreover have "p - j < length w'" using False len j by linarith
      ultimately have "p - j = 0" using patterns_apart w(1) w' by fastforce
      with j show False by simp
    qed
  qed
  with w occurs_at_append [OF w(2), of b] show ?thesis unfolding find_terminal_Some by blast
qed

section \<open>The detector finds what is in the body\<close>

text \<open>What the detector remembers of the bytes it has seen.\<close>

definition remembers :: "sse_detector \<Rightarrow> string \<Rightarrow> bool" where
  "remembers det s \<longleftrightarrow>
     (case det_pending det of
        None \<Rightarrow> find_sse_terminal s = None \<and> det_carry det = tail_bytes s 64
      | Some t \<Rightarrow> \<exists>p. find_sse_terminal s = Some (p, t) \<and> \<not> contains_sse_boundary (drop p s)
                     \<and> det_carry det = tail_bytes (drop p s) 3)"

lemma observe_remembers:
  assumes r: "remembers det s"
  shows "case observe det b of
           (Some t, _) \<Rightarrow> terminal_of (s @ b) = Some t
         | (None, det') \<Rightarrow> remembers det' (s @ b)"
proof (cases "det_pending det")
  case None
  let ?c = "tail_bytes s 64 @ b"
  from r None have n: "find_sse_terminal s = None" and c: "det_carry det = tail_bytes s 64"
    by (simp_all add: remembers_def)
  note f = find_terminal_tail [OF n, of b]
  show ?thesis
  proof (cases "find_sse_terminal ?c")
    case nf: None
    with None c f show ?thesis
      by (simp add: observe_def Let_def remembers_def tail_bytes_append)
  next
    case (Some x)
    then obtain p t where x: "find_sse_terminal ?c = Some (p, t)" by (cases x) auto
    have "s @ b = take (length s - 64) s @ ?c" by (simp add: tail_bytes_def)
    then have d: "drop (length s - 64 + p) (s @ b) = drop p ?c"
      by (metis (no_types, lifting) add.commute append_take_drop_id append_eq_conv_conj diff_le_self drop_drop length_take min.absorb2)
    from f x have "find_sse_terminal (s @ b) = Some (length s - 64 + p, t)" by simp
    with None c x show ?thesis unfolding observe_def Let_def
      by (auto simp: remembers_def terminal_of_def d simp del: drop_append)
  qed
next
  case (Some t)
  with r obtain p where p: "find_sse_terminal s = Some (p, t)" and nb: "\<not> contains_sse_boundary (drop p s)"
    and c: "det_carry det = tail_bytes (drop p s) 3" by (auto simp: remembers_def)
  note f = find_terminal_append [OF p, of b]
  from p have "p \<le> length s" unfolding find_terminal_Some occurs_at_def by blast
  then have d: "drop p (s @ b) = drop p s @ b" by simp
  from boundary_tail [OF nb, of b] Some c f show ?thesis unfolding observe_def Let_def
    by (auto simp: remembers_def terminal_of_def d tail_bytes_append simp del: drop_append)
qed

lemma terminal_of_append: "terminal_of s = Some t \<Longrightarrow> terminal_of (s @ b) = Some t"
proof -
  assume a: "terminal_of s = Some t"
  then obtain p where p: "find_sse_terminal s = Some (p, t)" "contains_sse_boundary (drop p s)"
    by (auto simp: terminal_of_def split: option.splits if_splits)
  from p(1) have "p \<le> length s" unfolding find_terminal_Some occurs_at_def by blast
  then have "drop p (s @ b) = drop p s @ b" by simp
  with find_terminal_append [OF p(1), of b] boundary_append [OF p(2), of b] show ?thesis
    by (simp add: terminal_of_def)
qed

lemma remembers_terminal: "remembers det s \<Longrightarrow> terminal_of s = None"
  by (auto simp: remembers_def terminal_of_def split: option.splits)

lemma remembers_default: "remembers detector_default []"
proof -
  have "find_sse_terminal [] = None" by code_simp
  then show ?thesis by (simp add: remembers_def detector_default_def tail_bytes_def)
qed

lemma first_terminal_remembers: "remembers det s \<Longrightarrow> first_terminal det cs = terminal_of (s @ concat cs)"
proof (induction cs arbitrary: det s)
  case Nil
  then show ?case by (simp add: remembers_terminal)
next
  case (Cons c cs)
  note step = observe_remembers [OF Cons.prems, of c]
  obtain r det' where o: "observe det c = (r, det')" by (cases "observe det c")
  show ?case
  proof (cases r)
    case None
    with step o have "remembers det' (s @ c)" by simp
    from Cons.IH [OF this] None o show ?thesis by simp
  next
    case (Some t)
    with step o have "terminal_of (s @ c) = Some t" by simp
    from terminal_of_append [OF this, of "concat cs"] Some o show ?thesis by simp
  qed
qed

text \<open>
  C30: the detector does not depend on how the body is cut into chunks: it reports a terminal exactly
  when the whole body holds one of the terminal types followed by the end of its event, and the one
  it reports is the first in the body.
\<close>

theorem detector_equals_whole_body:
  "first_terminal detector_default chunks = terminal_of (concat chunks)"
  using first_terminal_remembers [OF remembers_default] by simp

end
