(* ===== verification/Stream_Metadata.thy ===== *)
theory Stream_Metadata
  imports Capture Auth_File Pricing
begin

text \<open>
  What is read from a response as it passes: the usage counters and the response id in the captured
  bytes (\<open>extract_usage_from_sse\<close> and its helpers in \<open>src/upstream.rs\<close>, \<open>capture_metadata\<close> in
  \<open>src/proxy.rs\<close>).  The JSON parser is the parameter \<open>js\<close>.
\<close>

section \<open>Text\<close>

text \<open>\<open>String::from_utf8_lossy\<close>: the length of the well-formed character at the front, or of the
  ill-formed bytes that are replaced by one U+FFFD.\<close>

definition is_continuation :: "string \<Rightarrow> nat \<Rightarrow> bool" where
  "is_continuation s i \<longleftrightarrow> i < length s \<and> 128 \<le> byte (s ! i) \<and> byte (s ! i) \<le> 191"

definition second_ok :: "string \<Rightarrow> bool" where
  "second_ok s \<longleftrightarrow>
     (let b = byte (hd s); n = byte (s ! 1)
      in 1 < length s
         \<and> (if b = 0xE0 then 0xA0 \<le> n \<and> n \<le> 0xBF
            else if b = 0xED then 0x80 \<le> n \<and> n \<le> 0x9F
            else if b = 0xF0 then 0x90 \<le> n \<and> n \<le> 0xBF
            else if b = 0xF4 then 0x80 \<le> n \<and> n \<le> 0x8F
            else 0x80 \<le> n \<and> n \<le> 0xBF))"

definition utf8_front :: "string \<Rightarrow> bool \<times> nat" where
  "utf8_front s =
     (let b = byte (hd s)
      in if b < 0x80 then (True, 1)
         else if 0xC2 \<le> b \<and> b \<le> 0xDF then (if second_ok s then (True, 2) else (False, 1))
         else if 0xE0 \<le> b \<and> b \<le> 0xEF then
           (if \<not> second_ok s then (False, 1) else if is_continuation s 2 then (True, 3) else (False, 2))
         else if 0xF0 \<le> b \<and> b \<le> 0xF4 then
           (if \<not> second_ok s then (False, 1) else if \<not> is_continuation s 2 then (False, 2)
            else if is_continuation s 3 then (True, 4) else (False, 3))
         else (False, 1))"

lemma utf8_front_pos: "0 < snd (utf8_front s)"
  by (simp add: utf8_front_def Let_def)

lemma utf8_front_width: "(valid, n) = utf8_front s \<Longrightarrow> 0 < n"
  by (metis snd_conv utf8_front_pos)

function from_utf8_lossy :: "string \<Rightarrow> string" where
  "from_utf8_lossy s =
     (if s = [] then []
      else (case utf8_front s of (valid, n) \<Rightarrow>
        (if valid then take n s else map char_of [0xEF, 0xBF, 0xBD :: nat]) @ from_utf8_lossy (drop n s)))"
  by pat_completeness auto
termination
  by (relation "measure length") (auto dest: utf8_front_width)

declare from_utf8_lossy.simps [simp del]

text \<open>\<open>chars().take(limit)\<close>: a character starts at every byte that continues none.\<close>

fun take_chars :: "nat \<Rightarrow> string \<Rightarrow> string" where
  "take_chars limit [] = []"
| "take_chars limit (c # cs) =
     (if 128 \<le> byte c \<and> byte c < 192 then c # take_chars limit cs
      else case limit of 0 \<Rightarrow> [] | Suc n \<Rightarrow> c # take_chars n cs)"

definition strip_cr :: "string \<Rightarrow> string" where
  "strip_cr l = (if l \<noteq> [] \<and> last l = CHR 0x0D then butlast l else l)"

definition text_lines :: "string \<Rightarrow> string list" where
  "text_lines s =
     (let parts = split (CHR 0x0A) s
      in map strip_cr (butlast parts) @ (if last parts = [] then [] else [last parts]))"

section \<open>Usage counters\<close>

definition merge_usage_fields :: "json \<Rightarrow> usage_data \<Rightarrow> usage_data" where
  "merge_usage_fields candidate u =
     u\<lparr>input_tokens := or_else (Option.bind (jget ''input_tokens'' candidate) as_i64) (input_tokens u),
       output_tokens := or_else (Option.bind (jget ''output_tokens'' candidate) as_i64) (output_tokens u),
       cached_input_tokens := or_else
         (Option.bind (pointer [''input_tokens_details'', ''cached_tokens''] candidate) as_i64) (cached_input_tokens u),
       cache_write_input_tokens := or_else
         (Option.bind (pointer [''input_tokens_details'', ''cache_write_tokens''] candidate) as_i64) (cache_write_input_tokens u),
       reasoning_tokens := or_else
         (Option.bind (pointer [''output_tokens_details'', ''reasoning_tokens''] candidate) as_i64) (reasoning_tokens u)\<rparr>"

definition merge_response_metadata :: "json \<Rightarrow> usage_data \<Rightarrow> usage_data" where
  "merge_response_metadata value u =
     (let response = or_default (jget ''response'' value) value
      in u\<lparr>effective_model := or_else (Option.bind (jget ''model'' response) as_str) (effective_model u),
           effective_service_tier := or_else (Option.bind (jget ''service_tier'' response) as_str) (effective_service_tier u)\<rparr>)"

definition usage_candidates :: "json \<Rightarrow> json list" where
  "usage_candidates value =
     List.map_filter id
       [jget ''usage'' value, Option.bind (jget ''response'' value) (jget ''usage''),
        Option.bind (jget ''item'' value) (jget ''usage'')]"

definition merge_usage :: "json \<Rightarrow> usage_data \<Rightarrow> usage_data" where
  "merge_usage value u = fold merge_usage_fields (usage_candidates value) (merge_response_metadata value u)"

definition extract_usage_from_json :: "json \<Rightarrow> usage_data" where
  "extract_usage_from_json value = merge_usage value usage_default"

section \<open>The last object with a given name\<close>

text \<open>\<open>rmatch_indices\<close>: the matches that end at or before \<open>e\<close>, from the last, without overlap.\<close>

function rmatch_indices :: "string \<Rightarrow> string \<Rightarrow> nat \<Rightarrow> nat list" where
  "rmatch_indices w s e =
     (if w = [] \<or> e < length w then []
      else if starts_with (drop (e - length w) s) w then (e - length w) # rmatch_indices w s (e - length w)
      else rmatch_indices w s (e - 1))"
  by pat_completeness auto
termination
  by (relation "measure (\<lambda>(w, s, e). e)") (auto simp: neq_Nil_conv)

declare rmatch_indices.simps [simp del]

text \<open>The number of bytes up to and including the brace that closes the object, from the given depth.\<close>

fun object_length :: "nat \<Rightarrow> bool \<Rightarrow> bool \<Rightarrow> string \<Rightarrow> nat option" where
  "object_length depth in_string escaped [] = None"
| "object_length depth in_string escaped (c # cs) =
     map_option Suc
       (if in_string then
          (if escaped then object_length depth True False cs
           else if c = CHR 0x5C then object_length depth True True cs
           else object_length depth (c \<noteq> CHR 0x22) False cs)
        else if c = CHR 0x22 then object_length depth True escaped cs
        else if c = CHR ''{'' then object_length (depth + 1) False escaped cs
        else if c = CHR ''}'' then
          (if depth - 1 = 0 then Some 0 else object_length (depth - 1) False escaped cs)
        else object_length depth False escaped cs)"

definition object_after :: "(string \<Rightarrow> json option) \<Rightarrow> string \<Rightarrow> nat \<Rightarrow> json option" where
  "object_after js buffer key_end =
     (let after_key = drop key_end buffer
      in case position [CHR '':''] after_key of
           None \<Rightarrow> None
         | Some colon \<Rightarrow> (case position [CHR ''{''] (drop (colon + 1) after_key) of
             None \<Rightarrow> None
           | Some rel \<Rightarrow>
               (let object = drop (rel + colon + 1) after_key
                in Option.bind (object_length 0 False False object) (\<lambda>n. js (take n object)))))"

definition last_named_json_object :: "(string \<Rightarrow> json option) \<Rightarrow> string \<Rightarrow> string \<Rightarrow> json option" where
  "last_named_json_object js buffer name =
     (let needle = [CHR 0x22] @ name @ [CHR 0x22]
      in find_some (\<lambda>key_start. object_after js buffer (key_start + length needle))
           (rmatch_indices needle buffer (length buffer)))"

section \<open>Event streams\<close>

definition data_line :: "string \<Rightarrow> string option" where
  "data_line line =
     Option.bind (strip_prefix ''data:'' line) (\<lambda>d.
       if trim d = [] \<or> trim d = ''[DONE]'' then None else Some (trim d))"

definition sse_events :: "(string \<Rightarrow> json option) \<Rightarrow> string \<Rightarrow> json list" where
  "sse_events js buffer = List.map_filter (\<lambda>line. Option.bind (data_line line) js) (text_lines buffer)"

definition extract_usage_from_sse :: "(string \<Rightarrow> json option) \<Rightarrow> string \<Rightarrow> usage_data" where
  "extract_usage_from_sse js buffer =
     (let u = fold merge_usage (sse_events js buffer) usage_default
      in if input_tokens u = None \<and> output_tokens u = None
         then (case last_named_json_object js buffer ''usage'' of
                 Some value \<Rightarrow> merge_usage_fields value u
               | None \<Rightarrow> u)
         else u)"

definition response_id_from_value :: "json \<Rightarrow> string option" where
  "response_id_from_value value =
     or_else (Option.bind (jget ''id'' value) as_str) (Option.bind (pointer [''response'', ''id''] value) as_str)"

definition response_id_from_sse :: "(string \<Rightarrow> json option) \<Rightarrow> string \<Rightarrow> string option" where
  "response_id_from_sse js buffer = find_some response_id_from_value (rev (sse_events js buffer))"

definition capture_metadata ::
  "(string \<Rightarrow> json option) \<Rightarrow> tail_capture \<Rightarrow> bool \<Rightarrow> usage_data \<times> string option" where
  "capture_metadata js capture assume_sse =
     (let bytes = tail_to_vec capture; captured = from_utf8_lossy bytes
      in if assume_sse \<or> starts_with captured ''data:'' \<or> occurs (CHR 0x0A # ''data:'') captured
         then (extract_usage_from_sse js captured, response_id_from_sse js captured)
         else (case js bytes of
                 Some v \<Rightarrow> (extract_usage_from_json v, response_id_from_value v)
               | None \<Rightarrow> (usage_default, None)))"

definition model_from_body :: "(string \<Rightarrow> json option) \<Rightarrow> string \<Rightarrow> string option" where
  "model_from_body js body = Option.bind (js body) (\<lambda>v. Option.bind (jget ''model'' v) as_str)"

section \<open>What a stream reports\<close>

lemma or_else_simps [simp]: "or_else (Some x) b = Some x" "or_else None b = b" "or_else a None = a"
  by (simp_all add: or_else_def split: option.splits)

lemma or_else_assoc: "or_else (or_else a b) c = or_else a (or_else b c)"
  by (simp add: or_else_def split: option.splits)

lemma find_some_append: "find_some f (xs @ ys) = or_else (find_some f xs) (find_some f ys)"
  by (induction xs) (auto split: option.splits)

text \<open>One field of the counters: merging a value overrides it when the value has it.\<close>

locale usage_field =
  fixes field :: "usage_data \<Rightarrow> 'a option" and read :: "json \<Rightarrow> 'a option"
  assumes field_default: "field usage_default = None"
    and field_merge: "field (merge_usage value u) = or_else (read value) (field u)"
begin

lemma read_single: "field (extract_usage_from_json value) = read value"
  by (simp add: extract_usage_from_json_def field_merge field_default)

lemma fold_last: "field (fold merge_usage events u) = or_else (find_some read (rev events)) (field u)"
  by (induction events arbitrary: u) (simp_all add: field_merge find_some_append or_else_assoc split: option.splits)

lemma last_event: "field (fold merge_usage events usage_default) = find_some (\<lambda>v. field (extract_usage_from_json v)) (rev events)"
  by (simp add: fold_last field_default read_single cong: )

end

definition read_counter :: "(json \<Rightarrow> 'a option) \<Rightarrow> json \<Rightarrow> 'a option" where
  "read_counter get value = find_some get (rev (usage_candidates value))"

lemma fold_candidates:
  assumes "\<And>c u. field (merge_usage_fields c u) = or_else (get c) (field u)"
  shows "field (fold merge_usage_fields cs u) = or_else (find_some get (rev cs)) (field u)"
  by (induction cs arbitrary: u) (simp_all add: assms find_some_append or_else_assoc split: option.splits)

lemma counter_field:
  assumes "\<And>c u. field (merge_usage_fields c u) = or_else (get c) (field u)"
    "\<And>v u. field (merge_response_metadata v u) = field u" "field usage_default = None"
  shows "usage_field field (read_counter get)"
  by unfold_locales (simp_all add: merge_usage_def read_counter_def fold_candidates [of field, OF assms(1)] assms)

lemma metadata_field:
  assumes "\<And>c u. field (merge_usage_fields c u) = field u"
    "\<And>v u. field (merge_response_metadata v u) = or_else (get v) (field u)" "field usage_default = None"
  shows "usage_field field get"
proof -
  have "field (fold merge_usage_fields cs u) = field u" for cs u
    by (induction cs arbitrary: u) (simp_all add: assms)
  then show ?thesis by unfold_locales (simp_all add: merge_usage_def assms)
qed

interpretation input_field: usage_field input_tokens
  "read_counter (\<lambda>c. Option.bind (jget ''input_tokens'' c) as_i64)"
  by (rule counter_field) (simp_all add: merge_usage_fields_def merge_response_metadata_def usage_default_def Let_def)

interpretation output_field: usage_field output_tokens
  "read_counter (\<lambda>c. Option.bind (jget ''output_tokens'' c) as_i64)"
  by (rule counter_field) (simp_all add: merge_usage_fields_def merge_response_metadata_def usage_default_def Let_def)

interpretation cached_field: usage_field cached_input_tokens
  "read_counter (\<lambda>c. Option.bind (pointer [''input_tokens_details'', ''cached_tokens''] c) as_i64)"
  by (rule counter_field) (simp_all add: merge_usage_fields_def merge_response_metadata_def usage_default_def Let_def)

interpretation cache_write_field: usage_field cache_write_input_tokens
  "read_counter (\<lambda>c. Option.bind (pointer [''input_tokens_details'', ''cache_write_tokens''] c) as_i64)"
  by (rule counter_field) (simp_all add: merge_usage_fields_def merge_response_metadata_def usage_default_def Let_def)

interpretation model_field: usage_field effective_model
  "\<lambda>v. Option.bind (jget ''model'' (or_default (jget ''response'' v) v)) as_str"
  by (rule metadata_field) (simp_all add: merge_usage_fields_def merge_response_metadata_def usage_default_def Let_def)

interpretation tier_field: usage_field effective_service_tier
  "\<lambda>v. Option.bind (jget ''service_tier'' (or_default (jget ''response'' v) v)) as_str"
  by (rule metadata_field) (simp_all add: merge_usage_fields_def merge_response_metadata_def usage_default_def Let_def)


definition sample_event :: json where
  "sample_event = JObject [(''id'', JString ''resp''), (''usage'', JObject [(''input_tokens'', JNumber (PosInt 3))])]"

definition sample_parser :: "string \<Rightarrow> json option" where
  "sample_parser s = (if s = ''1'' then Some sample_event else None)"

definition sample_chunks :: "string list" where
  "sample_chunks = [''data:'', ''1'' @ [CHR 0x0A], [CHR 0x0A]]"

definition sample_capture :: tail_capture where
  "sample_capture = \<lparr>tc_buffer = ''data:1'' @ [CHR 0x0A, CHR 0x0A], tc_capacity = 64, tc_start = 0\<rparr>"


end
