(* ===== verification/Config.thy ===== *)
theory Config
  imports App_Error Auth_File Capture
begin

text \<open>
  Configuration and secrets: the settings read from the environment and the URLs made of them
  (\<open>src/config.rs\<close>), the guard of the listener (\<open>serve\<close> in \<open>src/main.rs\<close>), and the encryption of
  stored tokens (\<open>src/crypto.rs\<close>).  The environment is a map of UTF-8 texts; AES-GCM and base64 are
  the fields of \<open>cipher_suite\<close>.
\<close>

section \<open>The environment\<close>

record config =
  cfg_database_url :: string
  cfg_host :: string
  cfg_port :: nat
  cfg_upstream_base_url :: string
  cfg_auth_base_url :: string
  cfg_oauth_client_id :: string
  cfg_oauth_scope :: string
  cfg_encryption_key_file :: string
  cfg_admin_token :: "string option"
  cfg_proxy_api_token :: "string option"
  cfg_request_timeout :: nat
  cfg_token_refresh_interval_days :: int
  cfg_usage_refresh_interval :: nat

type_synonym environment = "string \<Rightarrow> string option"

definition env_var :: "environment \<Rightarrow> string \<Rightarrow> string option" where
  "env_var env key = Option.bind (env key) (\<lambda>v. if trim v = [] then None else Some (trim v))"

text \<open>\<open>PathBuf::join\<close> with a relative path.\<close>

definition join_path :: "string \<Rightarrow> string \<Rightarrow> string" where
  "join_path base rel = (if base = [] \<or> last base = CHR ''/'' then base @ rel else base @ CHR ''/'' # rel)"

definition default_data_dir :: "environment \<Rightarrow> string" where
  "default_data_dir env =
     join_path
       (case env ''XDG_DATA_HOME'' of
          Some dir \<Rightarrow> dir
        | None \<Rightarrow> (case env ''HOME'' of
            Some home \<Rightarrow> join_path (join_path home ''.local'') ''share''
          | None \<Rightarrow> ''.''))
       ''codex-lb-rs''"

definition default_encryption_key_file :: "environment \<Rightarrow> string" where
  "default_encryption_key_file env = join_path (default_data_dir env) ''encryption.key''"

definition default_database_url :: "environment \<Rightarrow> string" where
  "default_database_url env = ''sqlite://'' @ join_path (default_data_dir env) ''codex-lb.sqlite''"

text \<open>\<open>parse\<close> of an unsigned integer up to \<open>limit\<close>: a plus sign is allowed, a minus sign is not.\<close>

definition parse_unsigned :: "nat \<Rightarrow> string \<Rightarrow> nat option" where
  "parse_unsigned limit s =
     Option.bind (parse_digits (case s of c # cs \<Rightarrow> if c = CHR ''+'' then cs else s | [] \<Rightarrow> []))
       (\<lambda>n. if n \<le> limit then Some n else None)"

definition setting :: "environment \<Rightarrow> string \<Rightarrow> string \<Rightarrow> string" where
  "setting env key fallback = or_default (env_var env key) fallback"

definition from_env :: "environment \<Rightarrow> config any_result" where
  "from_env env =
     app_bind (ok_or (parse_unsigned 65535 (or_default (or_else (env_var env ''PORT'') (env_var env ''CODEX_LB_PORT'')) ''2455''))
                ''PORT/CODEX_LB_PORT must be a valid TCP port'') (\<lambda>port.
     app_bind (ok_or (parse_unsigned (2 ^ 64 - 1) (setting env ''CODEX_LB_PROXY_REQUEST_BUDGET_SECONDS'' ''600''))
                ''CODEX_LB_PROXY_REQUEST_BUDGET_SECONDS must be an integer'') (\<lambda>timeout.
     app_bind (ok_or (parse_i64 (setting env ''CODEX_LB_TOKEN_REFRESH_INTERVAL_DAYS'' ''8''))
                ''CODEX_LB_TOKEN_REFRESH_INTERVAL_DAYS must be an integer'') (\<lambda>days.
     app_bind (ok_or (parse_unsigned (2 ^ 64 - 1) (setting env ''CODEX_LB_USAGE_REFRESH_INTERVAL_SECONDS'' ''120''))
                ''CODEX_LB_USAGE_REFRESH_INTERVAL_SECONDS must be an integer'') (\<lambda>interval.
       Inr \<lparr>cfg_database_url = or_default (env_var env ''CODEX_LB_DATABASE_URL'') (default_database_url env),
            cfg_host = setting env ''HOST'' ''127.0.0.1'', cfg_port = port,
            cfg_upstream_base_url = setting env ''CODEX_LB_UPSTREAM_BASE_URL'' ''https://chatgpt.com/backend-api'',
            cfg_auth_base_url = setting env ''CODEX_LB_AUTH_BASE_URL'' ''https://auth.openai.com'',
            cfg_oauth_client_id = setting env ''CODEX_LB_OAUTH_CLIENT_ID'' ''app_EMoamEEZ73f0CkXaXp7hrann'',
            cfg_oauth_scope = setting env ''CODEX_LB_OAUTH_SCOPE'' ''openid profile email'',
            cfg_encryption_key_file = or_default (env_var env ''CODEX_LB_ENCRYPTION_KEY_FILE'') (default_encryption_key_file env),
            cfg_admin_token = env_var env ''CODEX_LB_ADMIN_TOKEN'',
            cfg_proxy_api_token = env_var env ''CODEX_LB_PROXY_API_TOKEN'',
            cfg_request_timeout = timeout, cfg_token_refresh_interval_days = days,
            cfg_usage_refresh_interval = max interval 30\<rparr>))))"

section \<open>Upstream addresses\<close>

definition trim_end_slashes :: "string \<Rightarrow> string" where
  "trim_end_slashes s = rev (dropWhile (\<lambda>c. c = CHR ''/'') (rev s))"

definition ends_with :: "string \<Rightarrow> string \<Rightarrow> bool" where
  "ends_with s w \<longleftrightarrow> starts_with (rev s) (rev w)"

definition upstream_codex_responses_url :: "config \<Rightarrow> string" where
  "upstream_codex_responses_url c = trim_end_slashes (cfg_upstream_base_url c) @ ''/codex/responses''"

definition upstream_codex_responses_websocket_url :: "config \<Rightarrow> string any_result" where
  "upstream_codex_responses_websocket_url c =
     (let url = upstream_codex_responses_url c
      in case strip_prefix ''https://'' url of
           Some rest \<Rightarrow> Inr (''wss://'' @ rest)
         | None \<Rightarrow> (case strip_prefix ''http://'' url of
             Some rest \<Rightarrow> Inr (''ws://'' @ rest)
           | None \<Rightarrow>
               if starts_with url ''ws://'' \<or> starts_with url ''wss://'' then Inr url
               else Inl ''CODEX_LB_UPSTREAM_BASE_URL must use http(s) or ws(s)''))"

definition upstream_codex_compact_url :: "config \<Rightarrow> string" where
  "upstream_codex_compact_url c = trim_end_slashes (cfg_upstream_base_url c) @ ''/codex/responses/compact''"

definition upstream_codex_models_url :: "config \<Rightarrow> string" where
  "upstream_codex_models_url c = trim_end_slashes (cfg_upstream_base_url c) @ ''/codex/models''"

definition upstream_usage_url :: "config \<Rightarrow> string" where
  "upstream_usage_url c =
     (let base = trim_end_slashes (cfg_upstream_base_url c)
      in if ends_with base ''/backend-api'' \<or> occurs ''/backend-api/'' base
         then base @ ''/wham/usage'' else base @ ''/backend-api/wham/usage'')"

definition token_refresh_url :: "config \<Rightarrow> string" where
  "token_refresh_url c = trim_end_slashes (cfg_auth_base_url c) @ ''/oauth/token''"

section \<open>The listener\<close>

text \<open>The arguments of \<open>serve\<close> override the environment; whether the address is a loopback one is the
  parameter \<open>loopback\<close>, of host and port.\<close>

definition with_args :: "string option \<Rightarrow> nat option \<Rightarrow> config \<Rightarrow> config" where
  "with_args host port c = c\<lparr>cfg_host := or_default host (cfg_host c), cfg_port := or_default port (cfg_port c)\<rparr>"

definition listen_guard :: "(string \<Rightarrow> nat \<Rightarrow> bool) \<Rightarrow> config \<Rightarrow> unit any_result" where
  "listen_guard loopback c =
     (if \<not> loopback (cfg_host c) (cfg_port c) \<and> (cfg_admin_token c = None \<or> cfg_proxy_api_token c = None)
      then Inl ''refusing a non-loopback listener without both CODEX_LB_ADMIN_TOKEN and CODEX_LB_PROXY_API_TOKEN''
      else Inr ())"

definition serve_config ::
  "(string \<Rightarrow> nat \<Rightarrow> bool) \<Rightarrow> string option \<Rightarrow> nat option \<Rightarrow> environment \<Rightarrow> config any_result" where
  "serve_config loopback host port env =
     app_bind (from_env env) (\<lambda>c.
       let c' = with_args host port c in app_bind (listen_guard loopback c') (\<lambda>_. Inr c'))"

section \<open>Stored tokens\<close>

record cipher_suite =
  seal :: "string \<Rightarrow> string \<Rightarrow> string \<Rightarrow> string option"
  unseal :: "string \<Rightarrow> string \<Rightarrow> string \<Rightarrow> string option"
  b64_encode :: "string \<Rightarrow> string"
  b64_decode :: "string \<Rightarrow> string option"
  b64_decode_padded :: "string \<Rightarrow> string option"
  utf8_valid :: "string \<Rightarrow> bool"

definition encrypt :: "cipher_suite \<Rightarrow> string \<Rightarrow> string \<Rightarrow> string \<Rightarrow> string any_result" where
  "encrypt cs key nonce plaintext =
     app_bind (ok_or (seal cs key nonce plaintext) ''encryption failed'') (\<lambda>ciphertext.
       Inr (''v1:'' @ b64_encode cs nonce @ '':'' @ b64_encode cs ciphertext))"

definition decrypt :: "cipher_suite \<Rightarrow> string \<Rightarrow> string \<Rightarrow> string any_result" where
  "decrypt cs key encoded =
     (let parts = splitn 3 (CHR '':'') encoded
      in app_bind (ok_or (nth_part 1 parts) ''encrypted token missing nonce'') (\<lambda>nonce_text.
         app_bind (ok_or (nth_part 2 parts) ''encrypted token missing ciphertext'') (\<lambda>cipher_text.
           if nth_part 0 parts \<noteq> Some ''v1'' then Inl ''unsupported encrypted token version''
           else app_bind (ok_or (b64_decode cs nonce_text) ''decoding nonce'') (\<lambda>nonce.
                app_bind (ok_or (b64_decode cs cipher_text) ''decoding ciphertext'') (\<lambda>ciphertext.
                  if length nonce \<noteq> 12 then Inl ''invalid nonce length''
                  else app_bind (ok_or (unseal cs key nonce ciphertext) ''decryption failed'') (\<lambda>plaintext.
                    if utf8_valid cs plaintext then Inr plaintext else Inl ''decrypted token was not utf-8''))))))"

definition decode_key :: "cipher_suite \<Rightarrow> string \<Rightarrow> string any_result" where
  "decode_key cs raw =
     app_bind (ok_or (or_else (b64_decode cs raw) (b64_decode_padded cs raw)) ''decoding encryption key'') (\<lambda>key.
       if length key = 32 then Inr key else Inl ''encryption key must decode to exactly 32 bytes'')"

section \<open>What the configuration and the cipher guarantee\<close>

lemma env_var_nonempty: "env_var env k = Some v \<Longrightarrow> v \<noteq> []"
  by (auto simp: env_var_def bind_eq_Some_conv split: if_splits)

lemma from_env_ok:
  assumes "from_env env = Inr c"
  shows "cfg_admin_token c = env_var env ''CODEX_LB_ADMIN_TOKEN''
     \<and> cfg_proxy_api_token c = env_var env ''CODEX_LB_PROXY_API_TOKEN''
     \<and> cfg_port c \<le> 65535 \<and> 30 \<le> cfg_usage_refresh_interval c \<and> in_i64 (cfg_token_refresh_interval_days c)"
  using assms unfolding from_env_def
  by (auto simp: parse_unsigned_def bind_eq_Some_conv dest: parse_i64_range split: if_splits)

text \<open>
  C32: The daemon serves another interface than the loopback one only with a non-empty admin token
  and a non-empty proxy token, wherever host and port come from; the usage is not refreshed more
  often than every 30 seconds.
\<close>

theorem exposed_listener_has_tokens:
  assumes "serve_config loopback host port env = Inr c"
  shows "(\<not> loopback (cfg_host c) (cfg_port c) \<longrightarrow>
       (\<exists>a p. cfg_admin_token c = Some a \<and> a \<noteq> [] \<and> cfg_proxy_api_token c = Some p \<and> p \<noteq> []))
     \<and> 30 \<le> cfg_usage_refresh_interval c"
proof -
  from assms obtain c0 where c0: "from_env env = Inr c0" and c: "c = with_args host port c0"
    and g: "listen_guard loopback c = Inr ()"
    by (auto simp: serve_config_def Let_def)
  note ok = from_env_ok [OF c0]
  have t: "cfg_admin_token c = cfg_admin_token c0" "cfg_proxy_api_token c = cfg_proxy_api_token c0"
    "cfg_usage_refresh_interval c = cfg_usage_refresh_interval c0"
    by (simp_all add: c with_args_def)
  show ?thesis
    using g ok env_var_nonempty unfolding listen_guard_def t
    by (auto split: if_splits)
qed

definition sample_env :: environment where
  "sample_env = [''CODEX_LB_ADMIN_TOKEN'' \<mapsto> ''a'', ''CODEX_LB_PROXY_API_TOKEN'' \<mapsto> ''p'', ''HOST'' \<mapsto> ''h'',
     ''PORT'' \<mapsto> ''80'', ''CODEX_LB_PROXY_REQUEST_BUDGET_SECONDS'' \<mapsto> ''9'',
     ''CODEX_LB_TOKEN_REFRESH_INTERVAL_DAYS'' \<mapsto> ''8'', ''CODEX_LB_USAGE_REFRESH_INTERVAL_SECONDS'' \<mapsto> ''5'']"

lemma sample_texts: "trim ''a'' = ''a''" "trim ''p'' = ''p''" "trim ''h'' = ''h''" "trim ''80'' = ''80''" "trim ''9'' = ''9''"
  "trim ''8'' = ''8''" "trim ''5'' = ''5''"
  by (rule trim_plain, simp add: plain_byte_def byte_def)+

lemma sample_serve:
  "\<exists>c. serve_config (\<lambda>_ _. False) None None sample_env = Inr c \<and> cfg_usage_refresh_interval c = 30"
  by (simp add: serve_config_def from_env_def sample_env_def env_var_def sample_texts setting_def or_default_def or_else_def
      parse_unsigned_def parse_digits_def parse_i64_def is_ascii_digit_def byte_def with_args_def listen_guard_def
      i64_simps Let_def)

lemma exposed_listener_has_tokens_witness:
  "\<exists>c a. serve_config (\<lambda>_ _. False) None None sample_env = Inr c \<and> cfg_admin_token c = Some a \<and> a \<noteq> []"
  using sample_serve exposed_listener_has_tokens [of "\<lambda>_ _. False" None None sample_env] by blast

text \<open>What the code relies on of the cipher and of base64.\<close>

definition suite_ok :: "cipher_suite \<Rightarrow> bool" where
  "suite_ok cs \<longleftrightarrow>
     (\<forall>x. b64_decode cs (b64_encode cs x) = Some x) \<and> (\<forall>x. CHR '':'' \<notin> set (b64_encode cs x))
     \<and> (\<forall>key nonce p c. length nonce = 12 \<longrightarrow> seal cs key nonce p = Some c \<longrightarrow> unseal cs key nonce c = Some p)"

text \<open>
  A token is read back from what was stored for it, under the same key and whatever the nonce.
\<close>

lemma decrypt_encrypt:
  assumes cs: "suite_ok cs" and n: "length nonce = 12" and utf8: "utf8_valid cs token"
    and e: "encrypt cs key nonce token = Inr stored"
  shows "decrypt cs key stored = Inr token"
proof -
  from e obtain c where c: "seal cs key nonce token = Some c"
    and s: "stored = ''v1'' @ CHR '':'' # b64_encode cs nonce @ CHR '':'' # b64_encode cs c"
    by (auto simp: encrypt_def)
  from cs have no: "CHR '':'' \<notin> set (b64_encode cs nonce)" and un: "unseal cs key nonce c = Some token"
    and de: "b64_decode cs (b64_encode cs nonce) = Some nonce" "b64_decode cs (b64_encode cs c) = Some c"
    using n c by (auto simp: suite_ok_def)
  have v: "CHR '':'' \<notin> set ''v1''" by simp
  have "splitn 3 (CHR '':'') stored = [''v1'', b64_encode cs nonce, b64_encode cs c]"
    unfolding s numeral_3_eq_3 splitn_first [OF v] splitn_first [OF no] by simp
  with de un n utf8 show ?thesis by (simp add: decrypt_def nth_part_def)
qed

text \<open>An instance: bytes written as pairs of letters, and a cipher that appends the key.\<close>

fun letters :: "string \<Rightarrow> string" where
  "letters [] = []"
| "letters (c # cs) = char_of (65 + byte c div 16) # char_of (65 + byte c mod 16) # letters cs"

fun unletters :: "string \<Rightarrow> string option" where
  "unletters [] = Some []"
| "unletters [c] = None"
| "unletters (a # b # cs) = map_option (\<lambda>r. char_of (16 * (byte a - 65) + (byte b - 65)) # r) (unletters cs)"

definition sample_suite :: cipher_suite where
  "sample_suite = \<lparr>seal = \<lambda>key nonce p. Some (p @ key), unseal = \<lambda>key nonce c. Some (take (length c - length key) c),
     b64_encode = letters, b64_decode = unletters, b64_decode_padded = unletters, utf8_valid = \<lambda>_. True\<rparr>"

lemma byte_less: "byte c < 256"
  unfolding byte_def by (simp add: of_char_def horner_sum_bound)

lemma byte_char: "n < 256 \<Longrightarrow> byte (char_of n) = n"
  by (simp add: byte_def)

lemma unletters_letters: "unletters (letters s) = Some s"
proof (induction s)
  case (Cons c s)
  have "byte c div 16 < 16" "byte c mod 16 < 16" using byte_less [of c] by auto
  then have "char_of (16 * (byte (char_of (65 + byte c div 16)) - 65) + (byte (char_of (65 + byte c mod 16)) - 65)) = c"
    by (simp add: byte_char) (simp add: byte_def)
  with Cons show ?case by simp
qed simp

lemma letters_no_colon: "CHR '':'' \<notin> set (letters s)"
proof (induction s)
  case (Cons c s)
  have "byte c div 16 < 16" "byte c mod 16 < 16" using byte_less [of c] by auto
  then have "byte (char_of (65 + byte c div 16)) \<noteq> byte (CHR '':'')" "byte (char_of (65 + byte c mod 16)) \<noteq> byte (CHR '':'')"
    by (simp_all add: byte_char) (simp_all add: byte_def)
  with Cons show ?case by auto
qed simp

lemma sample_suite_ok: "suite_ok sample_suite"
  by (simp add: suite_ok_def sample_suite_def unletters_letters letters_no_colon)

lemma decrypt_encrypt_witness:
  "\<exists>stored. encrypt sample_suite ''k'' (replicate 12 CHR ''n'') ''token'' = Inr stored
     \<and> decrypt sample_suite ''k'' stored = Inr ''token''"
  using decrypt_encrypt [OF sample_suite_ok, of "replicate 12 CHR ''n''" "''token''" "''k''"]
  by (auto simp: encrypt_def sample_suite_def)

end
