(* ===== verification/Requests.thy ===== *)
theory Requests
  imports Stream_Metadata Config Session_Routes
begin

text \<open>
  The proxied requests themselves (\<open>src/proxy.rs\<close>, \<open>src/upstream.rs\<close>): the keys a request is routed
  by, the check of the caller, the request that is built for the upstream and the headers and
  buffered bodies that come back.  A header map is the list of its entries, names in lower case.
\<close>

section \<open>Headers\<close>

type_synonym headers = "(string \<times> string) list"

abbreviation header_get :: "headers \<Rightarrow> string \<Rightarrow> string option" where
  "header_get hs name \<equiv> map_of hs name"

text \<open>\<open>HeaderValue::to_str\<close>: visible ASCII and tabs.\<close>

definition to_str :: "string \<Rightarrow> string option" where
  "to_str v = (if list_all (\<lambda>c. (32 \<le> byte c \<and> byte c < 127) \<or> byte c = 9) v then Some v else None)"

definition header_str :: "headers \<Rightarrow> string \<Rightarrow> string option" where
  "header_str hs name = Option.bind (header_get hs name) to_str"

definition affinity_value_limit :: nat where
  "affinity_value_limit = 64 * 1024"

definition usable_value :: "string \<Rightarrow> string option" where
  "usable_value v =
     (if trim v = [] then None else if length (trim v) \<le> affinity_value_limit then Some (trim v) else None)"

section \<open>The keys of a request\<close>

definition session_route_key :: "(string \<Rightarrow> string) \<Rightarrow> string \<Rightarrow> string \<Rightarrow> route_key" where
  "session_route_key sha kind v = \<lparr>key_hash = affinity_hash sha kind v, key_kind = kind\<rparr>"

definition push_new :: "route_key \<Rightarrow> route_key list \<Rightarrow> route_key list" where
  "push_new k ks = (if list_ex (\<lambda>x. key_hash x = key_hash k) ks then ks else ks @ [k])"

definition header_keys :: "(string \<times> string) list" where
  "header_keys =
     [(''x-codex-turn-state'', ''turn_state''), (''session_id'', ''session_id''), (''x-session-id'', ''session_id''),
      (''x-codex-session-id'', ''session_id''), (''x-codex-conversation-id'', ''conversation_id''),
      (''conversation_id'', ''conversation_id'')]"

definition body_keys :: "(string list \<times> string) list" where
  "body_keys =
     [([''prompt_cache_key''], ''prompt_cache_key''), ([''session_id''], ''session_id''),
      ([''conversation_id''], ''conversation_id''), ([''previous_response_id''], ''response_id''),
      ([''metadata'', ''session_id''], ''session_id''), ([''metadata'', ''conversation_id''], ''conversation_id'')]"

definition keyed_values :: "('k \<Rightarrow> string option) \<Rightarrow> ('k \<times> string) list \<Rightarrow> (string \<times> string) list" where
  "keyed_values get ks =
     List.map_filter (\<lambda>(k, kind). map_option (\<lambda>v. (kind, v)) (Option.bind (get k) usable_value)) ks"

definition request_affinities :: "(string \<Rightarrow> string) \<Rightarrow> (string \<Rightarrow> json option) \<Rightarrow> headers \<Rightarrow> string \<Rightarrow> route_key list" where
  "request_affinities sha js hs body =
     (let push = (\<lambda>(kind, v). push_new (session_route_key sha kind v));
          from_headers = fold push (keyed_values (header_str hs) header_keys) []
      in case js body of
           None \<Rightarrow> from_headers
         | Some v \<Rightarrow> fold push (keyed_values (\<lambda>p. Option.bind (pointer p v) as_str) body_keys) from_headers)"

definition selection_affinity :: "route_key list \<Rightarrow> route_epoch option \<Rightarrow> route_key option" where
  "selection_affinity ks epoch =
     or_else (Option.bind epoch (\<lambda>e. List.find (\<lambda>k. key_hash k = ep_selection_key e) ks))
             (case ks of [] \<Rightarrow> None | k # _ \<Rightarrow> Some k)"

definition response_affinities :: "(string \<Rightarrow> string) \<Rightarrow> route_key list \<Rightarrow> string \<Rightarrow> route_key list" where
  "response_affinities sha ks response_id = push_new (session_route_key sha ''response_id'' response_id) ks"

text \<open>\<open>Uuid::new_v4().to_string()\<close> is the parameter \<open>fresh\<close>.\<close>

definition request_id :: "string \<Rightarrow> headers \<Rightarrow> string" where
  "request_id fresh hs =
     or_default (Option.bind (header_str hs ''x-request-id'') (\<lambda>v. if trim v = [] then None else Some v)) fresh"

section \<open>The caller\<close>

definition validate_proxy_auth :: "config \<Rightarrow> headers \<Rightarrow> unit app_result" where
  "validate_proxy_auth c hs =
     (if header_get hs ''origin'' \<noteq> None then Inl (Unauthorized ''browser-origin proxy requests are not allowed'')
      else (case cfg_proxy_api_token c of
              None \<Rightarrow> Inr ()
            | Some expected \<Rightarrow>
                if Option.bind (header_str hs ''authorization'') (strip_prefix ''Bearer '') = Some expected then Inr ()
                else Inl (Unauthorized ''invalid proxy token'')))"

section \<open>The request for the upstream\<close>

record upstream_request =
  ur_method :: string
  ur_url :: string
  ur_timeout :: nat
  ur_headers :: headers
  ur_body :: string

definition forwarded_request_names :: "string list" where
  "forwarded_request_names =
     [''user-agent'', ''originator'', ''openai-beta'', ''accept-language'', ''session_id'', ''x-session-id'',
      ''x-request-id'', ''x-codex-session-id'', ''x-codex-conversation-id'', ''x-codex-turn-state'',
      ''x-codex-turn-metadata'', ''x-codex-client-version'', ''x-codex-service-tier'', ''x-openai-client-user-agent'']"

definition should_forward_request_header :: "string \<Rightarrow> bool" where
  "should_forward_request_header name \<longleftrightarrow>
     name \<in> set forwarded_request_names \<or> starts_with name ''x-stainless-''"

definition account_header :: "account \<Rightarrow> headers" where
  "account_header a = (case acc_chatgpt_id a of None \<Rightarrow> [] | Some i \<Rightarrow> [(''chatgpt-account-id'', i)])"

definition build_upstream_responses_request ::
  "config \<Rightarrow> selected \<Rightarrow> string \<Rightarrow> string \<Rightarrow> headers \<Rightarrow> bool \<Rightarrow> upstream_request" where
  "build_upstream_responses_request c sel body rid incoming compacted =
     \<lparr>ur_method = ''POST'',
      ur_url = (if compacted then upstream_codex_compact_url c else upstream_codex_responses_url c),
      ur_timeout = cfg_request_timeout c,
      ur_headers =
        [(''authorization'', ''Bearer '' @ at_access (sel_tokens sel)),
         (''accept'', if compacted then ''application/json'' else ''text/event-stream''),
         (''content-type'', ''application/json''), (''x-request-id'', rid)]
        @ filter (\<lambda>(n, _). should_forward_request_header n) incoming @ account_header (sel_account sel),
      ur_body = body\<rparr>"

definition build_upstream_models_request ::
  "config \<Rightarrow> selected \<Rightarrow> string \<Rightarrow> headers \<Rightarrow> string option \<Rightarrow> upstream_request" where
  "build_upstream_models_request c sel rid incoming raw_query =
     \<lparr>ur_method = ''GET'',
      ur_url = upstream_codex_models_url c @
        (case raw_query of None \<Rightarrow> [] | Some query \<Rightarrow> if query = [] then [] else CHR ''?'' # query),
      ur_timeout = cfg_request_timeout c,
      ur_headers =
        [(''authorization'', ''Bearer '' @ at_access (sel_tokens sel)), (''accept'', ''application/json''), (''x-request-id'', rid)]
        @ filter (\<lambda>(n, _). should_forward_request_header n) incoming @ account_header (sel_account sel),
      ur_body = []\<rparr>"

section \<open>What comes back\<close>

text \<open>A response of the upstream: a stream of chunks that may end in an error.\<close>

record upstream_response =
  rs_status :: nat
  rs_headers :: headers
  rs_chunks :: "(string + string) list"

record client_response =
  cr_status :: nat
  cr_headers :: headers
  cr_body :: string

definition error_body_limit :: nat where
  "error_body_limit = 1024 * 1024"

definition log_message_limit :: nat where
  "log_message_limit = 2000"

definition should_forward_response_header :: "string \<Rightarrow> bool" where
  "should_forward_response_header name \<longleftrightarrow>
     name \<in> {''content-type'', ''cache-control'', ''etag'', ''last-modified'', ''vary'', ''retry-after'', ''x-request-id'',
        ''openai-processing-ms'', ''x-ratelimit-limit-requests'', ''x-ratelimit-remaining-requests'',
        ''x-ratelimit-reset-requests'', ''x-codex-turn-state''}
     \<or> starts_with name ''x-codex-''"

definition forwarded_response_headers :: "headers \<Rightarrow> headers" where
  "forwarded_response_headers hs = filter (\<lambda>(n, _). should_forward_response_header n) hs"

fun buffer_body :: "(string + string) list \<Rightarrow> string \<Rightarrow> string" where
  "buffer_body [] body = body"
| "buffer_body (Inr chunk # rest) body =
     (if error_body_limit - length body = 0 then body
      else buffer_body rest (body @ take (min (length chunk) (error_body_limit - length body)) chunk))"
| "buffer_body (Inl err # rest) body =
     (if body = [] then ''failed to read upstream response: '' @ err else body)"

definition buffered :: "upstream_response \<Rightarrow> client_response" where
  "buffered r = \<lparr>cr_status = rs_status r, cr_headers = forwarded_response_headers (rs_headers r),
     cr_body = buffer_body (rs_chunks r) []\<rparr>"

definition buffered_message :: "client_response \<Rightarrow> string" where
  "buffered_message r = take_chars log_message_limit (from_utf8_lossy (cr_body r))"

definition is_event_stream :: "headers \<Rightarrow> bool" where
  "is_event_stream hs =
     (case header_str hs ''content-type'' of
        None \<Rightarrow> False | Some v \<Rightarrow> occurs ''text/event-stream'' (to_ascii_lowercase v))"

definition is_auth_status :: "nat \<Rightarrow> bool" where
  "is_auth_status status \<longleftrightarrow> status = 401 \<or> status = 403"

definition retry_after_seconds :: "headers \<Rightarrow> int \<Rightarrow> int" where
  "retry_after_seconds hs fallback =
     clamp 1 (60 * 60) (or_default (Option.bind (header_str hs ''retry-after'') parse_i64) fallback)"

definition proxy_attempts :: "int \<Rightarrow> nat \<Rightarrow> nat" where
  "proxy_attempts active_count max_attempts =
     (if active_count \<le> 0 then 1 else min (nat active_count) (max max_attempts 1))"

section \<open>The keys pass the store's validation\<close>

definition good_key :: "route_key \<Rightarrow> bool" where
  "good_key k \<longleftrightarrow> valid_affinity_hash (key_hash k) \<and> trim (key_kind k) = key_kind k \<and> valid_kind (key_kind k)"

definition key_kinds :: "string list" where
  "key_kinds = [''turn_state'', ''session_id'', ''conversation_id'', ''prompt_cache_key'', ''response_id'']"

lemma key_kinds_good: "kind \<in> set key_kinds \<Longrightarrow> trim kind = kind \<and> valid_kind kind"
proof -
  have "list_all (\<lambda>k. list_all plain_byte k \<and> valid_kind k) key_kinds" by code_simp
  then show "kind \<in> set key_kinds \<Longrightarrow> trim kind = kind \<and> valid_kind kind"
    by (auto simp: list_all_iff trim_plain)
qed

lemma validate_loop_good:
  "distinct (map key_hash (found @ ks)) \<Longrightarrow> \<forall>k \<in> set ks. good_key k \<Longrightarrow> validate_keys_loop found ks = Inr (found @ ks)"
proof (induction ks arbitrary: found)
  case (Cons k ks)
  obtain h kind where k: "k = \<lparr>key_hash = h, key_kind = kind\<rparr>" by (cases k)
  from Cons.prems have "tbl_find key_hash h found = None" by (auto simp: find_None_iff_key k)
  then show ?case using Cons.prems Cons.IH [of "found @ [k]"] by (simp add: good_key_def Let_def k)
qed simp

lemma push_new_good:
  "distinct (map key_hash ks) \<Longrightarrow> distinct (map key_hash (push_new k ks))"
  "\<forall>x \<in> set ks. good_key x \<Longrightarrow> good_key k \<Longrightarrow> \<forall>x \<in> set (push_new k ks). good_key x"
  "length (push_new k ks) \<le> Suc (length ks)"
  by (auto simp: push_new_def table_simps)

lemma push_all_good:
  assumes "\<forall>(kind, v) \<in> set kvs. kind \<in> set key_kinds" "\<And>x. valid_affinity_hash (sha x)"
  shows "distinct (map key_hash ks) \<Longrightarrow> \<forall>x \<in> set ks. good_key x \<Longrightarrow>
     (let r = fold (\<lambda>(kind, v). push_new (session_route_key sha kind v)) kvs ks
      in distinct (map key_hash r) \<and> (\<forall>x \<in> set r. good_key x) \<and> length r \<le> length ks + length kvs)"
  using assms(1)
proof (induction kvs arbitrary: ks)
  case (Cons kv kvs)
  obtain kind v where kv: "kv = (kind, v)" by (cases kv)
  have k: "good_key (session_route_key sha kind v)"
    using Cons.prems(3) assms(2) key_kinds_good by (simp add: kv good_key_def session_route_key_def affinity_hash_def)
  from Cons.IH [OF push_new_good(1) [OF Cons.prems(1)] push_new_good(2) [OF Cons.prems(2) k]]
    Cons.prems(3) push_new_good(3) [of "session_route_key sha kind v" ks]
  show ?case by (fastforce simp: kv Let_def)
qed simp

lemma keyed_values_kinds: "(kind, v) \<in> set (keyed_values get ks) \<Longrightarrow> kind \<in> snd ` set ks"
  by (force simp: keyed_values_def map_filter_def split: option.splits)

lemma keyed_values_length: "length (keyed_values get ks) \<le> length ks"
  by (simp add: keyed_values_def map_filter_def)

lemma request_affinities_good:
  assumes "\<And>x. valid_affinity_hash (sha x)"
  shows "distinct (map key_hash (request_affinities sha js hs body))
     \<and> (\<forall>k \<in> set (request_affinities sha js hs body). good_key k) \<and> length (request_affinities sha js hs body) \<le> 12"
proof -
  let ?h = "keyed_values (header_str hs) header_keys"
  have h: "\<forall>(kind, v) \<in> set ?h. kind \<in> set key_kinds"
    using keyed_values_kinds [of _ _ "header_str hs" header_keys] by (force simp: header_keys_def key_kinds_def)
  have b: "\<forall>(kind, v) \<in> set (keyed_values get body_keys). kind \<in> set key_kinds" for get
    using keyed_values_kinds [of _ _ get body_keys] by (force simp: body_keys_def key_kinds_def)
  let ?r = "fold (\<lambda>(kind, v). push_new (session_route_key sha kind v)) ?h []"
  have "length ?h \<le> 6" using keyed_values_length [of "header_str hs" header_keys] by (simp add: header_keys_def [THEN arg_cong, of length])
  with push_all_good [where sha = sha, OF h assms, of "[]"]
  have r: "distinct (map key_hash ?r)" "\<forall>x \<in> set ?r. good_key x" "length ?r \<le> 6" by (simp_all add: Let_def)
  show ?thesis
  proof (cases "js body")
    case None
    with r show ?thesis by (simp add: request_affinities_def Let_def)
  next
    case (Some v)
    let ?g = "\<lambda>p. Option.bind (pointer p v) as_str"
    have "length (keyed_values ?g body_keys) \<le> 6"
      using keyed_values_length [of ?g body_keys] by (simp add: body_keys_def [THEN arg_cong, of length])
    with push_all_good [where sha = sha, OF b assms r(1,2), of ?g] r(3) Some show ?thesis
      by (auto simp: request_affinities_def Let_def)
  qed
qed

text \<open>
  C34: the keys read from a request, with or without the key of its response, are accepted by the
  store's validation as they are: a digest in lower-case hex is all that is asked of the hash.
\<close>

theorem request_keys_accepted:
  assumes sha: "\<And>x. valid_affinity_hash (sha x)"
    and ks: "ks = request_affinities sha js hs body"
  shows "validate_session_route_keys ks = Inr ks
     \<and> validate_session_route_keys (response_affinities sha ks rid) = Inr (response_affinities sha ks rid)"
proof -
  have good: "distinct (map key_hash ks)" "\<forall>k \<in> set ks. good_key k" "length ks \<le> 12"
    using request_affinities_good [where sha = sha, OF sha] unfolding ks by auto
  have k: "good_key (session_route_key sha ''response_id'' rid)"
    using sha key_kinds_good [of "''response_id''"] by (simp add: good_key_def session_route_key_def affinity_hash_def key_kinds_def)
  show ?thesis
    using validate_loop_good [of "[]" ks] good validate_loop_good [of "[]" "response_affinities sha ks rid"]
      push_new_good(1) [OF good(1)] push_new_good(2) [OF good(2) k] push_new_good(3) [of "session_route_key sha ''response_id'' rid" ks]
    by (simp add: validate_session_route_keys_def response_affinities_def)
qed

definition sample_sha :: "string \<Rightarrow> string" where
  "sample_sha s = replicate 64 (if s = [] then CHR ''a'' else CHR ''b'')"

lemma request_keys_accepted_witness:
  "\<exists>k. request_affinities sample_sha (\<lambda>_. None) [(''session_id'', ''s'')] [] = [k]
     \<and> validate_session_route_keys [k] = Inr [k]"
proof -
  have s: "trim ''s'' = ''s''" by (rule trim_plain) (simp add: plain_byte_def byte_def)
  have r: "\<exists>k. request_affinities sample_sha (\<lambda>_. None) [(''session_id'', ''s'')] [] = [k]"
    by (simp add: request_affinities_def keyed_values_def header_keys_def map_filter_simps header_str_def to_str_def
        byte_def usable_value_def s affinity_value_limit_def push_new_def)
  have "valid_affinity_hash (sample_sha x)" for x
    by (simp add: valid_affinity_hash_def sample_sha_def lower_hex_def byte_def list_all_iff)
  from request_keys_accepted [where sha = sample_sha, OF this refl, where js = "\<lambda>_. None" and hs = "[(''session_id'', ''s'')]" and body = "[]"] r show ?thesis by auto
qed

section \<open>Whose credentials go upstream\<close>

definition sensitive_names :: "string list" where
  "sensitive_names = [''authorization'', ''cookie'', ''proxy-authorization'', ''chatgpt-account-id'', ''host'', ''origin'']"

definition secrets :: "headers \<Rightarrow> headers" where
  "secrets hs = filter (\<lambda>(n, _). n \<in> set sensitive_names) hs"

definition account_credentials :: "selected \<Rightarrow> headers" where
  "account_credentials sel =
     (''authorization'', ''Bearer '' @ at_access (sel_tokens sel)) # account_header (sel_account sel)"

lemma sensitive_not_forwarded: "n \<in> set sensitive_names \<Longrightarrow> \<not> should_forward_request_header n"
proof -
  have "list_all (\<lambda>n. \<not> should_forward_request_header n) sensitive_names" by code_simp
  then show "n \<in> set sensitive_names \<Longrightarrow> \<not> should_forward_request_header n" by (auto simp: list_all_iff)
qed

lemma account_header_sensitive: "filter (\<lambda>(n, _). n \<in> set sensitive_names) (account_header a) = account_header a"
  by (auto simp: account_header_def sensitive_names_def split: option.splits)

text \<open>
  C35: a request that goes upstream carries the credentials of the selected account and no others:
  whatever headers the client sent, the only authorization and account headers are the account's, and there is
  no cookie, host or origin of the client.
\<close>

theorem only_account_credentials:
  "secrets (ur_headers (build_upstream_responses_request c sel body rid incoming compacted)) = account_credentials sel
   \<and> secrets (ur_headers (build_upstream_models_request c sel rid incoming query)) = account_credentials sel"
proof -
  have "filter (\<lambda>(n, _). n \<in> set sensitive_names) (filter (\<lambda>(n, _). should_forward_request_header n) hs) = []" for hs :: headers
    using sensitive_not_forwarded by (auto simp: filter_empty_conv)
  moreover have "''authorization'' \<in> set sensitive_names" "''accept'' \<notin> set sensitive_names"
    "''content-type'' \<notin> set sensitive_names" "''x-request-id'' \<notin> set sensitive_names"
    by (simp_all add: sensitive_names_def)
  ultimately show ?thesis
    by (simp add: secrets_def account_credentials_def build_upstream_responses_request_def build_upstream_models_request_def
        account_header_sensitive)
qed

end
