(* ===== verification/Upstream.thy ===== *)
theory Upstream
  imports Requests Usage_Store
begin

text \<open>
  The calls the daemon makes of itself (\<open>src/upstream.rs\<close>): the refresh of an account's tokens and
  of its usage.  The replies of the servers are parameters: what a request returns is an error text
  or a status with a body.
\<close>

section \<open>Parameters\<close>

text \<open>
  A reply to the token request: a failure to send, or a status and the body, parsed as JSON or the
  text of the error.  A reply to the usage request: a failure to send, or a status and the body's
  text or a failure to read it.
\<close>

type_synonym oauth_reply = "string + (nat \<times> (string + json))"
type_synonym usage_reply = "string + (nat \<times> (string + string))"

text \<open>
  \<open>encrypt_with now i\<close> and \<open>decrypt_with\<close> are the cipher under the daemon's key; \<open>oauth now token\<close>
  answers the request that spends \<open>token\<close>; \<open>usage now access account\<close> the request for the usage;
  \<open>stamp\<close> is the time in a stored timestamp and \<open>clock_of now\<close> chrono's \<open>Utc::now()\<close>; \<open>status_text\<close>
  and \<open>json_text\<close> print a status and a JSON value, \<open>shape_error\<close> serde's complaint about a body of the wrong shape.
\<close>

record upstream_io =
  io_sqlite :: sqlite
  io_chrono :: chrono
  io_codecs :: codecs
  io_add :: "datetime \<Rightarrow> int \<Rightarrow> datetime option"
  encrypt_with :: "instant \<Rightarrow> nat \<Rightarrow> string \<Rightarrow> string any_result"
  decrypt_with :: "string \<Rightarrow> string any_result"
  oauth :: "instant \<Rightarrow> string \<Rightarrow> oauth_reply"
  usage_call :: "instant \<Rightarrow> string \<Rightarrow> string option \<Rightarrow> usage_reply"
  stamp :: "string \<Rightarrow> datetime"
  clock_of :: "instant \<Rightarrow> datetime"
  status_text :: "nat \<Rightarrow> string"
  json_text :: "json \<Rightarrow> string"
  shape_error :: "json \<Rightarrow> string"

definition is_success :: "nat \<Rightarrow> bool" where
  "is_success status \<longleftrightarrow> 200 \<le> status \<and> status < 300"

section \<open>Tokens\<close>

record oauth_payload =
  op_access :: "string option"
  op_refresh :: "string option"
  op_id :: "string option"
  op_error :: "json option"
  op_description :: "string option"
  op_message :: "string option"
  op_code :: "string option"

definition de_oauth_payload :: "json \<Rightarrow> oauth_payload option" where
  "de_oauth_payload v =
     (if \<not> struct_shape 7 v then None else
      Option.bind (opt_field as_str (struct_field [''access_token''] 0 v)) (\<lambda>a.
      Option.bind (opt_field as_str (struct_field [''refresh_token''] 1 v)) (\<lambda>r.
      Option.bind (opt_field as_str (struct_field [''id_token''] 2 v)) (\<lambda>i.
      Option.bind (opt_field Some (struct_field [''error''] 3 v)) (\<lambda>e.
      Option.bind (opt_field as_str (struct_field [''error_description''] 4 v)) (\<lambda>d.
      Option.bind (opt_field as_str (struct_field [''message''] 5 v)) (\<lambda>m.
      Option.bind (opt_field as_str (struct_field [''code''] 6 v)) (\<lambda>c.
      Some \<lparr>op_access = a, op_refresh = r, op_id = i, op_error = e, op_description = d, op_message = m,
            op_code = c\<rparr>))))))))"

definition oauth_error_message :: "oauth_payload \<Rightarrow> string option" where
  "oauth_error_message p =
     or_else (op_message p) (or_else (op_description p) (or_else (op_code p)
       (case op_error p of
          Some (JString s) \<Rightarrow> Some s
        | Some (JObject m) \<Rightarrow>
            Option.bind (or_else (map_of m ''message'') (or_else (map_of m ''error_description'') (map_of m ''code''))) as_str
        | _ \<Rightarrow> None)))"

definition read_oauth_reply :: "upstream_io \<Rightarrow> oauth_reply \<Rightarrow> oauth_payload app_result" where
  "read_oauth_reply io reply =
     (case reply of
        Inl err \<Rightarrow> Inl (Upstream (''token refresh request failed: '' @ err))
      | Inr (status, body) \<Rightarrow>
          (case body of
             Inl err \<Rightarrow> Inl (Upstream (''invalid token refresh response: '' @ err))
           | Inr v \<Rightarrow> (case de_oauth_payload v of
               None \<Rightarrow> Inl (Upstream (''invalid token refresh response: '' @ shape_error io v))
             | Some p \<Rightarrow>
                 if is_success status then Inr p
                 else Inl (Upstream (or_default (oauth_error_message p)
                        (''token refresh failed ('' @ status_text io status @ '')'')))))) "

definition refreshed_auth :: "upstream_io \<Rightarrow> instant \<Rightarrow> oauth_payload \<Rightarrow> auth_file app_result" where
  "refreshed_auth io now p =
     app_bind (ok_or (op_access p) (Upstream ''refresh response missing access_token'')) (\<lambda>a.
     app_bind (ok_or (op_refresh p) (Upstream ''refresh response missing refresh_token'')) (\<lambda>r.
     app_bind (ok_or (op_id p) (Upstream ''refresh response missing id_token'')) (\<lambda>i.
       Inr \<lparr>api_key = None, auth_toks = \<lparr>tok_id = i, tok_access = a, tok_refresh = r, tok_account_id = None\<rparr>,
            auth_last_refresh_at = Some (clock_of io now)\<rparr>)))"

text \<open>\<open>observed\<close> is the store when the account is first read, \<open>d\<close> when the refresh lock is held.\<close>

definition refresh_account_tokens :: "upstream_io \<Rightarrow> instant \<Rightarrow> uuid \<Rightarrow> db \<Rightarrow> db \<Rightarrow> account app_result \<times> db" where
  "refresh_account_tokens io now aid observed d =
     (case (get_account aid observed, get_account aid d) of
        (Some before, Some current) \<Rightarrow>
          (if acc_refresh current \<noteq> acc_refresh before \<or> acc_access current \<noteq> acc_access before
           then (Inr current, d)
           else case app_bind (from_anyhow (decrypt_with io (acc_refresh current))) (\<lambda>token.
                     app_bind (read_oauth_reply io (oauth io now token)) (refreshed_auth io now)) of
                  Inl e \<Rightarrow> (Inl e, d)
                | Inr auth \<Rightarrow> update_account_tokens (io_sqlite io) now (encrypt_with io now) aid auth
                     (claims_from_auth (io_chrono io) (io_codecs io) auth) d)
      | _ \<Rightarrow> (Inl (account_not_found (io_sqlite io) aid), d))"

text \<open>Whole days since then, truncated towards zero.\<close>

definition should_refresh :: "datetime \<Rightarrow> datetime \<Rightarrow> int \<Rightarrow> bool" where
  "should_refresh now last_refresh_at interval_days \<longleftrightarrow>
     (now - last_refresh_at) sdiv (86400 * nanos_per_second) \<ge> interval_days"

section \<open>Usage\<close>

definition is_auth_error :: "app_error \<Rightarrow> bool" where
  "is_auth_error e = (case e of Upstream m \<Rightarrow> occurs ''401'' m \<or> occurs ''403'' m | _ \<Rightarrow> False)"

definition fetch_usage_raw :: "upstream_io \<Rightarrow> usage_reply \<Rightarrow> json app_result" where
  "fetch_usage_raw io reply =
     (case reply of
        Inl err \<Rightarrow> Inl (Upstream (''usage request failed: '' @ err))
      | Inr (status, body) \<Rightarrow>
          (case body of
             Inl err \<Rightarrow> Inl (Upstream (''failed to read usage response: '' @ err))
           | Inr text \<Rightarrow>
               (let raw = or_default (json_parse (io_codecs io) text) (JString (take_chars 1000 text))
                in if \<not> is_success status
                   then Inl (Upstream (''usage request failed ('' @ status_text io status @ ''): '' @ json_text io raw))
                   else if as_str raw \<noteq> None then Inl (Upstream ''usage response was not valid JSON'')
                   else Inr raw)))"

definition parse_primary_usage_window :: "chrono \<Rightarrow> json \<Rightarrow> rat option \<times> datetime option" where
  "parse_primary_usage_window ch raw =
     (let primary = pointer [''rate_limit'', ''primary_window''] raw
      in (Option.bind (Option.bind primary (jget ''used_percent'')) as_f64,
          Option.bind (Option.bind (Option.bind primary (jget ''reset_at'')) as_i64) (ts_seconds ch)))"

definition fetch_usage :: "upstream_io \<Rightarrow> instant \<Rightarrow> string \<Rightarrow> string option \<Rightarrow> json app_result" where
  "fetch_usage io now encrypted_access chatgpt_id =
     app_bind (from_anyhow (decrypt_with io encrypted_access)) (\<lambda>access.
       fetch_usage_raw io (usage_call io now access chatgpt_id))"

text \<open>The payload: fetched again with new tokens when the first answer is an authorization error.\<close>

definition usage_payload :: "upstream_io \<Rightarrow> instant \<Rightarrow> account \<Rightarrow> db \<Rightarrow> json app_result \<times> db" where
  "usage_payload io now a d =
     (case from_anyhow (decrypt_with io (acc_access a)) of
        Inl e \<Rightarrow> (Inl e, d)
      | Inr access \<Rightarrow> (case fetch_usage_raw io (usage_call io now access (acc_chatgpt_id a)) of
          Inr raw \<Rightarrow> (Inr raw, d)
        | Inl e \<Rightarrow>
            (if is_auth_error e then
               (case refresh_account_tokens io now (acc_id a) d d of
                  (Inl e', d') \<Rightarrow> (Inl e', d')
                | (Inr a', d') \<Rightarrow> (fetch_usage io now (acc_access a') (acc_chatgpt_id a'), d'))
             else (Inl e, d))))"

text \<open>What is done with the payload; a panic of the parser is \<open>None\<close>.\<close>

definition store_usage :: "upstream_io \<Rightarrow> instant \<Rightarrow> uuid \<Rightarrow> json \<Rightarrow> db \<Rightarrow> (usage_snapshot app_result \<times> db) option" where
  "store_usage io now aid raw d =
     map_option (\<lambda>windows.
       let fetched_at = clock_of io now;
           plan = Option.bind (or_else (jget ''plan_type'' raw) (jget ''plan'' raw)) as_str
       in case replace_usage_windows (io_sqlite io) now aid plan fetched_at windows d of
            (Inl e, d') \<Rightarrow> (Inl e, d')
          | (Inr _, d') \<Rightarrow>
              (let (used, reset) = parse_primary_usage_window (io_chrono io) raw
               in insert_usage_snapshot (io_sqlite io) now aid used None None reset raw d'))
       (parse_usage_windows (io_chrono io) (io_add io) raw (clock_of io now))"

definition refresh_account_usage ::
  "upstream_io \<Rightarrow> instant \<Rightarrow> uuid \<Rightarrow> db \<Rightarrow> (usage_snapshot app_result \<times> db) option" where
  "refresh_account_usage io now aid d =
     (case get_account aid d of
        None \<Rightarrow> Some (Inl (account_not_found (io_sqlite io) aid), d)
      | Some a \<Rightarrow> (case usage_payload io now a d of
          (Inl e, d') \<Rightarrow> Some (Inl e, d')
        | (Inr raw, d') \<Rightarrow> store_usage io now (acc_id a) raw d'))"

text \<open>One account after the other, each at its own instant; an error is recorded on the account.\<close>

fun refresh_each ::
  "upstream_io \<Rightarrow> (uuid \<Rightarrow> instant) \<Rightarrow> uuid list \<Rightarrow> usage_snapshot list \<Rightarrow> db \<Rightarrow> (usage_snapshot list \<times> db) option" where
  "refresh_each io at_time [] snapshots d = Some (snapshots, d)"
| "refresh_each io at_time (aid # aids) snapshots d =
     Option.bind (refresh_account_usage io (at_time aid) aid d) (\<lambda>(res, d').
       case res of
         Inr s \<Rightarrow> refresh_each io at_time aids (snapshots @ [s]) d'
       | Inl e \<Rightarrow> refresh_each io at_time aids snapshots
           (mark_usage_error (io_sqlite io) (at_time aid) aid (error_text e) d'))"

definition refresh_all_usage ::
  "upstream_io \<Rightarrow> (uuid \<Rightarrow> instant) \<Rightarrow> db \<Rightarrow> (usage_snapshot list \<times> db) option" where
  "refresh_all_usage io at_time d = refresh_each io at_time (map acc_id (active_accounts d)) [] d"

section \<open>What a refresh changes\<close>

text \<open>Only the row of the account, if any, and the usage tables.\<close>

definition touches_account :: "uuid \<Rightarrow> db \<Rightarrow> db \<Rightarrow> bool" where
  "touches_account aid d d' \<longleftrightarrow> same_but_usage d d'
     \<and> (\<exists>f. (\<forall>a. acc_id (f a) = acc_id a) \<and> t_accounts d' = tbl_update (\<lambda>a. acc_id a = aid) f (t_accounts d))"

lemma touches_accountI:
  "same_but_usage d d' \<Longrightarrow> (\<And>a. acc_id (f a) = acc_id a)
   \<Longrightarrow> t_accounts d' = tbl_update (\<lambda>a. acc_id a = aid) f (t_accounts d) \<Longrightarrow> touches_account aid d d'"
  unfolding touches_account_def by blast

lemma tbl_update_id: "tbl_update p (\<lambda>a. a) t = t"
  by (simp add: tbl_update_def)

lemma touches_account_same: "same_but_usage d d' \<Longrightarrow> t_accounts d' = t_accounts d \<Longrightarrow> touches_account aid d d'"
  unfolding touches_account_def by (metis tbl_update_id)

lemma touches_account_trans:
  assumes "touches_account aid a b" "touches_account aid b c"
  shows "touches_account aid a c"
proof -
  from assms obtain f g where f: "\<forall>x. acc_id (f x) = acc_id x" "t_accounts b = tbl_update (\<lambda>x. acc_id x = aid) f (t_accounts a)"
    and g: "\<forall>x. acc_id (g x) = acc_id x" "t_accounts c = tbl_update (\<lambda>x. acc_id x = aid) g (t_accounts b)"
    by (auto simp: touches_account_def)
  have "t_accounts c = tbl_update (\<lambda>x. acc_id x = aid) (g \<circ> f) (t_accounts a)"
    unfolding f(2) g(2) using f(1) by (simp add: tbl_update_def)
  moreover have "\<forall>x. acc_id ((g \<circ> f) x) = acc_id x" using f(1) g(1) by simp
  ultimately show ?thesis using assms same_but_usage_trans unfolding touches_account_def by blast
qed

lemma touches_account_other:
  assumes "touches_account aid d d'"
  shows "b \<noteq> aid \<Longrightarrow> get_account b d' = get_account b d" "map acc_id (t_accounts d') = map acc_id (t_accounts d)"
    "get_account aid d = Some a \<Longrightarrow> \<exists>a'. get_account aid d' = Some a'"
proof -
  from assms obtain f where f: "\<And>x. acc_id (f x) = acc_id x" "t_accounts d' = tbl_update (\<lambda>x. acc_id x = aid) f (t_accounts d)"
    by (auto simp: touches_account_def)
  show "b \<noteq> aid \<Longrightarrow> get_account b d' = get_account b d" "map acc_id (t_accounts d') = map acc_id (t_accounts d)"
    "get_account aid d = Some a \<Longrightarrow> \<exists>a'. get_account aid d' = Some a'"
    unfolding f(2) by (simp_all add: find_update_same f(1) map_update_key)
qed

lemma update_tokens_touches:
  assumes "update_account_tokens q now enc aid auth claims d = (res, d')"
  shows "touches_account aid d d'"
proof (cases "d' = d")
  case True
  then show ?thesis by (simp add: touches_account_same)
next
  case False
  with assms obtain f where "d' = update_acc aid f d" "\<forall>a. acc_id (f a) = acc_id a"
    by (fastforce simp: update_account_tokens_def Let_def split: sum.splits if_splits)
  then show ?thesis by (auto simp: touches_account_def same_but_usage_def)
qed

lemma refresh_tokens_ok:
  assumes "refresh_account_tokens io now aid observed d = (res, d')" "db_ok d"
  shows "db_ok d' \<and> touches_account aid d d'"
proof -
  consider "d' = d" | auth where "update_account_tokens (io_sqlite io) now (encrypt_with io now) aid auth
                     (claims_from_auth (io_chrono io) (io_codecs io) auth) d = (res, d')"
    using assms(1) by (auto simp: refresh_account_tokens_def split: option.splits sum.splits if_splits)
  then show ?thesis
  proof cases
    case 1
    with assms(2) show ?thesis by (simp add: touches_account_same)
  next
    case 2
    with update_tokens_touches [OF 2] db_ok_update_tokens [OF assms(2)] show ?thesis by (metis snd_conv)
  qed
qed

lemma usage_payload_ok:
  assumes "usage_payload io now a d = (res, d')" "db_ok d"
  shows "db_ok d' \<and> touches_account (acc_id a) d d'"
proof -
  consider "d' = d" | r where "refresh_account_tokens io now (acc_id a) d d = (r, d')"
    using assms(1) by (auto simp: usage_payload_def split: sum.splits if_splits prod.splits)
  then show ?thesis
    using refresh_tokens_ok [OF _ assms(2)] assms(2) by cases (auto simp: touches_account_same)
qed

lemma store_usage_ok:
  assumes st: "store_usage io now aid raw d = Some (res, d')" and ok: "db_ok d" and a: "get_account aid d = Some a"
  shows "db_ok d' \<and> touches_account aid d d'
     \<and> (\<forall>s. res = Inr s \<longrightarrow> (\<exists>a'. get_account aid d' = Some a' \<and> acc_usage_error a' = None
          \<and> acc_usage_refresh_at a' = Some (dt_text (io_sqlite io) (clock_of io now))))"
proof -
  let ?t = "clock_of io now"
  from st obtain ws plan res1 d1 where rep: "replace_usage_windows (io_sqlite io) now aid plan ?t ws d = (res1, d1)"
    and rest: "(case res1 of Inl e \<Rightarrow> (Inl e, d1) | Inr _ \<Rightarrow> (let (used, reset) = parse_primary_usage_window (io_chrono io) raw
               in insert_usage_snapshot (io_sqlite io) now aid used None None reset raw d1)) = (res, d')"
  proof -
    from st obtain ws where "parse_usage_windows (io_chrono io) (io_add io) raw ?t = Some ws"
      by (auto simp: store_usage_def)
    moreover obtain res1 d1 where "replace_usage_windows (io_sqlite io) now aid
        (Option.bind (or_else (jget ''plan_type'' raw) (jget ''plan'' raw)) as_str) ?t ws d = (res1, d1)" by fastforce
    ultimately show ?thesis using st that unfolding store_usage_def Let_def by (cases res1) auto
  qed
  note r = replace_usage_windows_ok [OF rep ok]
  have t1: "touches_account aid d d1"
  proof (cases "res1 = Inr ()")
    case True
    with r usage_refreshed_keys show ?thesis
      by (intro touches_accountI [where f = "usage_refreshed (io_sqlite io) now plan ?t"]) simp_all
  next
    case False
    with r show ?thesis by (simp add: touches_account_same)
  qed
  show ?thesis
  proof (cases res1)
    case (Inl e)
    with rest r t1 show ?thesis by auto
  next
    case (Inr x)
    obtain used reset where "parse_primary_usage_window (io_chrono io) raw = (used, reset)" by fastforce
    with rest Inr have ins: "insert_usage_snapshot (io_sqlite io) now aid used None None reset raw d1 = (res, d')" by simp
    from r have d1: "db_ok d1" by simp
    note i = insert_usage_snapshot_ok [OF ins d1]
    have "get_account aid d1 = Some (usage_refreshed (io_sqlite io) now plan ?t a)"
      using r Inr a usage_refreshed_keys by (simp add: find_update_same)
    then have "get_account aid d' = Some (usage_refreshed (io_sqlite io) now plan ?t a)" using i by simp
    moreover have "touches_account aid d d'"
      using touches_account_trans [OF t1] touches_account_same i by blast
    ultimately show ?thesis using i by (simp add: usage_refreshed_def Let_def)
  qed
qed

lemma refresh_account_usage_ok:
  assumes "refresh_account_usage io now aid d = Some (res, d')" "db_ok d" "get_account aid d = Some a"
  shows "db_ok d' \<and> touches_account aid d d'
     \<and> (\<forall>s. res = Inr s \<longrightarrow> (\<exists>a'. get_account aid d' = Some a' \<and> acc_usage_error a' = None
          \<and> acc_usage_refresh_at a' = Some (dt_text (io_sqlite io) (clock_of io now))))"
proof -
  have id: "acc_id a = aid" using find_Some_key [OF assms(3)] by simp
  obtain r1 d1 where p: "usage_payload io now a d = (r1, d1)" by fastforce
  note pok = usage_payload_ok [OF p assms(2)]
  show ?thesis
  proof (cases r1)
    case (Inl e)
    with assms p pok id show ?thesis by (auto simp: refresh_account_usage_def)
  next
    case (Inr raw)
    with assms(1,3) p id have st: "store_usage io now aid raw d1 = Some (res, d')" by (simp add: refresh_account_usage_def)
    from touches_account_other(3) [of aid d d1 a] pok id assms(3) obtain a1 where "get_account aid d1 = Some a1" by auto
    from store_usage_ok [OF st _ this] pok id show ?thesis using touches_account_trans by blast
  qed
qed

text \<open>
  C36: a refresh token is not spent twice: a task that waited for the refresh lock of an account
  while another one renewed its tokens returns the renewed account as it is stored, without a call
  to the server and without a change of the store.
\<close>

theorem renewed_tokens_not_spent_again:
  assumes first: "refresh_account_tokens io1 now1 aid d d = (Inr renewed, d1)"
    and a: "get_account aid d = Some a" and fresh: "acc_refresh renewed \<noteq> acc_refresh a"
  shows "refresh_account_tokens io2 now2 aid d d1 = (Inr renewed, d1)"
proof -
  from first a fresh have "get_account aid d1 = Some renewed"
    by (auto simp: refresh_account_tokens_def update_account_tokens_def Let_def split: sum.splits if_splits)
  with a fresh show ?thesis by (simp add: refresh_account_tokens_def)
qed

definition refresh_outcome :: "upstream_io \<Rightarrow> (uuid \<Rightarrow> instant) \<Rightarrow> uuid \<Rightarrow> db \<Rightarrow> bool" where
  "refresh_outcome io at_time aid d \<longleftrightarrow>
     (\<exists>a. get_account aid d = Some a
        \<and> (acc_usage_error a = None \<and> acc_usage_refresh_at a = Some (dt_text (io_sqlite io) (clock_of io (at_time aid)))
           \<or> (\<exists>e. acc_usage_error a = Some (error_text e))))"

lemma mark_error_ok:
  "db_ok d \<Longrightarrow> db_ok (mark_usage_error q now aid m d) \<and> touches_account aid d (mark_usage_error q now aid m d)"
proof (rule conjI)
  show "db_ok d \<Longrightarrow> db_ok (mark_usage_error q now aid m d)" by (rule db_ok_mark_usage_error)
  show "touches_account aid d (mark_usage_error q now aid m d)" unfolding mark_usage_error_def
    by (rule touches_accountI [where f = "\<lambda>a. a\<lparr>acc_usage_error := Some m, acc_updated_at := now_text q now\<rparr>"]) simp_all
qed

lemma mark_error_found:
  "get_account aid d = Some a \<Longrightarrow> \<exists>a'. get_account aid (mark_usage_error q now aid m d) = Some a' \<and> acc_usage_error a' = Some m"
  by (simp add: mark_usage_error_def find_update_same)

lemma refresh_each_ok:
  assumes "refresh_each io at_time aids snapshots d = Some (snaps, d')" "db_ok d" "distinct aids"
    "\<forall>aid \<in> set aids. get_account aid d \<noteq> None"
  shows "db_ok d' \<and> same_but_usage d d' \<and> map acc_id (t_accounts d') = map acc_id (t_accounts d)
     \<and> (\<forall>aid \<in> set aids. refresh_outcome io at_time aid d')
     \<and> (\<forall>b. b \<notin> set aids \<longrightarrow> get_account b d' = get_account b d)"
  using assms
proof (induction aids arbitrary: snapshots d)
  case (Cons aid aids)
  from Cons.prems obtain res d1 where r: "refresh_account_usage io (at_time aid) aid d = Some (res, d1)"
    by (auto simp: bind_eq_Some_conv)
  from Cons.prems(4) obtain a where a: "get_account aid d = Some a" by auto
  note ok = refresh_account_usage_ok [OF r Cons.prems(2) a]
  define d2 where "d2 = (case res of Inr _ \<Rightarrow> d1 | Inl e \<Rightarrow> mark_usage_error (io_sqlite io) (at_time aid) aid (error_text e) d1)"
  have next_step: "\<exists>s'. refresh_each io at_time aids s' d2 = Some (snaps, d')"
    using Cons.prems(1) r by (auto simp: d2_def split: sum.splits)
  from touches_account_other(3) [of aid d d1 a] ok a obtain a1 where a1: "get_account aid d1 = Some a1" by auto
  have d2: "db_ok d2 \<and> touches_account aid d d2"
    using ok mark_error_ok [of d1] touches_account_trans unfolding d2_def by (cases res) auto
  have out: "refresh_outcome io at_time aid d2"
  proof (cases res)
    case (Inl e)
    with mark_error_found [OF a1] show ?thesis unfolding d2_def refresh_outcome_def by fastforce
  next
    case (Inr s)
    with ok show ?thesis unfolding d2_def refresh_outcome_def by auto
  qed
  note other = touches_account_other [OF conjunct2 [OF d2]]
  from next_step obtain s' where "refresh_each io at_time aids s' d2 = Some (snaps, d')" by blast
  from Cons.IH [OF this] d2 Cons.prems(3,4) other(1)
  have ih: "db_ok d' \<and> same_but_usage d2 d' \<and> map acc_id (t_accounts d') = map acc_id (t_accounts d2)
     \<and> (\<forall>aid \<in> set aids. refresh_outcome io at_time aid d')
     \<and> (\<forall>b. b \<notin> set aids \<longrightarrow> get_account b d' = get_account b d2)"
    by (metis distinct.simps(2) list.set_intros(2))
  moreover have "refresh_outcome io at_time aid d'"
    using out ih Cons.prems(3) unfolding refresh_outcome_def by simp
  moreover have "same_but_usage d d'"
    using d2 ih same_but_usage_trans unfolding touches_account_def by blast
  ultimately show ?case using other by simp
qed simp


section \<open>Instances\<close>

definition sample_payload :: json where
  "sample_payload = JObject [(''access_token'', JString ''new-a''), (''refresh_token'', JString ''new-r''), (''id_token'', JString ''new-i'')]"

definition sample_io :: upstream_io where
  "sample_io = \<lparr>io_sqlite = sample_sqlite, io_chrono = plain_chrono, io_codecs = no_codecs,
     io_add = \<lambda>t n. Some (t + n), encrypt_with = \<lambda>_ _ s. Inr s, decrypt_with = Inr,
     oauth = \<lambda>_ _. Inr (200, Inr sample_payload), usage_call = \<lambda>_ _ _. Inl ''down'',
     stamp = \<lambda>_. 0, clock_of = int, status_text = \<lambda>_. ''status'', json_text = \<lambda>_. ''json'',
     shape_error = \<lambda>_. ''shape''\<rparr>"

lemma sample_io_simps:
  "io_sqlite sample_io = sample_sqlite" "io_chrono sample_io = plain_chrono" "io_codecs sample_io = no_codecs"
  "encrypt_with sample_io n = (\<lambda>_. Inr)" "decrypt_with sample_io = Inr" "clock_of sample_io = int"
  "oauth sample_io n token = Inr (200, Inr sample_payload)" "usage_call sample_io n a c = Inl ''down''"
  by (simp_all add: sample_io_def)

lemma renewed_tokens_not_spent_again_witness:
  "\<exists>renewed d1. refresh_account_tokens sample_io 6 7 sample_db sample_db = (Inr renewed, d1)
     \<and> refresh_account_tokens sample_io 8 7 sample_db d1 = (Inr renewed, d1)"
proof -
  let ?r = "refresh_account_tokens sample_io 6 7 sample_db sample_db"
  let ?auth = "\<lparr>api_key = None, auth_toks = \<lparr>tok_id = ''new-i'', tok_access = ''new-a'', tok_refresh = ''new-r'',
     tok_account_id = None\<rparr>, auth_last_refresh_at = Some 6\<rparr>"
  have call: "app_bind (read_oauth_reply sample_io (Inr (200, Inr sample_payload))) (refreshed_auth sample_io 6) = Inr ?auth"
    by (simp add: read_oauth_reply_def sample_payload_def de_oauth_payload_def struct_shape_def struct_field_def
        opt_field_def is_success_def refreshed_auth_def sample_io_simps)
  have "?r = update_account_tokens sample_sqlite 6 (\<lambda>_. Inr) 7 ?auth (claims_from_auth plain_chrono no_codecs ?auth) sample_db"
    by (simp add: refresh_account_tokens_def sample_db_fields imported_row_def sample_io_simps call)
  moreover have "\<exists>renewed d1. update_account_tokens sample_sqlite 6 (\<lambda>_. Inr) 7 ?auth claims sample_db = (Inr renewed, d1)
      \<and> acc_refresh renewed = ''new-r''" for claims
    by (simp add: update_account_tokens_def Let_def chatgpt_taken_def tbl_update_def account_exists_def
        sample_db_fields imported_row_def)
  ultimately obtain renewed d1 where r: "?r = (Inr renewed, d1)" "acc_refresh renewed = ''new-r''" by metis
  have a: "get_account 7 sample_db = Some (hd (t_accounts sample_db))" "acc_refresh (hd (t_accounts sample_db)) = ''r''"
    by (simp_all add: sample_db_fields imported_row_def)
  have "acc_refresh renewed \<noteq> acc_refresh (hd (t_accounts sample_db))" using r(2) a(2) by simp
  from renewed_tokens_not_spent_again [OF r(1) a(1) this, of sample_io 8] r(1) show ?thesis by blast
qed


end
