(* ===== verification/Store.thy ===== *)
theory Store
  imports Session_Invariants Upstream
begin

text \<open>
  The store as a whole: every operation the daemon performs on it, as the steps of a transition
  relation over the store and the leases that are out, and the invariant of all reachable stores.
  The clients (the proxies, the scheduler, the admin interface) rest on the lemmas about \<open>quiet\<close>
  operations: those that keep the invariant and touch no lease.
\<close>

section \<open>The joint invariant\<close>

definition store_ok :: "db \<Rightarrow> bool" where
  "store_ok d \<longleftrightarrow> db_ok d \<and> session_ok d \<and> metrics_ok d"

definition quiet :: "db \<Rightarrow> db \<Rightarrow> bool" where
  "quiet d d' \<longleftrightarrow> (store_ok d \<longrightarrow> store_ok d' \<and> load d' = load d)"

named_theorems quiet_intros \<open>operations that keep the invariant and the leases\<close>

lemma quiet_refl [simp]: "quiet d d"
  by (simp add: quiet_def)

lemma quiet_trans: "quiet a b \<Longrightarrow> quiet b c \<Longrightarrow> quiet a c"
  by (auto simp: quiet_def)

lemma session_ok_cong:
  "t_roots d' = t_roots d \<Longrightarrow> t_route_keys d' = t_route_keys d \<Longrightarrow> t_affinity d' = t_affinity d
   \<Longrightarrow> session_ok d' = session_ok d"
proof -
  assume "t_roots d' = t_roots d" "t_route_keys d' = t_route_keys d" "t_affinity d' = t_affinity d"
  then have e: "generation_of d' = generation_of d" "root_of d' = root_of d" "affinity_of d' = affinity_of d"
    by (simp_all add: fun_eq_iff root_of_def generation_of_def affinity_of_def)
  show "session_ok d' = session_ok d" unfolding session_ok_def e ..
qed

lemma metrics_ok_cong:
  "t_logs d' = t_logs d \<Longrightarrow> seq_logs d' = seq_logs d \<Longrightarrow> t_runtime d' = t_runtime d \<Longrightarrow> metrics_ok d' = metrics_ok d"
  by (simp add: metrics_ok_def logs_ok_def)

lemma store_ok_empty: "store_ok empty_db"
  by (simp add: store_ok_def empty_db_ok session_ok_def root_of_def generation_of_def affinity_of_def
      metrics_ok_def logs_ok_def) (simp add: empty_db_def)

text \<open>The fields of a runtime row the totals are about.\<close>

definition books :: "runtime_row \<Rightarrow> uuid \<times> int list" where
  "books r = (rt_account r, [rt_requests r, rt_successful r, rt_failed r, rt_unpriced r, rt_complete r, rt_partial r,
     rt_cost_lower r, rt_cost_upper r])"

lemma metrics_row_books: "books r' = books r \<Longrightarrow> metrics_row logs r' = metrics_row logs r"
  by (simp add: books_def metrics_row_def)

lemma metrics_ok_runtime:
  assumes "metrics_ok d" "\<And>r. books (f r) = books r"
  shows "metrics_ok (d\<lparr>t_runtime := tbl_update p f (t_runtime d)\<rparr>)"
proof -
  have "(\<forall>r \<in> set (tbl_update p f (t_runtime d)). metrics_row (t_logs d) r) = (\<forall>r \<in> set (t_runtime d). metrics_row (t_logs d) r)"
    by (rule ball_update) (rule metrics_row_books [OF assms(2)])
  with assms(1) show ?thesis by (simp add: metrics_ok_def logs_ok_def)
qed

lemma store_ok_runtime:
  assumes "store_ok d" "\<And>r. books (f r) = books r"
  shows "store_ok (d\<lparr>t_runtime := tbl_update p f (t_runtime d)\<rparr>)"
proof -
  have "rt_account (f r) = rt_account r" for r using assms(2) [of r] by (simp add: books_def)
  moreover have "session_ok (d\<lparr>t_runtime := tbl_update p f (t_runtime d)\<rparr>) = session_ok d"
    by (rule session_ok_cong) simp_all
  ultimately show ?thesis using assms(1) metrics_ok_runtime [OF _ assms(2)]
    by (simp add: store_ok_def db_ok_update_runtime)
qed

lemma quiet_runtime:
  assumes "\<And>r. books (f r) = books r" "\<And>r. rt_inflight (f r) = rt_inflight r"
  shows "quiet d (update_runtime aid f d)"
proof -
  have "rt_account (f r) = rt_account r" for r using assms(1) [of r] by (simp add: books_def)
  then have "load (update_runtime aid f d) = load d"
    by (auto simp: fun_eq_iff load_update [where g = "\<lambda>n. n"] assms(2) option.map_ident)
  with store_ok_runtime [OF _ assms(1)] show ?thesis by (simp add: quiet_def)
qed

text \<open>Only accounts, usage tables or settings change.\<close>

lemma quiet_unrelated:
  assumes "db_ok d \<Longrightarrow> db_ok d'" "t_runtime d' = t_runtime d" "t_logs d' = t_logs d" "seq_logs d' = seq_logs d"
    "t_roots d' = t_roots d" "t_route_keys d' = t_route_keys d" "t_affinity d' = t_affinity d"
  shows "quiet d d'"
  using assms load_same [OF assms(2)] session_ok_cong [of d' d] metrics_ok_cong [of d' d]
  by (simp add: quiet_def store_ok_def)

lemma quiet_same_but_usage: "(db_ok d \<Longrightarrow> db_ok d') \<Longrightarrow> same_but_usage d d' \<Longrightarrow> quiet d d'"
  by (rule quiet_unrelated) (simp_all add: same_but_usage_def)

section \<open>The operations of the store\<close>

lemma ensure_runtime_noop: "db_ok d \<Longrightarrow> snd (ensure_runtime_row q now aid d) = d"
  by (auto simp: ensure_runtime_row_def table_simps account_exists_iff db_ok_def runtime_total_def)

lemma quiet_cooldown [quiet_intros]: "quiet d (snd (cooldown_account q now aid n reason d))"
proof (cases "db_ok d")
  case True
  let ?f = "\<lambda>r. r\<lparr>rt_cooldown_until := Some (now_plus q now n), rt_cooldown_reason := Some reason,
            rt_failure_count := rt_failure_count r + 1, rt_updated_at := now_text q now\<rparr>"
  have "snd (cooldown_account q now aid n reason d) = d \<or> snd (cooldown_account q now aid n reason d) = update_runtime aid ?f d"
    using ensure_runtime_noop [OF True, of q now aid]
    by (auto simp: cooldown_account_def split: prod.splits sum.splits)
  moreover have "quiet d (update_runtime aid ?f d)" by (rule quiet_runtime) (simp_all add: books_def)
  ultimately show ?thesis by auto
next
  case False
  then show ?thesis by (simp add: quiet_def store_ok_def)
qed

lemma quiet_mark_auth_failed [quiet_intros]: "quiet d (mark_auth_failed q now aid reason d)"
  by (rule quiet_unrelated) (simp_all add: mark_auth_failed_def db_ok_mark_auth_failed [unfolded mark_auth_failed_def])

lemma quiet_mark_usage_error [quiet_intros]: "quiet d (mark_usage_error q now aid m d)"
  by (rule quiet_unrelated) (simp_all add: mark_usage_error_def db_ok_mark_usage_error [unfolded mark_usage_error_def])

lemma quiet_update_account [quiet_intros]: "quiet d (snd (update_account q now aid st l em pl d))"
  by (rule quiet_unrelated) (simp_all add: db_ok_update_account, auto simp: update_account_def Let_def split: sum.splits)

lemma quiet_settings [quiet_intros]: "quiet d (d\<lparr>t_settings := t\<rparr>)"
  by (rule quiet_unrelated) (simp_all add: db_ok_def keys_ok_def foreign_keys_ok_def runtime_total_def account_ids_def)

lemma insert_log_session: "session_ok (snd (insert_request_log q now e d)) = session_ok d"
  by (rule session_ok_cong) (auto simp: insert_request_log_def Let_def split: option.splits)

lemma insert_log_db_ok:
  assumes "db_ok d"
  shows "db_ok (snd (insert_request_log q now e d))"
proof -
  have keep: "db_ok (d\<lparr>t_logs := t_logs d @ [l], seq_logs := n\<rparr>)" if "opt_in (log_account l) (account_ids d)" for l n
    using assms that by (simp add: db_ok_def keys_ok_def foreign_keys_ok_def runtime_total_def account_ids_def)
  have acct: "rt_account (count_request q now e c r) = rt_account r" for c r
    by (simp add: count_request_def Let_def)
  show ?thesis
    by (auto simp: insert_request_log_def Let_def assms account_exists_iff new_log_row_def acct
        intro!: keep db_ok_update_runtime [THEN iffD2, OF acct, of "d\<lparr>t_logs := x, seq_logs := y\<rparr>" for x y, simplified]
        split: option.splits)
qed

lemma insert_log_load: "load (snd (insert_request_log q now e d)) = load d"
proof -
  have one: "load (update_runtime aid (count_request q now e c) d1) = load d1" for aid c d1
    by (auto simp: fun_eq_iff load_update [where g = "\<lambda>n. n"] count_request_def Let_def option.map_ident)
  have more: "load d' = load d" if "t_runtime d' = tbl_update (\<lambda>r. rt_account r = aid) (count_request q now e c) (t_runtime d)"
    for d' aid c
    using load_same [of d' "update_runtime aid (count_request q now e c) d"] that one by simp
  show ?thesis
    by (cases "nl_account e") (auto simp: insert_request_log_def Let_def intro: more load_same)
qed

lemma quiet_insert_log [quiet_intros]: "quiet d (snd (insert_request_log q now e d))"
  by (simp add: quiet_def store_ok_def insert_log_session insert_log_db_ok insert_log_metrics insert_log_load)

lemma add_deltas_base:
  "t_accounts (add_deltas ds d) = t_accounts d \<and> t_windows (add_deltas ds d) = t_windows d
   \<and> t_samples (add_deltas ds d) = t_samples d \<and> t_snapshots (add_deltas ds d) = t_snapshots d
   \<and> t_affinity (add_deltas ds d) = t_affinity d \<and> t_roots (add_deltas ds d) = t_roots d
   \<and> t_route_keys (add_deltas ds d) = t_route_keys d"
  by (induction ds arbitrary: d) (auto simp: add_deltas_def)

lemma ball_image_cong: "f ` A = f ` B \<Longrightarrow> (\<forall>x \<in> A. P (f x)) = (\<forall>x \<in> B. P (f x))"
  by (simp only: ball_simps(9) [symmetric])

lemma quiet_backfill [quiet_intros]: "quiet d (snd (backfill_api_costs_batch n d))"
proof (cases "store_ok d")
  case True
  then have ok: "db_ok d" and m: "metrics_ok d" and s: "session_ok d" by (simp_all add: store_ok_def)
  then have lok: "logs_ok d" by (simp add: metrics_ok_def)
  obtain res d' where b: "backfill_api_costs_batch n d = (res, d')" by fastforce
  show ?thesis
  proof (cases rule: batch_cases [OF b lok])
    case 1
    with b show ?thesis by simp
  next
    case (2 ds)
    have rt: "t_runtime d' = map (\<lambda>r. if rt_account r \<in> fst ` set ds then add_delta (delta_of (rt_account r) ds) r else r) (t_runtime d)"
      by (rule 2(6))
    have fields: "rt_account (add_delta dl r) = rt_account r" "rt_inflight (add_delta dl r) = rt_inflight r" for dl r
      by (simp_all add: add_delta_def)
    have base: "t_accounts d' = t_accounts d" "t_windows d' = t_windows d" "t_samples d' = t_samples d"
      "t_snapshots d' = t_snapshots d" "t_affinity d' = t_affinity d" "t_roots d' = t_roots d" "t_route_keys d' = t_route_keys d"
    proof -
      obtain L where L: "d' = add_deltas ds (d\<lparr>t_logs := L\<rparr>)" using 2(5) by blast
      show "t_accounts d' = t_accounts d" "t_windows d' = t_windows d" "t_samples d' = t_samples d"
        "t_snapshots d' = t_snapshots d" "t_affinity d' = t_affinity d" "t_roots d' = t_roots d" "t_route_keys d' = t_route_keys d"
        unfolding L using add_deltas_base [of ds "d\<lparr>t_logs := L\<rparr>"] by simp_all
    qed
    have accounts: "map rt_account (t_runtime d') = map rt_account (t_runtime d)"
      unfolding rt by (simp add: fields)
    then have rts: "rt_account ` set (t_runtime d') = rt_account ` set (t_runtime d)" by (metis set_map)
    have keep: "log_account (if p l then price_log e l else l) = log_account l" for p e l
      by (simp add: price_log_def)
    have same_image: "log_account ` set (map (\<lambda>l. if p l then price_log (e l) l else l) ls) = log_account ` set ls" for p e ls
      by (simp only: set_map image_image keep)
    have logs_same: "log_account ` set (t_logs d') = log_account ` set (t_logs d)" unfolding 2(3) by (rule same_image)
    have "\<forall>l \<in> set (t_logs d'). opt_in (log_account l) (account_ids d)"
      using ok ball_image_cong [OF logs_same, where P = "\<lambda>a. opt_in a (account_ids d)"]
      by (simp add: db_ok_def foreign_keys_ok_def)
    moreover have "\<forall>r \<in> set (t_runtime d'). rt_account r \<in> account_ids d"
      using ok ball_image_cong [OF rts, where P = "\<lambda>a. a \<in> account_ids d"]
      by (simp add: db_ok_def foreign_keys_ok_def)
    ultimately have "db_ok d'"
      using ok accounts base rts
      by (simp add: db_ok_def keys_ok_def foreign_keys_ok_def runtime_total_def account_ids_def)
    moreover have "load d' aid = load d aid" for aid
      using find_map_rows [OF _ rt, of aid] by (cases "get_runtime aid d") (simp_all add: load_def fields)
    moreover have "session_ok d'" using s session_ok_cong [of d' d] base by simp
    moreover have "metrics_ok d'" using batch_metrics [OF m, of n] b by simp
    ultimately show ?thesis using b by (auto simp: quiet_def store_ok_def)
  qed
qed (simp add: quiet_def)

lemma same_base_load: "same_base d d' \<Longrightarrow> load d' = load d \<and> metrics_ok d' = metrics_ok d"
  using load_same [of d' d] metrics_ok_cong [of d' d] by (simp add: same_base_def)

lemma session_same_base:
  assumes "store_ok d"
  shows "same_base d (session_step q act d)"
proof -
  from assms have ok: "db_ok d" "session_ok d" by (simp_all add: store_ok_def)
  show ?thesis
  proof (cases act)
    case (ApplyAction sel now st iv req live)
    obtain res d' where a: "apply_session_route_action q sel now st iv req live d = (res, d')" by fastforce
    show ?thesis
    proof (cases rule: apply_cases [OF a ok(1)])
      case 1
      with a ApplyAction show ?thesis by simp
    next
      case (2 p d1 input target existed)
      have "same_base d d1" unfolding 2(3) by simp
      with commit_ok(2) [OF 2(5)] a ApplyAction 2(6) show ?thesis by (auto intro: same_base_trans)
    qed
  next
    case (BindKeys now ks aid epoch)
    obtain res d' where b: "bind_affinities_at_epoch q now ks aid epoch d = (res, d')" by fastforce
    show ?thesis
    proof (cases rule: bind_affinities_cases [OF b])
      case 1
      with b BindKeys show ?thesis by simp
    next
      case (2 keys ep)
      from bind_at_epoch_facts(3) [OF 2(6) ok 2(1,3)] b BindKeys show ?thesis by simp
    next
      case (3 keys)
      have "same_base d d'" by (rule bind_without_epoch_facts [OF 3(6) ok 3(1,3)])
      with b BindKeys show ?thesis by simp
    qed
  qed
qed

lemma quiet_session [quiet_intros]: "quiet d (session_step q act d)"
proof (cases "store_ok d")
  case True
  then have ok: "db_ok d" "session_ok d" by (simp_all add: store_ok_def)
  from same_base_load [OF session_same_base [OF True]] session_step_ok [OF ok, of q act] True show ?thesis
    by (simp add: quiet_def store_ok_def)
qed (simp add: quiet_def)

lemma bind_same_base: "store_ok d \<Longrightarrow> same_base d (snd (bind_affinities_at_epoch q now ks aid ep d))"
  using session_same_base [of d q "BindKeys now ks aid ep"] by simp

lemma quiet_bind [quiet_intros]: "quiet d (snd (bind_affinities_at_epoch q now ks aid ep d))"
  using quiet_session [of d q "BindKeys now ks aid ep"] by simp

lemma quiet_action [quiet_intros]: "quiet d (snd (apply_session_route_action q sel now st iv req live d))"
  using quiet_session [of d q "ApplyAction sel now st iv req live"] by simp

lemma quiet_touches: "(db_ok d \<Longrightarrow> db_ok d' \<and> touches_account aid d d') \<Longrightarrow> quiet d d'"
proof (cases "db_ok d")
  case True
  assume "db_ok d \<Longrightarrow> db_ok d' \<and> touches_account aid d d'"
  with True show ?thesis by (intro quiet_same_but_usage) (auto simp: touches_account_def)
qed (simp add: quiet_def store_ok_def)

lemma quiet_refresh_tokens [quiet_intros]: "quiet d (snd (refresh_account_tokens io now aid observed d))"
  using refresh_tokens_ok [of io now aid observed d]
  by (intro quiet_touches [of d _ aid]) (cases "refresh_account_tokens io now aid observed d"; simp)

lemma quiet_update_tokens [quiet_intros]: "quiet d (snd (update_account_tokens q now enc aid auth claims d))"
  using update_tokens_touches [of q now enc aid auth claims d] db_ok_update_tokens [of d q now enc aid auth claims]
  by (intro quiet_touches [of d _ aid]) (cases "update_account_tokens q now enc aid auth claims d"; simp)

lemma quiet_refresh_usage: "refresh_account_usage io now aid d = Some (res, d') \<Longrightarrow> quiet d d'"
proof (cases "get_account aid d")
  case None
  assume "refresh_account_usage io now aid d = Some (res, d')"
  with None show ?thesis by (simp add: refresh_account_usage_def)
next
  case (Some a)
  assume "refresh_account_usage io now aid d = Some (res, d')"
  with refresh_account_usage_ok [OF this _ Some] show ?thesis by (intro quiet_touches) blast
qed

lemma prune_session_ok:
  assumes "db_ok d" "session_ok d"
  shows "session_ok (prune_history q now days d)"
proof -
  let ?d = "prune_history q now days d"
  have "affinity_of d h = Some f" if "affinity_of ?d h = Some f" for h f
  proof -
    from find_Some_key [OF that [unfolded affinity_of_def]] have "f \<in> set (t_affinity d)" "af_key f = h"
      by (auto simp: prune_history_def Let_def set_delete)
    with assms(1) find_distinct [of af_key "t_affinity d" f] show ?thesis
      by (simp add: affinity_of_def db_ok_def keys_ok_def)
  qed
  moreover have "generation_of ?d = generation_of d" "root_of ?d = root_of d"
    by (simp_all add: fun_eq_iff generation_of_def root_of_def prune_history_def Let_def)
  ultimately show ?thesis using assms(2) unfolding session_ok_def by (simp only:) blast
qed

lemma quiet_prune [quiet_intros]: "quiet d (prune_history q now days d)"
  using load_same [of "prune_history q now days d" d]
  by (simp add: quiet_def store_ok_def prune_session_ok prune_history_db_ok prune_history_metrics)
    (simp add: prune_history_def Let_def)

lemma quiet_snapshot [quiet_intros]: "quiet d (snd (insert_usage_snapshot q now aid u i out r raw d))"
proof (cases "db_ok d")
  case True
  obtain res d' where r: "insert_usage_snapshot q now aid u i out r raw d = (res, d')" by fastforce
  from insert_usage_snapshot_ok [OF r True] r show ?thesis by (auto intro: quiet_same_but_usage)
qed (simp add: quiet_def store_ok_def)

section \<open>Leases\<close>

text \<open>The store together with the multiset of leases the running requests hold: the in-flight
  counter of every account is the number of leases on it.\<close>

definition leases_ok :: "db \<Rightarrow> uuid multiset \<Rightarrow> bool" where
  "leases_ok d M \<longleftrightarrow> store_ok d \<and> smart_pool.held d M"

lemma quiet_leases: "quiet d d' \<Longrightarrow> leases_ok d M \<Longrightarrow> leases_ok d' M"
  by (auto simp: quiet_def leases_ok_def intro: smart_pool.held_same)

lemma leases_ok_db: "leases_ok d M \<Longrightarrow> db_ok d"
  by (simp add: leases_ok_def store_ok_def)

lemma leases_nonneg: "leases_ok d M \<Longrightarrow> load d k = Some n \<Longrightarrow> 0 \<le> n"
  by (auto simp: leases_ok_def intro: smart_pool.held_nonneg)

lemma store_ok_lease:
  "store_ok d \<Longrightarrow> store_ok (take_smart p k d)" "store_ok d \<Longrightarrow> store_ok (take_pinned p' k d)"
  "store_ok d \<Longrightarrow> store_ok (give_lease g k d)"
  by (auto simp: take_smart_def take_pinned_def give_lease_def release_account_inner_def books_def
      select_row_def acquire_row_def intro!: store_ok_runtime split: prod.splits)

lemma leases_take:
  "leases_ok d M \<Longrightarrow> leases_ok (take_smart p k d) (add_mset k M)"
  "leases_ok d M \<Longrightarrow> leases_ok (take_pinned p' k d) (add_mset k M)"
  by (simp_all add: leases_ok_def store_ok_lease smart_pool.held_take pinned_pool.held_take)

lemma leases_give: "leases_ok d (add_mset k M) \<Longrightarrow> leases_ok (give_lease g k d) M"
  using smart_pool.held_give [of d "add_mset k M" k g] by (simp add: leases_ok_def store_ok_lease)

lemma leases_release:
  "leases_ok d (add_mset k M) \<Longrightarrow> leases_ok (release_account q now k d) M"
  "leases_ok d (add_mset k M) \<Longrightarrow> leases_ok (release_account_reservation q now k d) M"
  by (simp_all add: release_is_give leases_give)

lemma finish_leases:
  assumes "leases_ok d (add_mset aid M)" "finish_selection q dec now d aid reason = (res, d')"
  shows "leases_ok d' (case res of Inl _ \<Rightarrow> M | Inr s \<Rightarrow> add_mset (acc_id (sel_account s)) M)"
proof (cases res)
  case (Inl e)
  with assms leases_release(1) [OF assms(1)] show ?thesis by (simp add: finish_Inl)
next
  case (Inr s)
  with assms(2) have "d' = d" "selected_account q dec d aid reason = Inr s" by (simp_all add: finish_Inr)
  with selected_account_Inr find_account_in have "acc_id (sel_account s) = aid" by blast
  with assms(1) \<open>d' = d\<close> Inr show ?thesis by simp
qed

lemma select_leases:
  assumes "leases_ok d M" "select_account_for_request q dec sel now aff ex st iv d = (res, d')"
  shows "leases_ok d' (case res of Inl _ \<Rightarrow> M | Inr s \<Rightarrow> add_mset (acc_id (sel_account s)) M)"
proof (cases rule: select_cases [of q sel st iv ex d dec now aff])
  case none
  with assms show ?thesis by auto
next
  case (smart aid)
  with assms show ?thesis by (intro finish_leases [OF leases_take(1)]) simp_all
next
  case (sticky key aid)
  with assms show ?thesis by (intro finish_leases [OF leases_take(2)]) simp_all
qed

lemma acquire_leases:
  assumes "leases_ok d M" "acquire_account_if_available q now aid d = (ok, d')"
  shows "leases_ok d' (if ok then add_mset aid M else M)"
  using assms leases_take(2) [OF assms(1), of "(q, now)" aid]
  by (auto simp: acquire_account_if_available_def take_pinned_def split: if_splits)

section \<open>Accounts come and go\<close>

lemma load_add:
  "load (d\<lparr>t_accounts := acc, t_runtime := t_runtime d @ [r]\<rparr>) k
     = (case load d k of Some n \<Rightarrow> Some n | None \<Rightarrow> if k = rt_account r then Some (rt_inflight r) else None)"
  by (simp add: load_def find_append split: option.splits)

text \<open>An import draws a fresh identifier: one that no lease refers to.\<close>

lemma upsert_leases:
  assumes "leases_ok d M" "upsert_account q now new_id enc auth claims label d = (res, d')" "new_id \<notin># M"
  shows "leases_ok d' M"
proof (cases res)
  case (Inl e)
  with assms upsert_account_error show ?thesis by blast
next
  case (Inr acct)
  note ok = assms(1) [unfolded leases_ok_def store_ok_def]
  have db: "db_ok d'" using db_ok_upsert [of d q now new_id enc auth claims label] ok assms(2) by simp
  from assms(2) [unfolded Inr] leases_ok_db [OF assms(1)] show ?thesis
  proof (cases rule: upsert_account_cases)
    case (created new)
    have "pending_count new_id (t_logs d) = 0"
    proof -
      have "log_account l \<noteq> Some new_id" if "l \<in> set (t_logs d)" for l
        using ok created(5) that by (fastforce simp: db_ok_def foreign_keys_ok_def)
      then show ?thesis by (simp add: pending_count_def flag_def cong: map_cong)
    qed
    then have "metrics_ok d'" using ok unfolding created(7)
      by (simp add: metrics_ok_def logs_ok_def metrics_row_def new_runtime_row_def)
    moreover have "session_ok d'" using ok session_ok_cong [of d' d] created(7) by simp
    moreover have "smart_pool.held d' M"
      using ok assms(3) unfolding created(7) smart_pool.held_def
      by (fastforce simp: load_add new_runtime_row_def not_in_iff split: option.splits if_splits)
    ultimately show ?thesis using db by (simp add: leases_ok_def store_ok_def)
  next
    case (refreshed old new)
    then have "quiet d d'" using db by (intro quiet_unrelated) simp_all
    with assms(1) show ?thesis by (rule quiet_leases [rotated])
  qed
qed

lemma cascade_session:
  assumes "db_ok d" "session_ok d"
  shows "session_ok (cascade_account aid d)"
proof -
  let ?d = "cascade_account aid d"
  have "affinity_of d h = Some f" if "affinity_of ?d h = Some f" for h f
  proof -
    from find_Some_key [OF that [unfolded affinity_of_def]] have "f \<in> set (t_affinity d)" "af_key f = h"
      by (auto simp: cascade_account_def set_delete)
    with assms(1) find_distinct [of af_key "t_affinity d" f] show ?thesis
      by (simp add: affinity_of_def db_ok_def keys_ok_def)
  qed
  moreover have "generation_of ?d = generation_of d" "root_of ?d = root_of d"
    by (simp_all add: fun_eq_iff generation_of_def root_of_def cascade_account_def find_map_key option.map_comp comp_def)
  ultimately show ?thesis using assms(2) unfolding session_ok_def by (simp only:) blast
qed

lemma forget_other: "k \<noteq> aid \<Longrightarrow> forget aid x = Some k \<longleftrightarrow> x = Some k"
  by (auto simp: forget_def)

lemma estimate_account: "pending_estimate (pending_of (l\<lparr>log_account := a\<rparr>)) = pending_estimate (pending_of l)"
  by (simp add: pending_of_def pending_estimate_def)

lemma cascade_metrics:
  assumes "metrics_ok d"
  shows "metrics_ok (cascade_account aid d)"
proof -
  let ?f = "\<lambda>l. l\<lparr>log_account := forget aid (log_account l)\<rparr>"
  have count: "pending_count k (map ?f ls) = pending_count k ls" if "k \<noteq> aid" for k ls
    using that by (simp add: pending_count_def comp_def forget_other)
  have rows: "metrics_row (map ?f (t_logs d)) r" if "r \<in> set (t_runtime d)" "rt_account r \<noteq> aid" for r
    using assms that by (simp add: metrics_ok_def metrics_row_def count)
  have "logs_ok (cascade_account aid d)"
    using assms by (simp add: metrics_ok_def logs_ok_def cascade_account_def comp_def log_cost_ok_def estimate_account)
  then show ?thesis using rows by (simp add: metrics_ok_def cascade_account_def set_delete)
qed

lemma cascade_load: "load (cascade_account aid d) k = (if k = aid then None else load d k)"
proof (cases "k = aid")
  case True
  have "tbl_find rt_account aid (tbl_delete (\<lambda>r. rt_account r = aid) (t_runtime d)) = None"
    by (auto simp: find_None_iff_key set_delete)
  with True show ?thesis by (simp add: load_def cascade_account_def)
next
  case False
  then show ?thesis by (auto simp: load_def cascade_account_def find_delete)
qed

lemma delete_leases:
  assumes "leases_ok d M" "delete_account q aid d = (res, d')"
  shows "leases_ok d' M"
proof -
  have "leases_ok (cascade_account aid d) M"
  proof -
    have "smart_pool.held (cascade_account aid d) M"
      using assms(1) by (intro smart_pool.held_same [of "cascade_account aid d" d M])
        (simp_all add: leases_ok_def cascade_load split: if_splits)
    with assms(1) show ?thesis
      by (simp add: leases_ok_def store_ok_def db_ok_cascade cascade_session cascade_metrics)
  qed
  with assms show ?thesis by (auto simp: delete_account_def split: if_splits)
qed

text \<open>A daemon that starts finds the counters of the one that ran before; its leases are gone.\<close>

lemma reset_leases:
  assumes "store_ok d"
  shows "leases_ok (reset_inflight d) {#}"
proof -
  have "load (reset_inflight d) k = map_option (\<lambda>_. 0) (load d k)" for k
    by (simp add: load_def reset_inflight_def find_map_key option.map_comp comp_def)
  then have "smart_pool.held (reset_inflight d) {#}" by (auto simp: smart_pool.held_def)
  moreover have "store_ok (reset_inflight d)"
    using store_ok_runtime [OF assms, of "\<lambda>r. r\<lparr>rt_inflight := 0\<rparr>" "\<lambda>_. True"]
    by (simp add: books_def reset_inflight_def tbl_update_def)
  ultimately show ?thesis by (simp add: leases_ok_def)
qed


section \<open>Every store the daemon can reach\<close>

text \<open>One step is one call of the store's interface, or the end of a daemon and the start of the
  next, whose first call resets the counters (\<open>main\<close>).  An identifier drawn for an import is fresh.\<close>

inductive store_step :: "sqlite \<Rightarrow> db \<times> uuid multiset \<Rightarrow> db \<times> uuid multiset \<Rightarrow> bool" for q where
  step_select: "select_account_for_request q dec sel now aff ex st iv d = (Inr s, d')
     \<Longrightarrow> store_step q (d, M) (d', add_mset (acc_id (sel_account s)) M)"
| step_select_failed: "select_account_for_request q dec sel now aff ex st iv d = (Inl e, d') \<Longrightarrow> store_step q (d, M) (d', M)"
| step_acquire: "acquire_account_if_available q now aid d = (ok, d')
     \<Longrightarrow> store_step q (d, M) (d', if ok then add_mset aid M else M)"
| step_release: "store_step q (d, add_mset aid M) (release_account q now aid d, M)"
| step_release_reservation: "store_step q (d, add_mset aid M) (release_account_reservation q now aid d, M)"
| step_import: "new_id \<notin># M \<Longrightarrow> store_step q (d, M) (snd (upsert_account q now new_id enc auth claims label d), M)"
| step_delete: "store_step q (d, M) (snd (delete_account q aid d), M)"
| step_update: "store_step q (d, M) (snd (update_account q now aid status label email plan d), M)"
| step_tokens: "store_step q (d, M) (snd (update_account_tokens q now enc aid auth claims d), M)"
| step_auth_failed: "store_step q (d, M) (mark_auth_failed q now aid reason d, M)"
| step_usage_error: "store_step q (d, M) (mark_usage_error q now aid message d, M)"
| step_cooldown: "store_step q (d, M) (snd (cooldown_account q now aid seconds reason d), M)"
| step_log: "store_step q (d, M) (snd (insert_request_log q now entry d), M)"
| step_backfill: "store_step q (d, M) (snd (backfill_api_costs_batch n d), M)"
| step_session: "store_step q (d, M) (session_step q act d, M)"
| step_snapshot: "store_step q (d, M) (snd (insert_usage_snapshot q now aid used inp out reset raw d), M)"
| step_refresh: "refresh_account_usage io now aid d = Some (res, d') \<Longrightarrow> store_step q (d, M) (d', M)"
| step_prune: "store_step q (d, M) (prune_history q now days d, M)"
| step_settings: "store_step q (d, M) (d\<lparr>t_settings := snd (upsert_settings now kvs (t_settings d))\<rparr>, M)"
| step_restart: "store_step q (d, M) (reset_inflight d, {#})"

inductive_cases store_stepE: "store_step q s s'"

definition store_reachable :: "sqlite \<Rightarrow> db \<times> uuid multiset \<Rightarrow> bool" where
  "store_reachable q s \<longleftrightarrow> (store_step q)\<^sup>*\<^sup>* (empty_db, {#}) s"

lemma store_reachable_start: "store_reachable q (empty_db, {#})"
  by (simp add: store_reachable_def)

lemma store_reachable_step: "store_reachable q s \<Longrightarrow> store_step q s s' \<Longrightarrow> store_reachable q s'"
  by (simp add: store_reachable_def)

lemma leases_ok_step:
  assumes "store_step q s s'" "leases_ok (fst s) (snd s)"
  shows "leases_ok (fst s') (snd s')"
  using assms
proof (induction rule: store_step.induct)
  case step_import
  then show ?case by (auto intro: upsert_leases [OF _ prod.collapse [symmetric]])
next
  case step_delete
  then show ?case by (auto intro: delete_leases [OF _ prod.collapse [symmetric]])
next
  case (step_restart d M)
  then show ?case by (simp add: leases_ok_def [of d] reset_leases)
next
  case step_select
  then show ?case using select_leases by fastforce
next
  case step_select_failed
  then show ?case using select_leases by fastforce
qed (auto intro: quiet_leases [rotated] quiet_intros quiet_refresh_usage acquire_leases leases_release
    split del: if_split)

lemma leases_ok_reachable: "store_reachable q (d, M) \<Longrightarrow> leases_ok d M"
proof -
  have "leases_ok (fst s) (snd s)" if "(store_step q)\<^sup>*\<^sup>* (empty_db, {#}) s" for s
    using that
  proof (induction rule: rtranclp_induct)
    case base
    show ?case by (simp add: leases_ok_def store_ok_empty smart_pool.held_def load_def) (simp add: empty_db_def)
  next
    case (step s s')
    then show ?case using leases_ok_step by blast
  qed
  then show "store_reachable q (d, M) \<Longrightarrow> leases_ok d M" by (force simp: store_reachable_def)
qed

text \<open>
  C2: in every store the daemon can reach, by any sequence of calls, the schema's keys and
  references hold, the session maps are consistent, the accounts' totals agree with the request log,
  and the in-flight counter of every account is the number of leases running requests hold on it.
\<close>

theorem reachable_store_ok:
  assumes "store_reachable q (d, M)"
  shows "db_ok d \<and> session_ok d \<and> metrics_ok d
     \<and> (\<forall>aid r. get_runtime aid d = Some r \<longrightarrow> rt_inflight r = int (count M aid))"
  using leases_ok_reachable [OF assms]
  by (auto simp: leases_ok_def store_ok_def smart_pool.held_def load_def)

lemma sample_reachable:
  "store_reachable sample_sqlite (take_smart (sample_sqlite, 6, chrono_text sample_sqlite 6) 7 sample_db, {#7#})"
proof -
  have "store_reachable sample_sqlite (sample_db, {#})"
    unfolding sample_db_def by (rule store_reachable_step [OF store_reachable_start step_import]) simp
  from store_reachable_step [OF this step_select [OF sample_select]] show ?thesis
    by (simp add: imported_row_def)
qed

lemma reachable_store_ok_witness:
  "\<exists>d r. store_reachable sample_sqlite (d, {#7#}) \<and> get_runtime 7 d = Some r \<and> rt_inflight r = 1"
proof -
  let ?d = "take_smart (sample_sqlite, 6, chrono_text sample_sqlite 6) 7 sample_db"
  obtain r where r: "get_runtime 7 ?d = Some r"
    by (simp add: take_smart_def find_update_same sample_db_fields)
  with reachable_store_ok [OF sample_reachable] have "rt_inflight r = 1" by simp
  with r sample_reachable show ?thesis by blast
qed

end
