(* ===== verification/Proxy.thy ===== *)
theory Proxy
  imports Store
begin

text \<open>
  The HTTP proxy (\<open>src/proxy.rs\<close>): a request tries one account after the other until one answers, and
  the answer is streamed to the client while its tail is kept for the request log.  What the upstream
  answers and when things happen are parameters.
\<close>

section \<open>Parameters\<close>

text \<open>The instants of one attempt and what the upstream answers in it; an error to send is a text.\<close>

record attempt_io =
  at_selected :: instant
  at_select :: instant
  at_proactive :: instant
  at_first :: "upstream_request \<Rightarrow> string + upstream_response"
  at_refresh :: instant
  at_second :: "upstream_request \<Rightarrow> string + upstream_response"
  at_bind :: instant
  at_mark :: instant
  at_log :: instant
  at_elapsed_ms :: nat

record proxy_io =
  px_io :: upstream_io
  px_config :: config
  px_sha :: "string \<Rightarrow> string"
  px_json :: "string \<Rightarrow> json option"
  px_fresh_id :: string
  px_attempt :: "nat \<Rightarrow> attempt_io"

abbreviation px_sqlite :: "proxy_io \<Rightarrow> sqlite" where
  "px_sqlite px \<equiv> io_sqlite (px_io px)"

text \<open>What the handler reads from the request before it selects an account.\<close>

record proxy_request =
  pr_headers :: headers
  pr_query :: "string option"
  pr_body :: string
  pr_compact :: bool
  pr_id :: string
  pr_model :: "string option"
  pr_keys :: "route_key list"
  pr_epoch :: "route_epoch option"
  pr_settings :: runtime_settings

section \<open>The request log\<close>

record request_outcome =
  oc_status :: string
  oc_error_code :: "string option"
  oc_error_message :: "string option"
  oc_usage :: usage_data

definition outcome_error :: "string \<Rightarrow> string \<Rightarrow> request_outcome" where
  "outcome_error code message =
     \<lparr>oc_status = ''error'', oc_error_code = Some code, oc_error_message = Some message, oc_usage = usage_default\<rparr>"

definition log_entry ::
  "string \<Rightarrow> uuid \<Rightarrow> selection_reason \<Rightarrow> string option \<Rightarrow> request_outcome \<Rightarrow> nat \<Rightarrow> new_request_log" where
  "log_entry rid aid reason model outcome elapsed_ms =
     \<lparr>nl_request_id = rid, nl_account = Some aid, nl_model = model, nl_status = oc_status outcome,
      nl_selection_reason = Some reason, nl_error_code = oc_error_code outcome,
      nl_error_message = oc_error_message outcome, nl_usage = oc_usage outcome,
      nl_latency_ms = Some (min (int elapsed_ms) (2 ^ 31 - 1))\<rparr>"

definition log_request ::
  "sqlite \<Rightarrow> instant \<Rightarrow> nat \<Rightarrow> string \<Rightarrow> uuid \<Rightarrow> selection_reason \<Rightarrow> string option \<Rightarrow> request_outcome \<Rightarrow> db \<Rightarrow> db" where
  "log_request q now elapsed_ms rid aid reason model outcome d =
     snd (insert_request_log q now (log_entry rid aid reason model outcome elapsed_ms) d)"

section \<open>Refreshing the selected account\<close>

definition refresh_selected ::
  "upstream_io \<Rightarrow> instant \<Rightarrow> selected \<Rightarrow> db \<Rightarrow> unit app_result \<times> selected \<times> db" where
  "refresh_selected io now sel d =
     (case refresh_account_tokens io now (acc_id (sel_account sel)) d d of
        (Inl e, d') \<Rightarrow> (Inl e, sel, d')
      | (Inr a, d') \<Rightarrow>
          (case app_bind (from_anyhow (decrypt_with io (acc_access a))) (\<lambda>x.
                app_bind (from_anyhow (decrypt_with io (acc_refresh a))) (\<lambda>y.
                app_bind (from_anyhow (decrypt_with io (acc_id_token a))) (\<lambda>z.
                  Inr \<lparr>at_access = x, at_refresh = y, at_id = z\<rparr>))) of
             Inl e \<Rightarrow> (Inl e, sel, d')
           | Inr tokens \<Rightarrow> (Inr (), sel\<lparr>sel_account := a, sel_tokens := tokens\<rparr>, d')))"

definition maybe_refresh_selected :: "upstream_io \<Rightarrow> config \<Rightarrow> instant \<Rightarrow> selected \<Rightarrow> db \<Rightarrow> selected \<times> db" where
  "maybe_refresh_selected io c now sel d =
     (let a = sel_account sel;
          expires_soon = (case acc_expires_at a of
              None \<Rightarrow> False | Some t \<Rightarrow> stamp io t \<le> clock_of io now + 15 * 60 * nanos_per_second)
      in if \<not> expires_soon
            \<and> \<not> should_refresh (clock_of io now) (stamp io (acc_last_refresh_at a)) (cfg_token_refresh_interval_days c)
         then (sel, d)
         else snd (refresh_selected io now sel d))"

section \<open>One attempt at a proxied request\<close>

text \<open>
  How an attempt ends: with the next account, its response and the error kept for the client; with a
  buffered answer for the client; or with a response to be streamed, which keeps the lease.
\<close>

datatype attempt_end =
    Failing_Over "client_response option" app_error
  | Answering client_response
  | Opening upstream_response

definition log_failure ::
  "proxy_io \<Rightarrow> attempt_io \<Rightarrow> proxy_request \<Rightarrow> uuid \<Rightarrow> selection_reason \<Rightarrow> string \<Rightarrow> string \<Rightarrow> db \<Rightarrow> db" where
  "log_failure px a req aid reason code message d =
     log_request (px_sqlite px) (at_log a) (at_elapsed_ms a) (pr_id req) aid reason (pr_model req)
       (outcome_error code message) d"

definition cool_down :: "proxy_io \<Rightarrow> attempt_io \<Rightarrow> uuid \<Rightarrow> int \<Rightarrow> string \<Rightarrow> db \<Rightarrow> db" where
  "cool_down px a aid seconds reason d = snd (cooldown_account (px_sqlite px) (at_mark a) aid seconds reason d)"

definition sending_failed ::
  "proxy_io \<Rightarrow> attempt_io \<Rightarrow> proxy_request \<Rightarrow> uuid \<Rightarrow> selection_reason \<Rightarrow> string \<Rightarrow> string \<Rightarrow> string \<Rightarrow> db
     \<Rightarrow> attempt_end \<times> db" where
  "sending_failed px a req aid reason cause code message d =
     (Failing_Over None (Upstream message),
      log_failure px a req aid reason code message (cool_down px a aid 10 cause d))"

definition settle_response ::
  "proxy_io \<Rightarrow> attempt_io \<Rightarrow> proxy_request \<Rightarrow> uuid \<Rightarrow> selection_reason \<Rightarrow> upstream_response \<Rightarrow> db \<Rightarrow> attempt_end \<times> db" where
  "settle_response px a req aid reason resp d =
     (let status = rs_status resp; response = buffered resp; message = buffered_message response
      in if is_auth_status status then
           (Failing_Over (Some response) (Upstream ''selected account auth failed''),
            log_failure px a req aid reason ''auth_failed'' message
              (mark_auth_failed (px_sqlite px) (at_mark a) aid message d))
         else if status = 429 then
           (Failing_Over (Some response) (Upstream ''all selected accounts were rate limited''),
            log_failure px a req aid reason ''rate_limited'' message
              (cool_down px a aid (retry_after_seconds (rs_headers resp) (rate_limit_cooldown_seconds (pr_settings req)))
                 ''upstream rate limited'' d))
         else if 500 \<le> status \<and> status < 600 then
           (Failing_Over (Some response) (Upstream message),
            log_failure px a req aid reason ''upstream_server_error'' message
              (cool_down px a aid 10 ''transient upstream error'' d))
         else if \<not> is_success status then
           (Answering response, log_failure px a req aid reason ''upstream_error'' message d)
         else
           (Opening resp,
            if pr_keys req = [] then d
            else snd (bind_affinities_at_epoch (px_sqlite px) (at_bind a) (pr_keys req) aid (pr_epoch req) d)))"

definition send_upstream :: "proxy_io \<Rightarrow> proxy_request \<Rightarrow> selected \<Rightarrow> upstream_request" where
  "send_upstream px req sel =
     build_upstream_responses_request (px_config px) sel (pr_body req) (pr_id req) (pr_headers req) (pr_compact req)"

definition attempt_request ::
  "proxy_io \<Rightarrow> attempt_io \<Rightarrow> proxy_request \<Rightarrow> selected \<Rightarrow> db \<Rightarrow> attempt_end \<times> db" where
  "attempt_request px a req sel d =
     (let aid = acc_id (sel_account sel); reason = sel_reason sel;
          (sel1, d1) = maybe_refresh_selected (px_io px) (px_config px) (at_proactive a) sel d
      in case at_first a (send_upstream px req sel1) of
           Inl err \<Rightarrow> sending_failed px a req aid reason ''upstream request failed'' ''upstream_request_failed'' err d1
         | Inr resp \<Rightarrow>
             if \<not> is_auth_status (rs_status resp) then settle_response px a req aid reason resp d1
             else case refresh_selected (px_io px) (at_refresh a) sel1 d1 of
               (Inr _, sel2, d2) \<Rightarrow>
                 (case at_second a (send_upstream px req sel2) of
                    Inl err \<Rightarrow> sending_failed px a req aid reason ''upstream retry failed'' ''upstream_retry_failed'' err d2
                  | Inr resp2 \<Rightarrow> settle_response px a req aid reason resp2 d2)
             | (Inl e, _, d2) \<Rightarrow>
                 (let message = ''token refresh failed: '' @ error_text e @ ''; upstream: ''
                                  @ buffered_message (buffered resp)
                  in (Failing_Over (Some (buffered resp)) (Upstream message),
                      log_failure px a req aid reason ''auth_refresh_failed'' message
                        (mark_auth_failed (px_sqlite px) (at_mark a) aid message d2))))"

section \<open>One attempt at the list of models\<close>

definition send_models :: "proxy_io \<Rightarrow> proxy_request \<Rightarrow> selected \<Rightarrow> upstream_request" where
  "send_models px req sel = build_upstream_models_request (px_config px) sel (pr_id req) (pr_headers req) (pr_query req)"

definition settle_models ::
  "proxy_io \<Rightarrow> attempt_io \<Rightarrow> proxy_request \<Rightarrow> uuid \<Rightarrow> upstream_response \<Rightarrow> db \<Rightarrow> attempt_end \<times> db" where
  "settle_models px a req aid resp d =
     (let status = rs_status resp
      in if is_auth_status status \<or> status = 429 \<or> (500 \<le> status \<and> status < 600) then
           (Failing_Over (Some (buffered resp))
              (Upstream (''upstream models request returned '' @ status_text (px_io px) status)),
            if is_auth_status status
            then mark_auth_failed (px_sqlite px) (at_mark a) aid (buffered_message (buffered resp)) d
            else cool_down px a aid (if status = 429 then rate_limit_cooldown_seconds (pr_settings req) else 10)
                   ''models request failed'' d)
         else (Opening resp, d))"

definition attempt_models ::
  "proxy_io \<Rightarrow> attempt_io \<Rightarrow> proxy_request \<Rightarrow> selected \<Rightarrow> db \<Rightarrow> attempt_end \<times> db" where
  "attempt_models px a req sel d =
     (let aid = acc_id (sel_account sel);
          (sel1, d1) = maybe_refresh_selected (px_io px) (px_config px) (at_proactive a) sel d
      in case at_first a (send_models px req sel1) of
           Inl err \<Rightarrow> (Failing_Over None (Upstream err), cool_down px a aid 10 ''models request failed'' d1)
         | Inr resp \<Rightarrow>
             if \<not> is_auth_status (rs_status resp) then settle_models px a req aid resp d1
             else case refresh_selected (px_io px) (at_refresh a) sel1 d1 of
               (Inr _, sel2, d2) \<Rightarrow>
                 (case at_second a (send_models px req sel2) of
                    Inl err \<Rightarrow> (Failing_Over None (Upstream err), d2)
                  | Inr resp2 \<Rightarrow> settle_models px a req aid resp2 d2)
             | (Inl e, _, d2) \<Rightarrow>
                 (let message = ''model-list token refresh failed: '' @ error_text e
                  in (Failing_Over (Some (buffered resp)) (Upstream message),
                      mark_auth_failed (px_sqlite px) (at_mark a) aid message d2)))"

section \<open>Failing over\<close>

text \<open>
  \<open>fo_excluded\<close> are the accounts tried, in order; \<open>fo_spawned\<close> the releases that were handed to the
  runtime, which performs each of them at some later time.
\<close>

record failover =
  fo_db :: db
  fo_excluded :: "uuid list"
  fo_error :: "app_error option"
  fo_response :: "client_response option"
  fo_spawned :: "uuid list"

datatype proxy_result =
    Refused app_error
  | Replied client_response
  | Opened uuid selection_reason upstream_response

definition failover_start :: "db \<Rightarrow> failover" where
  "failover_start d = \<lparr>fo_db = d, fo_excluded = [], fo_error = None, fo_response = None, fo_spawned = []\<rparr>"

definition give_up :: "string \<Rightarrow> failover \<Rightarrow> proxy_result \<times> failover" where
  "give_up complaint st =
     (case fo_response st of
        Some response \<Rightarrow> (Replied response, st)
      | None \<Rightarrow> (Refused (or_default (fo_error st) (Unavailable complaint)), st))"

definition select_for_attempt ::
  "proxy_io \<Rightarrow> attempt_io \<Rightarrow> proxy_request \<Rightarrow> string option \<Rightarrow> uuid set \<Rightarrow> db \<Rightarrow> selected app_result \<times> db" where
  "select_for_attempt px a req affinity excluded d =
     select_account_for_request (px_sqlite px) (decrypt_with (px_io px)) (at_selected a) (at_select a) affinity excluded
       (pr_settings req) (cfg_usage_refresh_interval (px_config px)) d"

fun failover_loop ::
  "(nat \<Rightarrow> uuid set \<Rightarrow> db \<Rightarrow> selected app_result \<times> db) \<Rightarrow> (nat \<Rightarrow> selected \<Rightarrow> db \<Rightarrow> attempt_end \<times> db) \<Rightarrow> string
     \<Rightarrow> nat \<Rightarrow> nat \<Rightarrow> failover \<Rightarrow> proxy_result \<times> failover" where
  "failover_loop select attempt complaint i 0 st = give_up complaint st"
| "failover_loop select attempt complaint i (Suc n) st =
     (case select i (set (fo_excluded st)) (fo_db st) of
        (Inl e, d) \<Rightarrow>
          if fo_excluded st \<noteq> []
          then give_up complaint (st\<lparr>fo_db := d, fo_error := Some (or_default (fo_error st) e)\<rparr>)
          else (Refused e, st\<lparr>fo_db := d\<rparr>)
      | (Inr sel, d) \<Rightarrow>
          (let aid = acc_id (sel_account sel)
           in case attempt i sel d of
                (Failing_Over response e, d') \<Rightarrow>
                  failover_loop select attempt complaint (Suc i) n
                    (st\<lparr>fo_db := d', fo_spawned := fo_spawned st @ [aid], fo_excluded := fo_excluded st @ [aid],
                       fo_response := or_else response (fo_response st), fo_error := Some e\<rparr>)
              | (Answering response, d') \<Rightarrow>
                  (Replied response, st\<lparr>fo_db := d', fo_spawned := fo_spawned st @ [aid]\<rparr>)
              | (Opening response, d') \<Rightarrow> (Opened aid (sel_reason sel) response, st\<lparr>fo_db := d'\<rparr>)))"

section \<open>The handlers\<close>

definition request_attempts :: "proxy_request \<Rightarrow> db \<Rightarrow> nat" where
  "request_attempts req d = proxy_attempts (int (account_count d)) (proxy_max_attempts (pr_settings req))"

definition run_attempts ::
  "proxy_io \<Rightarrow> proxy_request \<Rightarrow> string option \<Rightarrow> (attempt_io \<Rightarrow> selected \<Rightarrow> db \<Rightarrow> attempt_end \<times> db) \<Rightarrow> string \<Rightarrow> db
     \<Rightarrow> proxy_result \<times> failover" where
  "run_attempts px req affinity attempt complaint d =
     failover_loop (\<lambda>i. select_for_attempt px (px_attempt px i) req affinity) (\<lambda>i. attempt (px_attempt px i)) complaint
       0 (request_attempts req d) (failover_start d)"

definition read_request :: "proxy_io \<Rightarrow> headers \<Rightarrow> string \<Rightarrow> bool \<Rightarrow> db \<Rightarrow> proxy_request app_result" where
  "read_request px hs body compacted d =
     app_bind (validate_proxy_auth (px_config px) hs) (\<lambda>_.
       let keys = request_affinities (px_sha px) (px_json px) hs body
       in app_bind (resolve_session_route_epoch (px_sqlite px) keys d) (\<lambda>epoch.
            Inr \<lparr>pr_headers = hs, pr_query = None, pr_body = body, pr_compact = compacted,
                 pr_id = request_id (px_fresh_id px) hs, pr_model = model_from_body (px_json px) body,
                 pr_keys = keys, pr_epoch = epoch, pr_settings = load_runtime_settings (t_settings d)\<rparr>))"

definition proxy_request :: "proxy_io \<Rightarrow> headers \<Rightarrow> string \<Rightarrow> bool \<Rightarrow> db \<Rightarrow> proxy_result \<times> failover" where
  "proxy_request px hs body compacted d =
     (case read_request px hs body compacted d of
        Inl e \<Rightarrow> (Refused e, failover_start d)
      | Inr req \<Rightarrow>
          run_attempts px req (map_option key_hash (selection_affinity (pr_keys req) (pr_epoch req)))
            (\<lambda>a. attempt_request px a req) ''no account could handle request'' d)"

definition codex_models :: "proxy_io \<Rightarrow> headers \<Rightarrow> string option \<Rightarrow> db \<Rightarrow> proxy_result \<times> failover" where
  "codex_models px hs raw_query d =
     (case validate_proxy_auth (px_config px) hs of
        Inl e \<Rightarrow> (Refused e, failover_start d)
      | Inr _ \<Rightarrow>
          (let req = \<lparr>pr_headers = hs, pr_query = raw_query, pr_body = [], pr_compact = False,
                      pr_id = request_id (px_fresh_id px) hs, pr_model = None, pr_keys = [], pr_epoch = None,
                      pr_settings = load_runtime_settings (t_settings d)\<rparr>
           in run_attempts px req None (\<lambda>a. attempt_models px a req) ''no account could list models'' d))"

section \<open>What an attempt changes\<close>

lemma refresh_selected_quiet: "quiet d (snd (snd (refresh_selected io now sel d)))"
  using quiet_refresh_tokens [of d io now "acc_id (sel_account sel)" d]
  by (cases "refresh_account_tokens io now (acc_id (sel_account sel)) d d")
    (auto simp: refresh_selected_def split: sum.splits)

lemma maybe_refresh_quiet: "quiet d (snd (maybe_refresh_selected io c now sel d))"
  using refresh_selected_quiet [of d io now sel] by (simp add: maybe_refresh_selected_def Let_def)

lemma log_request_quiet [quiet_intros]: "quiet d (log_request q now ms rid aid reason model outcome d)"
  by (simp add: log_request_def quiet_intros)

lemma failure_quiet:
  "quiet d d' \<Longrightarrow> quiet d (log_failure px a req aid reason code m d')"
  "quiet d d' \<Longrightarrow> quiet d (cool_down px a aid n cause d')"
  "quiet d d' \<Longrightarrow> quiet d (mark_auth_failed q now aid m d')"
  by (auto simp: log_failure_def cool_down_def intro: quiet_trans quiet_intros)

lemma settle_quiet: "quiet d (snd (settle_response px a req aid reason resp d))"
  by (simp add: settle_response_def Let_def failure_quiet quiet_intros)

lemma settle_models_quiet: "quiet d (snd (settle_models px a req aid resp d))"
  by (simp add: settle_models_def Let_def failure_quiet)

lemma attempt_request_quiet: "quiet d (snd (attempt_request px a req sel d))"
proof -
  obtain sel1 d1 where m: "maybe_refresh_selected (px_io px) (px_config px) (at_proactive a) sel d = (sel1, d1)" by fastforce
  then have q1: "quiet d d1" using maybe_refresh_quiet [of d "px_io px" "px_config px" "at_proactive a" sel] by simp
  obtain r sel2 d2 where f: "refresh_selected (px_io px) (at_refresh a) sel1 d1 = (r, sel2, d2)"
    using prod_cases3 by blast
  then have q2: "quiet d d2" using quiet_trans [OF q1] refresh_selected_quiet [of d1 "px_io px" "at_refresh a" sel1] by simp
  show ?thesis
    using q1 q2 quiet_trans [OF q1 settle_quiet] quiet_trans [OF q2 settle_quiet]
    by (simp add: attempt_request_def sending_failed_def m f Let_def failure_quiet split: sum.split)
qed

lemma attempt_models_quiet: "quiet d (snd (attempt_models px a req sel d))"
proof -
  obtain sel1 d1 where m: "maybe_refresh_selected (px_io px) (px_config px) (at_proactive a) sel d = (sel1, d1)" by fastforce
  then have q1: "quiet d d1" using maybe_refresh_quiet [of d "px_io px" "px_config px" "at_proactive a" sel] by simp
  obtain r sel2 d2 where f: "refresh_selected (px_io px) (at_refresh a) sel1 d1 = (r, sel2, d2)"
    using prod_cases3 by blast
  then have q2: "quiet d d2" using quiet_trans [OF q1] refresh_selected_quiet [of d1 "px_io px" "at_refresh a" sel1] by simp
  show ?thesis
    using q1 q2 quiet_trans [OF q1 settle_models_quiet] quiet_trans [OF q2 settle_models_quiet]
    by (simp add: attempt_models_def m f Let_def failure_quiet split: sum.split)
qed

section \<open>The failover loop\<close>

text \<open>The accounts a loop has taken a lease on, in order: every one of them is released by a spawned
  task, or its lease is the one the opened response keeps.\<close>

definition tried :: "proxy_result \<times> failover \<Rightarrow> uuid list" where
  "tried = (\<lambda>(res, st). fo_spawned st @ (case res of Opened aid _ _ \<Rightarrow> [aid] | _ \<Rightarrow> []))"

lemma tried_simps [simp]:
  "tried (Refused e, st) = fo_spawned st" "tried (Replied r, st) = fo_spawned st"
  "tried (Opened aid reason resp, st) = fo_spawned st @ [aid]" "tried (give_up complaint st) = fo_spawned st"
  by (simp_all add: tried_def give_up_def split: option.splits)

lemma give_up_db [simp]: "fo_db (snd (give_up complaint st)) = fo_db st"
  by (simp add: give_up_def split: option.splits)

lemma select_not_excluded:
  assumes "db_ok d" "select_account_for_request q dec sel now aff ex st iv d = (Inr s, d')"
  shows "acc_id (sel_account s) \<notin> ex"
proof (cases rule: select_cases [of q sel st iv ex d dec now aff])
  case (smart aid)
  have "get_account aid d = Some (sel_account s)"
    using assms(2) unfolding smart(2) finish_Inr by (auto dest: selected_account_Inr)
  with smart_candidate_Some [OF smart(1) assms(1)] find_account_in show ?thesis by blast
next
  case (sticky key aid)
  have "get_account aid d = Some (sel_account s)"
    using assms(2) unfolding sticky(5) finish_Inr by (auto dest: selected_account_Inr)
  with sticky(3) find_account_in show ?thesis by blast
qed (use assms in simp)

text \<open>
  What the loop asks of its two parts: the selection takes the lease it reports and respects the
  exclusions, and an attempt touches no lease.
\<close>

locale failing_over =
  fixes pick :: "nat \<Rightarrow> uuid set \<Rightarrow> db \<Rightarrow> selected app_result \<times> db"
    and attempt :: "nat \<Rightarrow> selected \<Rightarrow> db \<Rightarrow> attempt_end \<times> db"
  assumes pick_leases: "leases_ok d M \<Longrightarrow> pick i ex d = (res, d') \<Longrightarrow>
      leases_ok d' (case res of Inl _ \<Rightarrow> M | Inr s \<Rightarrow> add_mset (acc_id (sel_account s)) M)"
    and pick_fresh: "db_ok d \<Longrightarrow> pick i ex d = (Inr s, d') \<Longrightarrow> acc_id (sel_account s) \<notin> ex"
    and attempt_quiet: "quiet d (snd (attempt i sel d))"
begin

lemma loop_ok:
  assumes "leases_ok (fo_db st) (mset (fo_spawned st) + M)" "fo_spawned st = fo_excluded st" "distinct (fo_excluded st)"
    and "failover_loop pick attempt complaint i n st = r"
  shows "leases_ok (fo_db (snd r)) (mset (tried r) + M) \<and> distinct (tried r)
     \<and> length (tried r) \<le> length (fo_excluded st) + n"
  using assms
proof (induction n arbitrary: i st r)
  case 0
  then show ?case by auto
next
  case (Suc n)
  note ok = Suc.prems(1)
  obtain res d where p: "pick i (set (fo_excluded st)) (fo_db st) = (res, d)" by fastforce
  note taken = pick_leases [OF ok p]
  show ?case
  proof (cases res)
    case (Inl e)
    with taken p Suc.prems show ?thesis by (auto split: if_splits)
  next
    case (Inr sel)
    let ?aid = "acc_id (sel_account sel)"
    have new: "?aid \<notin> set (fo_excluded st)" using pick_fresh [OF leases_ok_db [OF ok]] p Inr by blast
    obtain outcome d' where a: "attempt i sel d = (outcome, d')" by fastforce
    have "leases_ok d' (add_mset ?aid (mset (fo_spawned st) + M))"
      using quiet_leases [OF _ taken] attempt_quiet [of d i sel] a Inr by simp
    then have ok': "leases_ok d' (mset (fo_spawned st @ [?aid]) + M)" by simp
    show ?thesis
    proof (cases outcome)
      case (Failing_Over response e)
      let ?st = "st\<lparr>fo_db := d', fo_spawned := fo_spawned st @ [?aid], fo_excluded := fo_excluded st @ [?aid],
                   fo_response := or_else response (fo_response st), fo_error := Some e\<rparr>"
      have "failover_loop pick attempt complaint (Suc i) n ?st = r"
        using Suc.prems(4) p Inr a Failing_Over by (simp add: Let_def)
      with Suc.IH [of ?st "Suc i" r] ok' new Suc.prems(2,3) show ?thesis by simp
    next
      case (Answering response)
      with Suc.prems p Inr a ok' new show ?thesis by (auto simp: Let_def)
    next
      case (Opening response)
      with Suc.prems p Inr a ok' new show ?thesis by (auto simp: Let_def)
    qed
  qed
qed

end

interpretation requests: failing_over "\<lambda>i. select_for_attempt px (px_attempt px i) req affinity"
    "\<lambda>i. attempt_request px (px_attempt px i) req" for px req affinity
  by unfold_locales
    (auto simp: select_for_attempt_def attempt_request_quiet dest: select_leases select_not_excluded)

interpretation models: failing_over "\<lambda>i. select_for_attempt px (px_attempt px i) req affinity"
    "\<lambda>i. attempt_models px (px_attempt px i) req" for px req affinity
  by unfold_locales
    (auto simp: select_for_attempt_def attempt_models_quiet dest: select_leases select_not_excluded)


section \<open>What a failed attempt records\<close>

lemma refresh_selected_touches:
  assumes "refresh_selected io now sel d = (r, sel', d')" "db_ok d"
  shows "db_ok d' \<and> touches_account (acc_id (sel_account sel)) d d'"
  using assms refresh_tokens_ok [of io now "acc_id (sel_account sel)" d d]
  by (cases "refresh_account_tokens io now (acc_id (sel_account sel)) d d")
    (auto simp: refresh_selected_def split: sum.splits)

lemma refreshed_id:
  assumes "refresh_account_tokens io now aid before d = (Inr a, d')"
  shows "acc_id a = aid"
  using assms find_account_in
  by (fastforce simp: refresh_account_tokens_def update_account_tokens_def Let_def split: option.splits sum.splits if_splits)

lemma refresh_selected_id:
  assumes "refresh_selected io now sel d = (r, sel', d')"
  shows "acc_id (sel_account sel') = acc_id (sel_account sel)"
  using assms refreshed_id [of io now "acc_id (sel_account sel)" d d]
  by (cases "refresh_account_tokens io now (acc_id (sel_account sel)) d d")
    (auto simp: refresh_selected_def split: sum.splits)

lemma maybe_refresh_touches:
  assumes "maybe_refresh_selected io c now sel d = (sel', d')" "db_ok d"
  shows "db_ok d' \<and> touches_account (acc_id (sel_account sel)) d d' \<and> acc_id (sel_account sel') = acc_id (sel_account sel)"
proof -
  obtain r s e where f: "refresh_selected io now sel d = (r, s, e)" using prod_cases3 by blast
  consider "sel' = sel" "d' = d" | "sel' = s" "d' = e"
    using assms(1) by (auto simp: maybe_refresh_selected_def Let_def f split: if_splits)
  then show ?thesis
    using refresh_selected_touches [OF f assms(2)] refresh_selected_id [OF f] assms(2) touches_account_same by cases auto
qed

text \<open>The account is out of rotation: failed, or cooling down from this moment for up to an hour.\<close>

definition sidelined :: "sqlite \<Rightarrow> instant \<Rightarrow> uuid \<Rightarrow> db \<Rightarrow> bool" where
  "sidelined q now aid d \<longleftrightarrow>
     (\<exists>a. get_account aid d = Some a \<and> acc_status a = ''auth_failed'')
     \<or> (\<exists>r seconds. get_runtime aid d = Some r \<and> rt_cooldown_until r = Some (now_plus q now seconds)
          \<and> 1 \<le> seconds \<and> seconds \<le> 60 * 60)"

text \<open>The log gained one row: an error of the account.\<close>

definition one_error_logged :: "uuid \<Rightarrow> db \<Rightarrow> db \<Rightarrow> bool" where
  "one_error_logged aid d d' \<longleftrightarrow>
     (\<exists>l. t_logs d' = t_logs d @ [l] \<and> log_status l = ''error'' \<and> log_account l = Some aid \<and> log_error_code l \<noteq> None)"

lemma log_failure_records:
  assumes "get_account aid d = Some a" "sidelined q now aid d"
  shows "sidelined q now aid (log_failure px att req aid reason code m d)
     \<and> one_error_logged aid d (log_failure px att req aid reason code m d)"
proof -
  have exists: "account_exists aid d" using assms(1) by (auto simp: account_exists_iff account_ids_def dest: find_account_in)
  have keep: "rt_cooldown_until (count_request q' t e c r) = rt_cooldown_until r" "rt_account (count_request q' t e c r) = rt_account r"
    for q' t e c r by (simp_all add: count_request_def Let_def)
  from exists assms(2) show ?thesis
    by (auto simp: log_failure_def log_request_def insert_request_log_def log_entry_def outcome_error_def Let_def
        sidelined_def one_error_logged_def new_log_row_def find_update_same keep)
qed

lemma mark_sidelines:
  "get_account aid d = Some a \<Longrightarrow> sidelined q now aid (mark_auth_failed q' t aid m d)"
  by (simp add: sidelined_def mark_auth_failed_def find_update_same)

lemma cool_down_sidelines:
  assumes "db_ok d" "get_account aid d = Some a" "1 \<le> n" "n \<le> 60 * 60"
  shows "sidelined (px_sqlite px) (at_mark att) aid (cool_down px att aid n cause d)"
proof -
  have "aid \<in> account_ids d" using assms(2) by (auto simp: account_ids_def dest: find_account_in)
  with assms(1) obtain r where "get_runtime aid d = Some r"
    by (force simp: db_ok_def runtime_total_def find_None_iff_key)
  moreover have "ensure_runtime_row (px_sqlite px) (at_mark att) aid d = (Inr (), d)"
    using ensure_runtime_noop [OF assms(1), of "px_sqlite px" "at_mark att" aid] ensure_ok [of aid d "px_sqlite px" "at_mark att"]
      \<open>aid \<in> account_ids d\<close> by (metis account_exists_iff prod.collapse)
  ultimately show ?thesis using assms(3,4)
    by (auto simp: sidelined_def cool_down_def cooldown_account_def find_update_same)
qed

lemma sideline_accounts [simp]:
  "get_account aid (cool_down px att aid n cause d) = get_account aid d"
  "t_logs (cool_down px att aid n cause d) = t_logs d" "t_logs (mark_auth_failed q t aid m d) = t_logs d"
  by (auto simp: cool_down_def cooldown_account_def mark_auth_failed_def ensure_runtime_row_def split: prod.splits sum.splits)

lemma failure_records:
  assumes "db_ok d" "get_account aid d = Some a"
  shows "1 \<le> n \<Longrightarrow> n \<le> 60 * 60 \<Longrightarrow>
      sidelined (px_sqlite px) (at_mark att) aid (log_failure px att req aid reason code m (cool_down px att aid n cause d))
      \<and> one_error_logged aid d (log_failure px att req aid reason code m (cool_down px att aid n cause d))"
    and "sidelined (px_sqlite px) (at_mark att) aid
          (log_failure px att req aid reason code m (mark_auth_failed (px_sqlite px) (at_mark att) aid m' d))
      \<and> one_error_logged aid d (log_failure px att req aid reason code m (mark_auth_failed (px_sqlite px) (at_mark att) aid m' d))"
proof -
  assume "1 \<le> n" "n \<le> 60 * 60"
  from log_failure_records [OF _ cool_down_sidelines [OF assms this]] assms(2)
  show "sidelined (px_sqlite px) (at_mark att) aid (log_failure px att req aid reason code m (cool_down px att aid n cause d))
      \<and> one_error_logged aid d (log_failure px att req aid reason code m (cool_down px att aid n cause d))"
    by (simp add: one_error_logged_def)
next
  have "\<exists>a'. get_account aid (mark_auth_failed (px_sqlite px) (at_mark att) aid m' d) = Some a'"
    using assms(2) by (simp add: mark_auth_failed_def find_update_same)
  with log_failure_records [OF _ mark_sidelines [OF assms(2)]]
  show "sidelined (px_sqlite px) (at_mark att) aid
          (log_failure px att req aid reason code m (mark_auth_failed (px_sqlite px) (at_mark att) aid m' d))
      \<and> one_error_logged aid d (log_failure px att req aid reason code m (mark_auth_failed (px_sqlite px) (at_mark att) aid m' d))"
    by (fastforce simp: one_error_logged_def)
qed

lemma retry_after_range: "1 \<le> retry_after_seconds hs n \<and> retry_after_seconds hs n \<le> 60 * 60"
  by (simp add: retry_after_seconds_def clamp_def)

lemma settle_records:
  assumes "settle_response px a req aid reason resp d = (Failing_Over response e, d')" "db_ok d" "get_account aid d = Some acct"
  shows "sidelined (px_sqlite px) (at_mark a) aid d' \<and> one_error_logged aid d d'"
  using assms(1) failure_records [OF assms(2,3)] retry_after_range
  by (auto simp: settle_response_def Let_def split: if_splits)

lemma one_error_after: "t_logs d1 = t_logs d \<Longrightarrow> one_error_logged aid d1 d' \<Longrightarrow> one_error_logged aid d d'"
  by (simp add: one_error_logged_def)

text \<open>
  C38: an account that fails a request is set aside and the failure is on record.  When an attempt
  fails over, for whatever reason, exactly one row was added to the request log, an error of this
  account, and the account is marked as failed or cools down for at least a second and at most an hour.
\<close>

theorem failed_attempt_is_recorded:
  assumes att: "attempt_request px a req sel d = (Failing_Over response e, d')"
    and ok: "db_ok d" and acct: "get_account (acc_id (sel_account sel)) d = Some acct"
  shows "sidelined (px_sqlite px) (at_mark a) (acc_id (sel_account sel)) d'
     \<and> one_error_logged (acc_id (sel_account sel)) d d'"
proof -
  let ?aid = "acc_id (sel_account sel)"
  obtain sel1 d1 where m: "maybe_refresh_selected (px_io px) (px_config px) (at_proactive a) sel d = (sel1, d1)" by fastforce
  note r1 = maybe_refresh_touches [OF m ok]
  obtain r sel2 d2 where f: "refresh_selected (px_io px) (at_refresh a) sel1 d1 = (r, sel2, d2)" using prod_cases3 by blast
  note r2 = refresh_selected_touches [OF f]
  from touches_account_other(3) [OF _ acct] r1 obtain acct1 where a1: "get_account ?aid d1 = Some acct1" by blast
  from touches_account_other(3) [OF _ a1] r1 r2 obtain acct2 where a2: "get_account ?aid d2 = Some acct2" by auto
  have ok2: "db_ok d2" using r1 r2 by simp
  have logs: "t_logs d1 = t_logs d" "t_logs d2 = t_logs d"
    using r1 r2 by (auto simp: touches_account_def same_but_usage_def)
  note fail1 = failure_records [OF conjunct1 [OF r1] a1] and fail2 = failure_records [OF ok2 a2]
  note settle1 = settle_records [OF _ conjunct1 [OF r1] a1] and settle2 = settle_records [OF _ ok2 a2]
  have "(sidelined (px_sqlite px) (at_mark a) ?aid d' \<and> one_error_logged ?aid d1 d')
      \<or> (sidelined (px_sqlite px) (at_mark a) ?aid d' \<and> one_error_logged ?aid d2 d')"
    using att fail1 fail2 settle1 settle2
    by (auto simp: attempt_request_def sending_failed_def m f Let_def split: sum.splits if_splits)
  then show ?thesis using one_error_after [OF logs(1)] one_error_after [OF logs(2)] by blast
qed


section \<open>An instance\<close>

definition sample_config :: config where
  "sample_config = \<lparr>cfg_database_url = ''db'', cfg_host = ''127.0.0.1'', cfg_port = 2455, cfg_upstream_base_url = ''u'',
     cfg_auth_base_url = ''a'', cfg_oauth_client_id = ''c'', cfg_oauth_scope = ''s'', cfg_encryption_key_file = ''k'',
     cfg_admin_token = None, cfg_proxy_api_token = None, cfg_request_timeout = 600, cfg_token_refresh_interval_days = 8,
     cfg_usage_refresh_interval = 60\<rparr>"

definition sample_attempt :: attempt_io where
  "sample_attempt = \<lparr>at_selected = 6, at_select = 6, at_proactive = 6, at_first = \<lambda>_. Inl ''down'', at_refresh = 7,
     at_second = \<lambda>_. Inl ''down'', at_bind = 8, at_mark = 8, at_log = 9, at_elapsed_ms = 3\<rparr>"

definition sample_proxy :: proxy_io where
  "sample_proxy = \<lparr>px_io = sample_io, px_config = sample_config, px_sha = sample_sha, px_json = \<lambda>_. None,
     px_fresh_id = ''r'', px_attempt = \<lambda>_. sample_attempt\<rparr>"

definition sample_request :: proxy_request where
  "sample_request = \<lparr>pr_headers = [], pr_query = None, pr_body = [], pr_compact = False, pr_id = ''r'', pr_model = None,
     pr_keys = [], pr_epoch = None, pr_settings = settings_default\<rparr>"

definition sample_selection :: selected where
  "sample_selection = \<lparr>sel_account = imported_row sample_sqlite 5 7 ''a'' ''r'' ''i'' sample_auth sample_claims [],
     sel_tokens = \<lparr>at_access = ''a'', at_refresh = ''r'', at_id = ''i''\<rparr>, sel_reason = UsageWeighted\<rparr>"

lemma sample_no_refresh:
  "maybe_refresh_selected sample_io sample_config 6 sample_selection sample_db = (sample_selection, sample_db)"
  by (simp add: maybe_refresh_selected_def Let_def sample_selection_def imported_row_def sample_claims_def sample_auth_def
      sample_io_def sample_config_def should_refresh_def nanos_per_second_def signed_divide_int_def)

lemma failed_attempt_is_recorded_witness:
  "\<exists>d'. attempt_request sample_proxy sample_attempt sample_request sample_selection sample_db
       = (Failing_Over None (Upstream ''down''), d') \<and> sidelined sample_sqlite 8 7 d' \<and> one_error_logged 7 sample_db d'"
proof -
  have aid: "acc_id (sel_account sample_selection) = 7" by (simp add: sample_selection_def imported_row_def)
  obtain d' where a: "attempt_request sample_proxy sample_attempt sample_request sample_selection sample_db
       = (Failing_Over None (Upstream ''down''), d')"
    by (simp add: attempt_request_def sending_failed_def sample_proxy_def sample_attempt_def sample_no_refresh Let_def)
  have "get_account (acc_id (sel_account sample_selection)) sample_db \<noteq> None"
    by (simp add: aid sample_db_fields imported_row_def)
  with failed_attempt_is_recorded [OF a sample_db_ok] a show ?thesis
    by (auto simp: aid sample_proxy_def sample_attempt_def sample_io_def)
qed

end
