(* ===== verification/Proxy_Stream.thy ===== *)
theory Proxy_Stream
  imports Proxy
begin

text \<open>
  The response of a proxied request on its way to the client (\<open>logged_response_stream\<close> and
  \<open>leased_passthrough_stream\<close> of \<open>src/proxy.rs\<close>): the chunks pass through, their tail is kept, and
  when the last event is seen or the stream ends the request is logged and its lease released, once.
\<close>

section \<open>The stream\<close>

record stream_context =
  sc_id :: string
  sc_model :: "string option"
  sc_reason :: selection_reason
  sc_account :: uuid
  sc_event_stream :: bool
  sc_keys :: "route_key list"
  sc_epoch :: "route_epoch option"
  sc_bind :: instant
  sc_log :: instant
  sc_elapsed_ms :: nat

definition sse_capture_limit :: nat where
  "sse_capture_limit = 1024 * 1024"

record stream_state =
  ss_db :: db
  ss_capture :: tail_capture
  ss_detector :: sse_detector
  ss_settled :: bool
  ss_lease :: "uuid option"
  ss_spawned :: "uuid list"
  ss_sent :: "string list"

definition stream_start :: "stream_context \<Rightarrow> db \<Rightarrow> stream_state" where
  "stream_start ctx d = \<lparr>ss_db = d, ss_capture = tail_capture_new sse_capture_limit, ss_detector = detector_default,
     ss_settled = False, ss_lease = Some (sc_account ctx), ss_spawned = [], ss_sent = []\<rparr>"

text \<open>\<open>AccountLease::release\<close> and the drop of a lease spawn the same task.\<close>

definition release_lease :: "stream_state \<Rightarrow> stream_state" where
  "release_lease st =
     (case ss_lease st of
        None \<Rightarrow> st
      | Some aid \<Rightarrow> st\<lparr>ss_lease := None, ss_spawned := ss_spawned st @ [aid]\<rparr>)"

fun terminal_outcome :: "sse_terminal \<Rightarrow> string \<times> string option" where
  "terminal_outcome SseCompleted = (''success'', None)"
| "terminal_outcome SseIncomplete = (''error'', Some ''response_incomplete'')"
| "terminal_outcome SseFailed = (''error'', Some ''response_failed'')"
| "terminal_outcome SseError = (''error'', Some ''upstream_error'')"

definition bind_response_affinity ::
  "proxy_io \<Rightarrow> instant \<Rightarrow> uuid \<Rightarrow> string \<Rightarrow> route_key list \<Rightarrow> route_epoch option \<Rightarrow> db \<Rightarrow> db" where
  "bind_response_affinity px now aid rid ks epoch d =
     snd (bind_affinities_at_epoch (px_sqlite px) now (response_affinities (px_sha px) ks rid) aid epoch d)"

text \<open>The end of the request: what the tail reports is logged, and the lease goes back.\<close>

definition settle ::
  "proxy_io \<Rightarrow> stream_context \<Rightarrow> bool \<Rightarrow> string \<times> string option \<times> string option \<Rightarrow> stream_state \<Rightarrow> stream_state" where
  "settle px ctx assume_sse outcome st =
     (let (usage, rid) = capture_metadata (px_json px) (ss_capture st) assume_sse;
          (status, code, message) = outcome;
          d1 = (case rid of
                  None \<Rightarrow> ss_db st
                | Some r \<Rightarrow> bind_response_affinity px (sc_bind ctx) (sc_account ctx) r (sc_keys ctx) (sc_epoch ctx) (ss_db st));
          d2 = log_request (px_sqlite px) (sc_log ctx) (sc_elapsed_ms ctx) (sc_id ctx) (sc_account ctx) (sc_reason ctx)
                 (sc_model ctx)
                 \<lparr>oc_status = status, oc_error_code = code, oc_error_message = message, oc_usage = usage\<rparr> d1
      in release_lease (st\<lparr>ss_db := d2, ss_settled := True\<rparr>))"

text \<open>A chunk that arrives, up to the point where it is yielded; \<open>None\<close> is a panic of the buffer.\<close>

definition pass_chunk :: "proxy_io \<Rightarrow> stream_context \<Rightarrow> string \<Rightarrow> stream_state \<Rightarrow> stream_state option" where
  "pass_chunk px ctx bytes st =
     map_option (\<lambda>capture.
       let st1 = st\<lparr>ss_capture := capture\<rparr>;
           st2 = (if ss_settled st1 then st1
                  else case observe (ss_detector st1) bytes of
                    (None, det) \<Rightarrow> st1\<lparr>ss_detector := det\<rparr>
                  | (Some terminal, det) \<Rightarrow>
                      (let (status, code) = terminal_outcome terminal
                       in settle px ctx True (status, code, None) (st1\<lparr>ss_detector := det\<rparr>)))
       in st2\<lparr>ss_sent := ss_sent st2 @ [bytes]\<rparr>)
     (tail_push (ss_capture st) bytes)"

text \<open>What follows the last chunk, or the error the upstream's stream broke with.\<close>

definition finish_stream :: "proxy_io \<Rightarrow> stream_context \<Rightarrow> string option \<Rightarrow> stream_state \<Rightarrow> stream_state" where
  "finish_stream px ctx failure st =
     (if ss_settled st then st
      else settle px ctx (sc_event_stream ctx)
             (case failure of
                Some message \<Rightarrow> (''error'', Some ''upstream_stream_error'', Some message)
              | None \<Rightarrow> (''success'', None, None)) st)"

datatype stream_end = Dropped | Finished | Broken string

text \<open>
  The client polls the stream \<open>n\<close> times, and then drops it: a poll runs to the next yield, or to the
  end.  What is left of the lease is released when the stream is dropped.
\<close>

fun poll_stream ::
  "proxy_io \<Rightarrow> stream_context \<Rightarrow> nat \<Rightarrow> (string + string) list \<Rightarrow> stream_state \<Rightarrow> (stream_end \<times> stream_state) option" where
  "poll_stream px ctx 0 chunks st = Some (Dropped, release_lease st)"
| "poll_stream px ctx (Suc n) [] st = Some (Finished, finish_stream px ctx None st)"
| "poll_stream px ctx (Suc n) (Inl message # chunks) st = Some (Broken message, finish_stream px ctx (Some message) st)"
| "poll_stream px ctx (Suc n) (Inr bytes # chunks) st = Option.bind (pass_chunk px ctx bytes st) (poll_stream px ctx n chunks)"

definition logged_response_stream ::
  "proxy_io \<Rightarrow> stream_context \<Rightarrow> nat \<Rightarrow> (string + string) list \<Rightarrow> db \<Rightarrow> (stream_end \<times> stream_state) option" where
  "logged_response_stream px ctx n chunks d = poll_stream px ctx n chunks (stream_start ctx d)"

section \<open>The list of models passes through\<close>

record passthrough =
  pt_lease :: "uuid option"
  pt_spawned :: "uuid list"
  pt_sent :: "string list"

definition give_up_lease :: "passthrough \<Rightarrow> passthrough" where
  "give_up_lease st =
     (case pt_lease st of None \<Rightarrow> st | Some aid \<Rightarrow> st\<lparr>pt_lease := None, pt_spawned := pt_spawned st @ [aid]\<rparr>)"

fun leased_passthrough :: "nat \<Rightarrow> (string + string) list \<Rightarrow> passthrough \<Rightarrow> stream_end \<times> passthrough" where
  "leased_passthrough 0 chunks st = (Dropped, give_up_lease st)"
| "leased_passthrough (Suc n) [] st = (Finished, give_up_lease st)"
| "leased_passthrough (Suc n) (Inl message # chunks) st = (Broken message, give_up_lease st)"
| "leased_passthrough (Suc n) (Inr bytes # chunks) st =
     leased_passthrough n chunks (st\<lparr>pt_sent := pt_sent st @ [bytes]\<rparr>)"

section \<open>A whole request\<close>

definition stream_context_of ::
  "proxy_request \<Rightarrow> uuid \<Rightarrow> selection_reason \<Rightarrow> upstream_response \<Rightarrow> instant \<times> instant \<times> nat \<Rightarrow> stream_context" where
  "stream_context_of req aid reason resp = (\<lambda>(bind_at, log_at, elapsed_ms).
     \<lparr>sc_id = pr_id req, sc_model = pr_model req, sc_reason = reason, sc_account = aid,
      sc_event_stream = is_event_stream (rs_headers resp), sc_keys = pr_keys req, sc_epoch = pr_epoch req,
      sc_bind = bind_at, sc_log = log_at, sc_elapsed_ms = elapsed_ms\<rparr>)"

record served =
  sv_response :: "app_error + nat \<times> headers"
  sv_body :: "string list"
  sv_end :: stream_end
  sv_db :: db
  sv_spawned :: "uuid list"

text \<open>The client polls the body of the response \<open>n\<close> times.\<close>

definition serve_responses ::
  "proxy_io \<Rightarrow> headers \<Rightarrow> string \<Rightarrow> bool \<Rightarrow> nat \<Rightarrow> instant \<times> instant \<times> nat \<Rightarrow> db \<Rightarrow> served option" where
  "serve_responses px hs body compacted n tms d =
     (case proxy_request px hs body compacted d of
        (Refused e, f) \<Rightarrow> Some \<lparr>sv_response = Inl e, sv_body = [], sv_end = Finished, sv_db = fo_db f, sv_spawned = fo_spawned f\<rparr>
      | (Replied r, f) \<Rightarrow> Some \<lparr>sv_response = Inr (cr_status r, cr_headers r), sv_body = [cr_body r], sv_end = Finished,
                             sv_db = fo_db f, sv_spawned = fo_spawned f\<rparr>
      | (Opened aid reason resp, f) \<Rightarrow>
          (case read_request px hs body compacted d of
             Inl e \<Rightarrow> None
           | Inr req \<Rightarrow>
               map_option (\<lambda>(e, st). \<lparr>sv_response = Inr (rs_status resp, forwarded_response_headers (rs_headers resp)),
                   sv_body = ss_sent st, sv_end = e, sv_db = ss_db st, sv_spawned = fo_spawned f @ ss_spawned st\<rparr>)
                 (logged_response_stream px (stream_context_of req aid reason resp tms) n (rs_chunks resp) (fo_db f))))"

text \<open>The spawned releases, each at its own time.\<close>

fun run_releases :: "sqlite \<Rightarrow> (instant \<times> uuid) list \<Rightarrow> db \<Rightarrow> db" where
  "run_releases q [] d = d"
| "run_releases q ((now, aid) # rest) d = run_releases q rest (release_account q now aid d)"

section \<open>What the stream does\<close>

definition good_chunks :: "(string + string) list \<Rightarrow> string list" where
  "good_chunks cs = map projr (takeWhile (\<lambda>c. \<not> isl c) cs)"

lemma good_chunks_simps [simp]:
  "good_chunks [] = []" "good_chunks (Inl e # cs) = []" "good_chunks (Inr b # cs) = b # good_chunks cs"
  by (simp_all add: good_chunks_def)

text \<open>\<open>d'\<close> is \<open>d\<close> with the request logged once, after the key of its response was bound if it had one.\<close>

definition logged_once ::
  "proxy_io \<Rightarrow> stream_context \<Rightarrow> string \<times> string option \<times> string option \<Rightarrow> db \<Rightarrow> db \<Rightarrow> bool" where
  "logged_once px ctx = (\<lambda>(status, code, message) d d'. \<exists>usage d1.
     (d1 = d \<or> (\<exists>rid. d1 = bind_response_affinity px (sc_bind ctx) (sc_account ctx) rid (sc_keys ctx) (sc_epoch ctx) d))
     \<and> d' = log_request (px_sqlite px) (sc_log ctx) (sc_elapsed_ms ctx) (sc_id ctx) (sc_account ctx) (sc_reason ctx)
              (sc_model ctx) \<lparr>oc_status = status, oc_error_code = code, oc_error_message = message, oc_usage = usage\<rparr> d1)"

lemma settle_spec:
  "logged_once px ctx outcome (ss_db st) (ss_db (settle px ctx assume_sse outcome st))
   \<and> ss_settled (settle px ctx assume_sse outcome st)
   \<and> ss_capture (settle px ctx assume_sse outcome st) = ss_capture st
   \<and> ss_sent (settle px ctx assume_sse outcome st) = ss_sent st
   \<and> ss_lease (settle px ctx assume_sse outcome st) = None
   \<and> ss_spawned (settle px ctx assume_sse outcome st)
       = ss_spawned st @ (case ss_lease st of None \<Rightarrow> [] | Some aid \<Rightarrow> [aid])"
proof (cases outcome)
  case (fields status code message)
  obtain usage rid where m: "capture_metadata (px_json px) (ss_capture st) assume_sse = (usage, rid)" by fastforce
  show ?thesis
    unfolding fields logged_once_def by (cases rid) (auto simp: settle_def release_lease_def m split: option.splits)
qed

lemma logged_quiet: "logged_once px ctx outcome d d' \<Longrightarrow> quiet d d'"
proof (cases outcome)
  case (fields status code message)
  assume l: "logged_once px ctx outcome d d'"
  have "quiet d (bind_response_affinity px (sc_bind ctx) (sc_account ctx) rid (sc_keys ctx) (sc_epoch ctx) d)" for rid
    by (simp add: bind_response_affinity_def quiet_intros)
  with l quiet_trans [OF _ log_request_quiet] show "quiet d d'"
    unfolding logged_once_def fields by (auto intro: log_request_quiet)
qed

text \<open>What is known of a stream after it has sent \<open>ss_sent\<close>: either it still holds its lease and the
  store is as it was, or it has settled with the first terminal event in what it sent.\<close>

definition stream_inv :: "proxy_io \<Rightarrow> stream_context \<Rightarrow> db \<Rightarrow> stream_state \<Rightarrow> bool" where
  "stream_inv px ctx d st \<longleftrightarrow>
     holds_tail (ss_capture st) (concat (ss_sent st)) sse_capture_limit
     \<and> (if ss_settled st
        then ss_lease st = None \<and> ss_spawned st = [sc_account ctx]
             \<and> (\<exists>t. terminal_of (concat (ss_sent st)) = Some t
                  \<and> logged_once px ctx (fst (terminal_outcome t), snd (terminal_outcome t), None) d (ss_db st))
        else ss_lease st = Some (sc_account ctx) \<and> ss_spawned st = [] \<and> ss_db st = d
             \<and> remembers (ss_detector st) (concat (ss_sent st)))"

lemma stream_inv_start: "stream_inv px ctx d (stream_start ctx d)"
  by (simp add: stream_inv_def stream_start_def holds_tail_new remembers_default)

lemma stream_inv_pass:
  assumes "stream_inv px ctx d st"
  shows "\<exists>st'. pass_chunk px ctx bytes st = Some st' \<and> stream_inv px ctx d st' \<and> ss_sent st' = ss_sent st @ [bytes]"
proof -
  from assms holds_tail_push obtain capture where p: "tail_push (ss_capture st) bytes = Some capture"
    and h: "holds_tail capture (concat (ss_sent st) @ bytes) sse_capture_limit"
    unfolding stream_inv_def by blast
  show ?thesis
  proof (cases "ss_settled st")
    case True
    with assms p h show ?thesis
      by (auto simp: pass_chunk_def stream_inv_def dest: terminal_of_append)
  next
    case False
    then have r: "remembers (ss_detector st) (concat (ss_sent st))" using assms by (simp add: stream_inv_def)
    obtain seen det where o: "observe (ss_detector st) bytes = (seen, det)" by fastforce
    note step = observe_remembers [OF r, of bytes, unfolded o]
    show ?thesis
    proof (cases seen)
      case None
      with step assms False p h o show ?thesis by (simp add: pass_chunk_def stream_inv_def Let_def)
    next
      case (Some t)
      let ?out = "(fst (terminal_outcome t), snd (terminal_outcome t), None)"
      let ?st = "st\<lparr>ss_capture := capture, ss_detector := det\<rparr>"
      have "pass_chunk px ctx bytes st
          = Some (let s = settle px ctx True ?out ?st in s\<lparr>ss_sent := ss_sent s @ [bytes]\<rparr>)"
        using False p o Some by (simp add: pass_chunk_def Let_def split: prod.split)
      moreover from step Some have "terminal_of (concat (ss_sent st) @ bytes) = Some t" by simp
      ultimately show ?thesis
        using settle_spec [of px ctx ?out ?st True] assms False h by (auto simp: stream_inv_def Let_def)
    qed
  qed
qed

definition stream_result :: "nat \<Rightarrow> (string + string) list \<Rightarrow> stream_end" where
  "stream_result n cs =
     (if n \<le> length (good_chunks cs) then Dropped
      else case drop (length (good_chunks cs)) cs of Inl message # _ \<Rightarrow> Broken message | _ \<Rightarrow> Finished)"

lemma stream_result_simps [simp]:
  "stream_result 0 cs = Dropped" "stream_result (Suc n) [] = Finished"
  "stream_result (Suc n) (Inl m # cs) = Broken m" "stream_result (Suc n) (Inr b # cs) = stream_result n cs"
  by (simp_all add: stream_result_def)

definition logged_as :: "proxy_io \<Rightarrow> stream_context \<Rightarrow> string \<Rightarrow> stream_end \<Rightarrow> db \<Rightarrow> db \<Rightarrow> bool" where
  "logged_as px ctx body result d d' \<longleftrightarrow>
     (case terminal_of body of
        Some t \<Rightarrow> logged_once px ctx (fst (terminal_outcome t), snd (terminal_outcome t), None) d d'
      | None \<Rightarrow> (case result of
          Dropped \<Rightarrow> d' = d
        | Finished \<Rightarrow> logged_once px ctx (''success'', None, None) d d'
        | Broken message \<Rightarrow> logged_once px ctx (''error'', Some ''upstream_stream_error'', Some message) d d'))"

lemma stream_inv_release:
  assumes "stream_inv px ctx d st"
  shows "logged_as px ctx (concat (ss_sent st)) Dropped d (ss_db (release_lease st))
     \<and> ss_lease (release_lease st) = None \<and> ss_spawned (release_lease st) = [sc_account ctx]
     \<and> ss_sent (release_lease st) = ss_sent st"
  using assms
  by (auto simp: stream_inv_def release_lease_def logged_as_def dest: remembers_terminal split: if_splits option.splits)

lemma stream_inv_finish:
  fixes failure :: "string option"
  assumes "stream_inv px ctx d st"
  defines "result \<equiv> (case failure of None \<Rightarrow> Finished | Some message \<Rightarrow> Broken message)"
  shows "logged_as px ctx (concat (ss_sent st)) result d (ss_db (finish_stream px ctx failure st))
     \<and> ss_lease (finish_stream px ctx failure st) = None \<and> ss_spawned (finish_stream px ctx failure st) = [sc_account ctx]
     \<and> ss_sent (finish_stream px ctx failure st) = ss_sent st"
proof (cases "ss_settled st")
  case True
  with assms show ?thesis by (auto simp: stream_inv_def finish_stream_def logged_as_def)
next
  case False
  let ?out = "case failure of Some message \<Rightarrow> (''error'', Some ''upstream_stream_error'', Some message)
              | None \<Rightarrow> (''success'', None, None)"
  have "terminal_of (concat (ss_sent st)) = None" using assms(1) False by (auto simp: stream_inv_def intro: remembers_terminal)
  with False assms settle_spec [of px ctx ?out st "sc_event_stream ctx"] show ?thesis
    by (cases failure) (simp_all add: stream_inv_def finish_stream_def logged_as_def)
qed

lemma poll_stream_spec:
  assumes "stream_inv px ctx d st"
  shows "\<exists>st'. poll_stream px ctx n cs st = Some (stream_result n cs, st')
     \<and> ss_sent st' = ss_sent st @ take n (good_chunks cs) \<and> ss_lease st' = None \<and> ss_spawned st' = [sc_account ctx]
     \<and> logged_as px ctx (concat (ss_sent st')) (stream_result n cs) d (ss_db st')"
  using assms
proof (induction px ctx n cs st rule: poll_stream.induct)
  case (1 px ctx cs st)
  with stream_inv_release show ?case by fastforce
next
  case (2 px ctx n st)
  with stream_inv_finish [OF 2, of None] show ?case by simp
next
  case (3 px ctx n message cs st)
  with stream_inv_finish [OF 3, of "Some message"] show ?case by simp
next
  case (4 px ctx n bytes cs st)
  from stream_inv_pass [OF 4(2), of bytes] obtain st1 where "pass_chunk px ctx bytes st = Some st1"
    "stream_inv px ctx d st1" "ss_sent st1 = ss_sent st @ [bytes]" by blast
  with 4(1) [of st1] show ?case by simp
qed

lemma logged_response_spec:
  "\<exists>st. logged_response_stream px ctx n cs d = Some (stream_result n cs, st)
     \<and> ss_sent st = take n (good_chunks cs) \<and> ss_lease st = None \<and> ss_spawned st = [sc_account ctx]
     \<and> logged_as px ctx (concat (take n (good_chunks cs))) (stream_result n cs) d (ss_db st)"
  using poll_stream_spec [OF stream_inv_start [of px ctx d], of n cs]
  by (auto simp: logged_response_stream_def stream_start_def)

text \<open>
  C5: a response streams through unchanged and is accounted for once.  Whatever the chunks and
  whenever the client stops, what the client got is what the upstream sent so far, chunk by chunk, and
  exactly one release of the lease is spawned.  The request is logged at most once: with the verdict
  of the first terminal event in all that was sent, however it was cut into chunks; without such an
  event as a success when the stream ended and as an error when it broke; not at all when the client
  left before either.  The buffer never panics.
\<close>

theorem stream_passes_and_settles_once:
  "\<exists>st. logged_response_stream px ctx n cs d = Some (stream_result n cs, st)
     \<and> ss_sent st = take n (good_chunks cs) \<and> ss_lease st = None \<and> ss_spawned st = [sc_account ctx]
     \<and> logged_as px ctx (concat (take n (good_chunks cs))) (stream_result n cs) d (ss_db st)"
  by (rule logged_response_spec)

section \<open>What a request leaves behind\<close>

lemma run_releases_leases:
  "leases_ok d (mset (map snd rel) + M) \<Longrightarrow> leases_ok (run_releases q rel d) M"
proof (induction rel arbitrary: d)
  case (Cons r rel)
  obtain now aid where r: "r = (now, aid)" by (cases r)
  from Cons.prems leases_release(1) [of d aid "mset (map snd rel) + M" q now]
  have "leases_ok (release_account q now aid d) (mset (map snd rel) + M)" by (simp add: r)
  with Cons.IH show ?case by (simp add: r)
qed simp

lemma logged_as_quiet: "logged_as px ctx body result d d' \<Longrightarrow> quiet d d'"
  by (auto simp: logged_as_def dest: logged_quiet split: option.splits stream_end.splits)

lemma proxy_request_ok:
  assumes "leases_ok d M" "proxy_request px hs body compacted d = r"
  shows "leases_ok (fo_db (snd r)) (mset (tried r) + M) \<and> distinct (tried r)
     \<and> length (tried r) \<le> proxy_attempts (int (account_count d)) (proxy_max_attempts (load_runtime_settings (t_settings d)))"
proof (cases "read_request px hs body compacted d")
  case (Inl e)
  with assms show ?thesis by (auto simp: proxy_request_def failover_start_def)
next
  case (Inr req)
  then have settings: "pr_settings req = load_runtime_settings (t_settings d)"
    by (auto simp: read_request_def Let_def)
  let ?pick = "\<lambda>i. select_for_attempt px (px_attempt px i) req (map_option key_hash (selection_affinity (pr_keys req) (pr_epoch req)))"
  let ?attempt = "\<lambda>i. attempt_request px (px_attempt px i) req"
  from assms Inr have "failover_loop ?pick ?attempt ''no account could handle request'' 0 (request_attempts req d)
      (failover_start d) = r"
    by (simp add: proxy_request_def run_attempts_def)
  from requests.loop_ok [OF _ _ _ this, of M] assms(1) settings show ?thesis
    by (simp add: failover_start_def request_attempts_def)
qed


lemma sample_leases: "leases_ok sample_db {#}"
  unfolding sample_db_def
  by (rule upsert_leases [OF _ prod.collapse [symmetric]]) (rule leases_ok_reachable [OF store_reachable_start], simp)


end
