(* ===== verification/Ws_Connect.thy ===== *)
theory Ws_Connect
  imports Proxy_Stream Registry
begin

text \<open>
  The opening of a WebSocket connection (\<open>src/websocket.rs\<close>): the keys of its session, the handshake
  with the upstream, and the accounts that are tried until one of them opens.  The handshake's outcome
  is a parameter.
\<close>

section \<open>The keys of the session\<close>

definition websocket_keys :: "(string \<times> string) list" where
  "websocket_keys =
     [(''session-id'', ''session_id''), (''x-session-id'', ''session_id''), (''x-codex-session-id'', ''session_id''),
      (''thread-id'', ''thread_id''), (''x-client-request-id'', ''thread_id'')]"

definition websocket_affinities :: "(string \<Rightarrow> string) \<Rightarrow> headers \<Rightarrow> route_key list" where
  "websocket_affinities sha hs =
     fold (\<lambda>(kind, v). push_new (session_route_key sha kind v)) (keyed_values (header_str hs) websocket_keys) []"

section \<open>The handshake\<close>

text \<open>An error of the handshake: an HTTP answer with its status and body, or anything else by its text.\<close>

datatype ws_error = Ws_Http nat "string option" | Ws_Other string

definition websocket_error_status :: "ws_error \<Rightarrow> nat option" where
  "websocket_error_status e = (case e of Ws_Http status _ \<Rightarrow> Some status | Ws_Other _ \<Rightarrow> None)"

definition is_ws_auth_error :: "ws_error \<Rightarrow> bool" where
  "is_ws_auth_error e \<longleftrightarrow> (case websocket_error_status e of None \<Rightarrow> False | Some s \<Rightarrow> is_auth_status s)"

definition websocket_error_message :: "upstream_io \<Rightarrow> ws_error \<Rightarrow> string" where
  "websocket_error_message io e =
     (case e of
        Ws_Http status body \<Rightarrow> ''upstream WebSocket handshake failed ('' @ status_text io status @ ''): ''
          @ take_chars 2000 (from_utf8_lossy (or_default body []))
      | Ws_Other text \<Rightarrow> ''upstream WebSocket connection failed: '' @ text)"

definition forwarded_handshake_names :: "string list" where
  "forwarded_handshake_names =
     [''user-agent'', ''originator'', ''openai-beta'', ''accept-language'', ''session-id'', ''thread-id'', ''x-session-id'',
      ''x-client-request-id'', ''traceparent'', ''tracestate'']"

definition should_forward_handshake_header :: "string \<Rightarrow> bool" where
  "should_forward_handshake_header name \<longleftrightarrow>
     name \<in> set forwarded_handshake_names \<or> starts_with name ''x-codex-'' \<or> starts_with name ''x-openai-''
     \<or> starts_with name ''x-stainless-''"

text \<open>\<open>HeaderMap::insert\<close> replaces every value of the name; \<open>HeaderValue::from_str\<close> refuses control bytes.\<close>

definition header_put :: "string \<Rightarrow> string \<Rightarrow> headers \<Rightarrow> headers" where
  "header_put name v hs = filter (\<lambda>(n, _). n \<noteq> name) hs @ [(name, v)]"

definition header_value :: "string \<Rightarrow> string option" where
  "header_value v = (if list_all (\<lambda>c. (32 \<le> byte c \<and> byte c \<noteq> 127) \<or> byte c = 9) v then Some v else None)"

definition openai_beta_websocket_v2 :: string where
  "openai_beta_websocket_v2 = ''responses_websockets=2026-02-06''"

text \<open>\<open>base\<close> makes the client request of a URL, \<open>bad_header\<close> is the text of the error of a bad value.\<close>

definition handshake_request ::
  "(string \<Rightarrow> ws_error + headers) \<Rightarrow> string \<Rightarrow> config \<Rightarrow> selected \<Rightarrow> headers \<Rightarrow> ws_error + (string \<times> headers)" where
  "handshake_request base bad_header c sel incoming =
     (case upstream_codex_responses_websocket_url c of
        Inl e \<Rightarrow> Inl (Ws_Other (''IO error: '' @ e))
      | Inr url \<Rightarrow> (case base url of
          Inl e \<Rightarrow> Inl e
        | Inr hs0 \<Rightarrow>
            (let hs1 = fold (\<lambda>(n, v) hs. if should_forward_handshake_header n then header_put n v hs else hs) incoming hs0
             in case header_value (''Bearer '' @ at_access (sel_tokens sel)) of
                  None \<Rightarrow> Inl (Ws_Other bad_header)
                | Some bearer \<Rightarrow>
                    (let hs2 = header_put ''authorization'' bearer hs1
                     in case (case acc_chatgpt_id (sel_account sel) of
                                None \<Rightarrow> Some hs2
                              | Some i \<Rightarrow> map_option (\<lambda>v. header_put ''chatgpt-account-id'' v hs2) (header_value i)) of
                          None \<Rightarrow> Inl (Ws_Other bad_header)
                        | Some hs3 \<Rightarrow>
                            Inr (url, if header_get hs3 ''openai-beta'' = None
                                      then header_put ''openai-beta'' openai_beta_websocket_v2 hs3 else hs3)))))"

definition handshake_response_names :: "string list" where
  "handshake_response_names = [''x-reasoning-included'', ''x-models-etag'', ''openai-model'', ''x-codex-turn-state'']"

definition copy_upstream_handshake_headers :: "headers \<Rightarrow> headers \<Rightarrow> headers" where
  "copy_upstream_handshake_headers source target =
     fold (\<lambda>name hs. case header_get source name of None \<Rightarrow> hs | Some v \<Rightarrow> header_put name v hs)
       handshake_response_names target"

section \<open>Opening a connection\<close>

text \<open>The instants of one attempt and what the upstream answers; a timeout is one of the other errors.\<close>

record ws_attempt =
  wa_selected :: instant
  wa_select :: instant
  wa_proactive :: instant
  wa_refresh :: instant
  wa_first :: "string \<times> headers \<Rightarrow> ws_error + headers"
  wa_second :: "string \<times> headers \<Rightarrow> ws_error + headers"
  wa_mark :: instant
  wa_release :: instant
  wa_bind :: instant

record ws_io =
  ws_upstream :: upstream_io
  ws_config :: config
  ws_sha :: "string \<Rightarrow> string"
  ws_json :: "string \<Rightarrow> json option"
  ws_fresh_id :: string
  ws_base :: "string \<Rightarrow> ws_error + headers"
  ws_bad_header :: string
  ws_attempts :: "nat \<Rightarrow> ws_attempt"

abbreviation ws_sqlite :: "ws_io \<Rightarrow> sqlite" where
  "ws_sqlite io \<equiv> io_sqlite (ws_upstream io)"

definition connect_upstream ::
  "ws_io \<Rightarrow> (string \<times> headers \<Rightarrow> ws_error + headers) \<Rightarrow> headers \<Rightarrow> selected \<Rightarrow> ws_error + headers" where
  "connect_upstream io answer incoming sel =
     (case handshake_request (ws_base io) (ws_bad_header io) (ws_config io) sel incoming of
        Inl e \<Rightarrow> Inl e
      | Inr req \<Rightarrow> answer req)"

definition plain_failure :: "ws_io \<Rightarrow> ws_error \<Rightarrow> app_error \<times> nat option" where
  "plain_failure io e = (Upstream (websocket_error_message (ws_upstream io) e), websocket_error_status e)"

text \<open>Connect, and once more with fresh tokens when the first answer is an authentication error.\<close>

definition open_connection ::
  "ws_io \<Rightarrow> ws_attempt \<Rightarrow> headers \<Rightarrow> uuid \<Rightarrow> selected \<Rightarrow> db \<Rightarrow> ((app_error \<times> nat option) + selected \<times> headers) \<times> db" where
  "open_connection io a incoming aid sel d =
     (case connect_upstream io (wa_first a) incoming sel of
        Inr response \<Rightarrow> (Inr (sel, response), d)
      | Inl e \<Rightarrow>
          (if is_ws_auth_error e then
             (case refresh_selected (ws_upstream io) (wa_refresh a) sel d of
                (Inl refresh_error, _, d') \<Rightarrow>
                  (let message = ''WebSocket authentication refresh failed: '' @ error_text refresh_error
                   in (Inl (Upstream message, websocket_error_status e),
                       mark_auth_failed (ws_sqlite io) (wa_mark a) aid message d'))
              | (Inr _, sel', d') \<Rightarrow>
                  (case connect_upstream io (wa_second a) incoming sel' of
                     Inr response \<Rightarrow> (Inr (sel', response), d')
                   | Inl e' \<Rightarrow> (Inl (plain_failure io e'), d')))
           else (Inl (plain_failure io e), d)))"

definition after_failed_open :: "ws_io \<Rightarrow> ws_attempt \<Rightarrow> runtime_settings \<Rightarrow> uuid \<Rightarrow> nat option \<Rightarrow> db \<Rightarrow> db" where
  "after_failed_open io a st aid status d =
     (if (case status of None \<Rightarrow> False | Some s \<Rightarrow> is_auth_status s) then
        mark_auth_failed (ws_sqlite io) (wa_mark a) aid ''upstream WebSocket authentication failed after refresh'' d
      else if status = Some 429 then
        snd (cooldown_account (ws_sqlite io) (wa_mark a) aid (rate_limit_cooldown_seconds st)
               ''upstream WebSocket rate limited'' d)
      else snd (cooldown_account (ws_sqlite io) (wa_mark a) aid 10 ''upstream WebSocket unavailable'' d))"

record prepared_websocket =
  pw_selected :: selected
  pw_headers :: headers

fun connect_loop ::
  "ws_io \<Rightarrow> headers \<Rightarrow> runtime_settings \<Rightarrow> route_key list \<Rightarrow> route_epoch option \<Rightarrow> nat \<Rightarrow> nat
     \<Rightarrow> uuid list \<Rightarrow> app_error option \<Rightarrow> db \<Rightarrow> prepared_websocket app_result \<times> uuid list \<times> db" where
  "connect_loop io incoming st ks epoch i 0 excluded last_error d =
     (Inl (or_default last_error (Upstream ''no account could open a Responses WebSocket'')), excluded, d)"
| "connect_loop io incoming st ks epoch i (Suc n) excluded last_error d =
     (let a = ws_attempts io i
      in case select_account_for_request (ws_sqlite io) (decrypt_with (ws_upstream io)) (wa_selected a) (wa_select a)
                (map_option key_hash (selection_affinity ks epoch)) (set excluded) st
                (cfg_usage_refresh_interval (ws_config io)) d of
           (Inl e, d1) \<Rightarrow>
             if excluded \<noteq> [] then (Inl (or_default last_error e), excluded, d1) else (Inl e, excluded, d1)
         | (Inr sel, d1) \<Rightarrow>
             (let aid = acc_id (sel_account sel);
                  (sel1, d2) = maybe_refresh_selected (ws_upstream io) (ws_config io) (wa_proactive a) sel d1
              in case open_connection io a incoming aid sel1 d2 of
                   (Inr (sel2, response), d3) \<Rightarrow>
                     (let d4 = release_account_reservation (ws_sqlite io) (wa_release a) aid d3
                      in (Inr \<lparr>pw_selected = sel2, pw_headers = response\<rparr>, excluded @ [aid],
                          if ks = [] then d4
                          else snd (bind_affinities_at_epoch (ws_sqlite io) (wa_bind a) ks aid epoch d4)))
                 | (Inl (e, status), d3) \<Rightarrow>
                     connect_loop io incoming st ks epoch (Suc i) n (excluded @ [aid]) (Some e)
                       (release_account_reservation (ws_sqlite io) (wa_release a) aid
                          (after_failed_open io a st aid status d3))))"

definition select_and_connect ::
  "ws_io \<Rightarrow> headers \<Rightarrow> route_key list \<Rightarrow> route_epoch option \<Rightarrow> db \<Rightarrow> prepared_websocket app_result \<times> uuid list \<times> db" where
  "select_and_connect io incoming ks epoch d =
     (let st = load_runtime_settings (t_settings d)
      in connect_loop io incoming st ks epoch 0 (proxy_attempts (int (account_count d)) (proxy_max_attempts st)) [] None d)"

section \<open>Opening leaves no lease\<close>

lemma open_connection_quiet: "quiet d (snd (open_connection io a incoming aid sel d))"
proof -
  obtain r sel2 d2 where f: "refresh_selected (ws_upstream io) (wa_refresh a) sel d = (r, sel2, d2)"
    using prod_cases3 by blast
  with refresh_selected_quiet [of d "ws_upstream io" "wa_refresh a" sel] have q: "quiet d d2" by simp
  with failure_quiet(3) [OF q] show ?thesis
    by (simp add: open_connection_def f Let_def split: sum.split)
qed

lemma after_failed_quiet: "quiet d (after_failed_open io a st aid status d)"
  by (simp add: after_failed_open_def quiet_intros)

lemma connect_loop_ok:
  assumes "leases_ok d M" "distinct excluded"
    and "connect_loop io incoming st ks epoch i n excluded last_error d = (res, tried', d')"
  shows "leases_ok d' M \<and> distinct tried' \<and> length tried' \<le> length excluded + n"
  using assms
proof (induction n arbitrary: i excluded last_error d)
  case (Suc n)
  let ?a = "ws_attempts io i"
  obtain sel d1 where s: "select_account_for_request (ws_sqlite io) (decrypt_with (ws_upstream io)) (wa_selected ?a) (wa_select ?a)
      (map_option key_hash (selection_affinity ks epoch)) (set excluded) st (cfg_usage_refresh_interval (ws_config io)) d
      = (sel, d1)" by fastforce
  note taken = select_leases [OF Suc.prems(1) s]
  show ?case
  proof (cases sel)
    case (Inl e)
    with Suc.prems s taken show ?thesis by (auto simp: Let_def split: if_splits)
  next
    case (Inr sel0)
    let ?aid = "acc_id (sel_account sel0)"
    have new: "?aid \<notin> set excluded"
      using select_not_excluded [OF leases_ok_db [OF Suc.prems(1)]] s Inr by blast
    obtain sel1 d2 where m: "maybe_refresh_selected (ws_upstream io) (ws_config io) (wa_proactive ?a) sel0 d1 = (sel1, d2)"
      by fastforce
    obtain outcome d3 where opn: "open_connection io ?a incoming ?aid sel1 d2 = (outcome, d3)" by fastforce
    have q: "quiet d1 d3"
      using quiet_trans maybe_refresh_quiet [of d1 "ws_upstream io" "ws_config io" "wa_proactive ?a" sel0]
        open_connection_quiet [of d2 io ?a incoming ?aid sel1] m opn by (metis snd_conv)
    have restored: "leases_ok (release_account_reservation (ws_sqlite io) (wa_release ?a) ?aid d4) M" if "quiet d1 d4" for d4
      using leases_release(2) quiet_leases [OF that taken] Inr by simp
    show ?thesis
    proof (cases outcome)
      case (Inl failure)
      obtain e status where e: "failure = (e, status)" by (cases failure)
      let ?d = "release_account_reservation (ws_sqlite io) (wa_release ?a) ?aid (after_failed_open io ?a st ?aid status d3)"
      have "connect_loop io incoming st ks epoch (Suc i) n (excluded @ [?aid]) (Some e) ?d = (res, tried', d')"
        using Suc.prems(3) s Inr m opn Inl e by (simp add: Let_def)
      with Suc.IH [OF restored [OF quiet_trans [OF q after_failed_quiet]] _ this] new Suc.prems(2) show ?thesis by simp
    next
      case (Inr connected)
      obtain sel2 response where c: "connected = (sel2, response)" by (cases connected)
      let ?d = "release_account_reservation (ws_sqlite io) (wa_release ?a) ?aid d3"
      have "leases_ok (snd (bind_affinities_at_epoch (ws_sqlite io) (wa_bind ?a) ks ?aid epoch ?d)) M"
        using quiet_leases [OF quiet_bind restored [OF q]] .
      with restored [OF q] Suc.prems s \<open>sel = Inr sel0\<close> m opn Inr c new show ?thesis by (auto simp: Let_def)
    qed
  qed
qed simp


definition sample_ws_attempt :: ws_attempt where
  "sample_ws_attempt = \<lparr>wa_selected = 6, wa_select = 6, wa_proactive = 6, wa_refresh = 7,
     wa_first = \<lambda>_. Inl (Ws_Http 429 None), wa_second = \<lambda>_. Inl (Ws_Other ''down''), wa_mark = 8, wa_release = 8,
     wa_bind = 9\<rparr>"

definition sample_ws :: ws_io where
  "sample_ws = \<lparr>ws_upstream = sample_io, ws_config = sample_config, ws_sha = sample_sha,
     ws_json = \<lambda>_. Some (JObject [(''type'', JString ''response.create'')]), ws_fresh_id = ''r'',
     ws_base = \<lambda>_. Inr [], ws_bad_header = ''bad'', ws_attempts = \<lambda>_. sample_ws_attempt\<rparr>"


end
