(* ===== verification/Ws_Bridge.thy ===== *)
theory Ws_Bridge
  imports Ws_Connect
begin

text \<open>
  The bridge between a client's WebSocket and the upstream's (\<open>bridge\<close> of \<open>src/websocket.rs\<close>): a state
  machine over the events of its \<open>select!\<close> loop.  Each request of the client is a turn with a lease of
  its own; the bridge ends by asking the client to reconnect when its session was rerouted or the
  daemon restarts.
\<close>

section \<open>Messages\<close>

type_synonym close_frame = "(nat \<times> string) option"

datatype client_message = C_Text string | C_Binary string | C_Ping string | C_Pong string | C_Close close_frame

datatype upstream_message =
  U_Text string | U_Binary string | U_Ping string | U_Pong string | U_Close close_frame | U_Frame string

fun to_upstream_message :: "client_message \<Rightarrow> upstream_message" where
  "to_upstream_message (C_Text t) = U_Text t"
| "to_upstream_message (C_Binary b) = U_Binary b"
| "to_upstream_message (C_Ping b) = U_Ping b"
| "to_upstream_message (C_Pong b) = U_Pong b"
| "to_upstream_message (C_Close f) = U_Close f"

fun to_client_message :: "upstream_message \<Rightarrow> client_message option" where
  "to_client_message (U_Text t) = Some (C_Text t)"
| "to_client_message (U_Binary b) = Some (C_Binary b)"
| "to_client_message (U_Ping b) = Some (C_Ping b)"
| "to_client_message (U_Pong b) = Some (C_Pong b)"
| "to_client_message (U_Close f) = Some (C_Close f)"
| "to_client_message (U_Frame _) = None"

record parsed_request =
  pq_id :: string
  pq_model :: "string option"

definition request_id_pointers :: "string list list" where
  "request_id_pointers =
     [[''client_metadata'', ''turn_id''], [''client_metadata'', ''request_id''],
      [''client_metadata'', ''x-codex-ws-stream-request-start-ms'']]"

definition parse_response_create :: "(string \<Rightarrow> json option) \<Rightarrow> string \<Rightarrow> string \<Rightarrow> parsed_request option" where
  "parse_response_create js fresh text =
     Option.bind (js text) (\<lambda>v.
       if Option.bind (jget ''type'' v) as_str \<noteq> Some ''response.create'' then None
       else Some \<lparr>pq_id = or_default
                    (Option.bind (find_some (\<lambda>p. Option.bind (pointer p v) as_str) request_id_pointers)
                       (\<lambda>i. if trim i = [] then None else Some i)) fresh,
                  pq_model = Option.bind (jget ''model'' v) as_str\<rparr>)"

section \<open>Terminal events\<close>

definition terminal_event :: "json \<Rightarrow> sse_terminal option" where
  "terminal_event v =
     Option.bind (Option.bind (jget ''type'' v) as_str) (\<lambda>t.
       if t = ''response.completed'' then Some SseCompleted
       else if t = ''response.incomplete'' then Some SseIncomplete
       else if t = ''response.failed'' then Some SseFailed
       else if t = ''error'' then Some SseError else None)"

definition event_status :: "json \<Rightarrow> nat option" where
  "event_status v =
     Option.bind (or_else (jget ''status'' v) (jget ''status_code'' v)) (\<lambda>s.
       or_else (as_u64 s) (Option.bind (as_str s) (parse_unsigned (2 ^ 64 - 1))))"

definition should_retry_on_new_connection :: "json \<Rightarrow> bool" where
  "should_retry_on_new_connection v \<longleftrightarrow>
     (case event_status v of None \<Rightarrow> False | Some s \<Rightarrow> s \<in> {401, 403, 429} \<or> (500 \<le> s \<and> s \<le> 599))
     \<or> Option.bind (pointer [''error'', ''code''] v) as_str = Some ''websocket_connection_limit_reached''"

section \<open>Turns\<close>

record active_turn =
  tn_id :: string
  tn_model :: "string option"
  tn_reason :: selection_reason

text \<open>The instants of the store's operations in one round of the loop.\<close>

record turn_io =
  ti_log :: instant
  ti_release :: instant
  ti_acquire :: instant
  ti_bind :: instant
  ti_mark :: instant
  ti_elapsed_ms :: nat

text \<open>What the bridge is given: the account, the keys of its session and the epoch it was opened at.\<close>

record bridge_context =
  bc_account :: uuid
  bc_keys :: "route_key list"
  bc_epoch :: "route_epoch option"

definition persist_turn ::
  "ws_io \<Rightarrow> bridge_context \<Rightarrow> turn_io \<Rightarrow> active_turn \<Rightarrow> string \<Rightarrow> string option \<Rightarrow> string option \<Rightarrow> usage_data \<Rightarrow> db \<Rightarrow> db" where
  "persist_turn io ctx t turn status code message usage d =
     log_request (ws_sqlite io) (ti_log t) (ti_elapsed_ms t) (tn_id turn) (bc_account ctx) (tn_reason turn) (tn_model turn)
       \<lparr>oc_status = status, oc_error_code = code, oc_error_message = message, oc_usage = usage\<rparr> d"

definition apply_terminal_error_state ::
  "ws_io \<Rightarrow> bridge_context \<Rightarrow> turn_io \<Rightarrow> json \<Rightarrow> string option \<Rightarrow> db \<Rightarrow> db" where
  "apply_terminal_error_state io ctx t event message d =
     (case event_status event of
        None \<Rightarrow> d
      | Some s \<Rightarrow>
          if s = 429 then
            snd (cooldown_account (ws_sqlite io) (ti_mark t) (bc_account ctx)
                   (rate_limit_cooldown_seconds (load_runtime_settings (t_settings d))) ''upstream WebSocket rate limited'' d)
          else if s = 401 \<or> s = 403 then
            mark_auth_failed (ws_sqlite io) (ti_mark t) (bc_account ctx)
              (or_default message ''upstream WebSocket authentication failed'') d
          else if 500 \<le> s \<and> s \<le> 599 then
            snd (cooldown_account (ws_sqlite io) (ti_mark t) (bc_account ctx) 10 ''upstream WebSocket server error'' d)
          else d)"

definition ws_bind_response :: "ws_io \<Rightarrow> bridge_context \<Rightarrow> turn_io \<Rightarrow> string \<Rightarrow> db \<Rightarrow> db" where
  "ws_bind_response io ctx t rid d =
     snd (bind_affinities_at_epoch (ws_sqlite io) (ti_bind t) (response_affinities (ws_sha io) (bc_keys ctx) rid)
            (bc_account ctx) (bc_epoch ctx) d)"

definition finish_turn :: "ws_io \<Rightarrow> bridge_context \<Rightarrow> turn_io \<Rightarrow> active_turn \<Rightarrow> json \<Rightarrow> db \<Rightarrow> db" where
  "finish_turn io ctx t turn event d =
     (let (status, fallback_code) = terminal_outcome (or_default (terminal_event event) SseError);
          error_code = or_else (Option.bind (or_else (pointer [''error'', ''code''] event) (pointer [''error'', ''type''] event)) as_str)
                         fallback_code;
          error_message = Option.bind (or_else (pointer [''error'', ''message''] event) (jget ''message'' event)) as_str;
          d1 = (case Option.bind (or_else (pointer [''response'', ''id''] event) (jget ''id'' event)) as_str of
                  None \<Rightarrow> d | Some rid \<Rightarrow> ws_bind_response io ctx t rid d);
          d2 = (if status = ''error'' then apply_terminal_error_state io ctx t event error_message d1 else d1);
          d3 = persist_turn io ctx t turn status error_code error_message (extract_usage_from_json event) d2
      in release_account (ws_sqlite io) (ti_release t) (bc_account ctx) d3)"

definition finish_disconnected_turn ::
  "ws_io \<Rightarrow> bridge_context \<Rightarrow> turn_io \<Rightarrow> active_turn \<Rightarrow> string \<Rightarrow> string \<Rightarrow> db \<Rightarrow> db" where
  "finish_disconnected_turn io ctx t turn code message d =
     release_account (ws_sqlite io) (ti_release t) (bc_account ctx)
       (persist_turn io ctx t turn ''error'' (Some code) (Some message) usage_default d)"

definition start_turn ::
  "ws_io \<Rightarrow> bridge_context \<Rightarrow> turn_io \<Rightarrow> parsed_request \<Rightarrow> selection_reason \<Rightarrow> db \<Rightarrow> active_turn app_result \<times> db" where
  "start_turn io ctx t request reason d =
     (case acquire_account_if_available (ws_sqlite io) (ti_acquire t) (bc_account ctx) d of
        (False, d') \<Rightarrow> (Inl (Unavailable ''selected WebSocket account is no longer available; reconnect required''), d')
      | (True, d') \<Rightarrow> (Inr \<lparr>tn_id = pq_id request, tn_model = pq_model request, tn_reason = reason\<rparr>, d'))"

section \<open>The state of a bridge\<close>

text \<open>What a bridge does, in order: what it writes to its sockets and the turns it accounts for.\<close>

datatype bridge_effect =
    To_Upstream upstream_message
  | To_Client client_message
  | Turn_Started active_turn
  | Turn_Logged active_turn
  | Close_Upstream
  | Close_Client

record bridge =
  br_db :: db
  br_turn :: "active_turn option"
  br_reason :: "selection_reason option"
  br_effects :: "bridge_effect list"

abbreviation effect :: "bridge_effect \<Rightarrow> bridge \<Rightarrow> bridge" where
  "effect e st \<equiv> st\<lparr>br_effects := br_effects st @ [e]\<rparr>"

definition route_generation :: "bridge_context \<Rightarrow> int" where
  "route_generation ctx = (case bc_epoch ctx of None \<Rightarrow> 0 | Some e \<Rightarrow> ep_generation e)"

definition bridge_start :: "db \<Rightarrow> selection_reason \<Rightarrow> bridge" where
  "bridge_start d reason = \<lparr>br_db = d, br_turn = None, br_reason = Some reason, br_effects = []\<rparr>"

text \<open>The registration of the connection: the root and the keys it is found by.\<close>

definition register_connection :: "bridge_context \<Rightarrow> registry \<Rightarrow> 64 word option \<times> registry" where
  "register_connection ctx reg =
     (case bc_keys ctx of
        [] \<Rightarrow> (None, reg)
      | primary # _ \<Rightarrow>
          (let rt = (case bc_epoch ctx of Some e \<Rightarrow> ep_root e | None \<Rightarrow> key_hash primary);
               (token, reg') = register rt (set (map key_hash (bc_keys ctx))) (bc_account ctx) (route_generation ctx) reg
           in (Some token, reg')))"

section \<open>One round of the loop\<close>

text \<open>
  The event that wins the round.  A signal of a generation that is not newer does not end the wait, a
  deadline exists only while a turn is active.  A write succeeds, fails or times out.
\<close>

datatype write_result = Written | Write_Failed | Write_Timed_Out

datatype bridge_event =
    Shutdown_Requested
  | Reroute_Signal int
  | Turn_Deadline
  | Client_Received client_message write_result turn_io
  | Client_Closed
  | Client_Idle
  | Client_Failed
  | Upstream_Received upstream_message write_result turn_io
  | Upstream_Closed
  | Upstream_Idle
  | Upstream_Failed

text \<open>Why the loop ended: the message, and whether the daemon restarts or the session was rerouted.\<close>

record bridge_exit =
  ex_message :: string
  ex_restart :: bool
  ex_reroute :: bool

abbreviation plain_exit :: "string \<Rightarrow> bridge_exit option" where
  "plain_exit m \<equiv> Some \<lparr>ex_message = m, ex_restart = False, ex_reroute = False\<rparr>"

definition start_request :: "ws_io \<Rightarrow> bridge_context \<Rightarrow> turn_io \<Rightarrow> parsed_request \<Rightarrow> bridge \<Rightarrow> bridge \<times> bridge_exit option" where
  "start_request io ctx t request st =
     (let st1 = (case br_turn st of
                   None \<Rightarrow> st
                 | Some previous \<Rightarrow>
                     effect (Turn_Logged previous) (st\<lparr>br_turn := None, br_db :=
                       finish_disconnected_turn io ctx t previous ''websocket_disconnected''
                         ''a new WebSocket request started before the previous request completed'' (br_db st)\<rparr>));
          reason = or_default (br_reason st1) WebsocketReuse;
          st2 = st1\<lparr>br_reason := None\<rparr>
      in case start_turn io ctx t request reason (br_db st2) of
           (Inl _, d) \<Rightarrow> (st2\<lparr>br_db := d\<rparr>, plain_exit ''local request accounting failed'')
         | (Inr turn, d) \<Rightarrow>
             (let st3 = effect (Turn_Started turn) (st2\<lparr>br_db := d, br_turn := Some turn\<rparr>)
              in if bc_keys ctx = [] then (st3, None)
                 else case bind_affinities_at_epoch (ws_sqlite io) (ti_bind t) (bc_keys ctx) (bc_account ctx) (bc_epoch ctx) d of
                   (Inr True, d') \<Rightarrow> (st3\<lparr>br_db := d'\<rparr>, None)
                 | (Inr False, d') \<Rightarrow> (st3\<lparr>br_db := d'\<rparr>,
                     Some \<lparr>ex_message = ''session route generation changed'', ex_restart = False, ex_reroute = True\<rparr>)
                 | (Inl _, d') \<Rightarrow> (st3\<lparr>br_db := d'\<rparr>, plain_exit ''local session route check failed'')))"

definition is_client_close :: "client_message \<Rightarrow> bool" where
  "is_client_close m = (case m of C_Close _ \<Rightarrow> True | _ \<Rightarrow> False)"

definition client_request :: "ws_io \<Rightarrow> client_message \<Rightarrow> parsed_request option" where
  "client_request io m = (case m of C_Text text \<Rightarrow> parse_response_create (ws_json io) (ws_fresh_id io) text | _ \<Rightarrow> None)"

definition client_round ::
  "ws_io \<Rightarrow> bridge_context \<Rightarrow> client_message \<Rightarrow> write_result \<Rightarrow> turn_io \<Rightarrow> bridge \<Rightarrow> bridge \<times> bridge_exit option" where
  "client_round io ctx m written t st =
     (case (case client_request io m of None \<Rightarrow> (st, None) | Some request \<Rightarrow> start_request io ctx t request st) of
        (st1, Some ended) \<Rightarrow> (st1, Some ended)
      | (st1, None) \<Rightarrow>
          (case written of
             Write_Failed \<Rightarrow> (st1, plain_exit ''upstream WebSocket write failed before a terminal response'')
           | Write_Timed_Out \<Rightarrow> (st1, plain_exit ''upstream WebSocket write timeout before a terminal response'')
           | Written \<Rightarrow>
               (effect (To_Upstream (to_upstream_message m)) st1,
                if is_client_close m then plain_exit ''Codex closed the WebSocket before a terminal response'' else None)))"

definition is_upstream_close :: "upstream_message \<Rightarrow> bool" where
  "is_upstream_close m = (case m of U_Close _ \<Rightarrow> True | _ \<Rightarrow> False)"

text \<open>A terminal event in a text of the upstream.\<close>

definition upstream_terminal :: "ws_io \<Rightarrow> upstream_message \<Rightarrow> json option" where
  "upstream_terminal io m =
     (case m of
        U_Text text \<Rightarrow> Option.bind (ws_json io text) (\<lambda>event. if terminal_event event \<noteq> None then Some event else None)
      | _ \<Rightarrow> None)"

definition upstream_round ::
  "ws_io \<Rightarrow> bridge_context \<Rightarrow> upstream_message \<Rightarrow> write_result \<Rightarrow> turn_io \<Rightarrow> bridge \<Rightarrow> bridge \<times> bridge_exit option" where
  "upstream_round io ctx m written t st =
     (let (st1, reconnect) =
            (case upstream_terminal io m of
               None \<Rightarrow> (st, False)
             | Some event \<Rightarrow>
                 (case br_turn st of
                    None \<Rightarrow> st
                  | Some turn \<Rightarrow> effect (Turn_Logged turn)
                      (st\<lparr>br_turn := None, br_db := finish_turn io ctx t turn event (br_db st)\<rparr>),
                  should_retry_on_new_connection event))
      in if reconnect then (st1, plain_exit ''upstream requested a retry on a new WebSocket connection'')
         else
           (let closes = (if is_upstream_close m then plain_exit ''upstream WebSocket closed before a terminal response'' else None)
            in case to_client_message m of
                 None \<Rightarrow> (st1, closes)
               | Some message \<Rightarrow>
                   (case written of
                      Write_Failed \<Rightarrow> (st1, plain_exit ''Codex WebSocket write failed before a terminal response'')
                    | Write_Timed_Out \<Rightarrow> (st1, plain_exit ''Codex WebSocket write timeout before a terminal response'')
                    | Written \<Rightarrow> (effect (To_Client message) st1, closes))))"

fun bridge_round :: "ws_io \<Rightarrow> bridge_context \<Rightarrow> bridge_event \<Rightarrow> bridge \<Rightarrow> bridge \<times> bridge_exit option" where
  "bridge_round io ctx Shutdown_Requested st =
     (st, Some \<lparr>ex_message = ''local service restart requested'', ex_restart = True, ex_reroute = False\<rparr>)"
| "bridge_round io ctx (Reroute_Signal gen) st =
     (st, if bc_keys ctx \<noteq> [] \<and> gen > route_generation ctx
          then Some \<lparr>ex_message = ''targeted session reroute requested'', ex_restart = False, ex_reroute = True\<rparr> else None)"
| "bridge_round io ctx Turn_Deadline st =
     (st, if br_turn st \<noteq> None then plain_exit ''WebSocket request exceeded the configured request budget'' else None)"
| "bridge_round io ctx (Client_Received m written t) st = client_round io ctx m written t st"
| "bridge_round io ctx Client_Closed st = (st, plain_exit ''Codex closed the WebSocket before a terminal response'')"
| "bridge_round io ctx Client_Idle st = (st, plain_exit ''Codex WebSocket idle timeout before a terminal response'')"
| "bridge_round io ctx Client_Failed st = (st, plain_exit ''Codex WebSocket read failed before a terminal response'')"
| "bridge_round io ctx (Upstream_Received m written t) st = upstream_round io ctx m written t st"
| "bridge_round io ctx Upstream_Closed st = (st, plain_exit ''upstream WebSocket closed before a terminal response'')"
| "bridge_round io ctx Upstream_Idle st = (st, plain_exit ''upstream WebSocket idle timeout before a terminal response'')"
| "bridge_round io ctx Upstream_Failed st = (st, plain_exit ''upstream WebSocket read failed before a terminal response'')"

fun bridge_loop :: "ws_io \<Rightarrow> bridge_context \<Rightarrow> bridge_event list \<Rightarrow> bridge \<Rightarrow> bridge \<times> bridge_exit option" where
  "bridge_loop io ctx [] st = (st, None)"
| "bridge_loop io ctx (e # es) st =
     (case bridge_round io ctx e st of
        (st', None) \<Rightarrow> bridge_loop io ctx es st'
      | (st', Some ended) \<Rightarrow> (st', Some ended))"

section \<open>The end of a bridge\<close>

text \<open>\<open>t\<close> is the round's last; the writes to the sockets are attempts, whose outcome is ignored.\<close>

definition close_bridge :: "ws_io \<Rightarrow> bridge_context \<Rightarrow> turn_io \<Rightarrow> bridge_exit \<Rightarrow> bridge \<Rightarrow> bridge" where
  "close_bridge io ctx t ended st =
     (let st1 = (if ex_restart ended \<or> ex_reroute ended
                 then effect (To_Client (C_Close (Some (1012,
                        if ex_reroute ended then ''session reroute'' else ''service restart'')))) st
                 else st);
          st2 = (if ex_reroute ended then effect Close_Upstream st1 else st1);
          code = (if ex_reroute ended then ''session_reroute''
                  else if ex_restart ended then ''service_restart'' else ''websocket_disconnected'');
          st3 = (case br_turn st2 of
                   None \<Rightarrow> st2
                 | Some turn \<Rightarrow> effect (Turn_Logged turn) (st2\<lparr>br_turn := None, br_db :=
                     finish_disconnected_turn io ctx t turn code (ex_message ended) (br_db st2)\<rparr>))
      in if ex_reroute ended then st3
         else if ex_restart ended then effect Close_Upstream st3
         else effect Close_Client (effect Close_Upstream st3))"

definition bridge :: "ws_io \<Rightarrow> bridge_context \<Rightarrow> selection_reason \<Rightarrow> turn_io \<Rightarrow> bridge_event list \<Rightarrow> db \<Rightarrow> bridge option" where
  "bridge io ctx reason t events d =
     (case bridge_loop io ctx events (bridge_start d reason) of
        (_, None) \<Rightarrow> None
      | (st, Some ended) \<Rightarrow> Some (close_bridge io ctx t ended st))"

section \<open>What the store's operations leave alone\<close>

definition same_log :: "db \<Rightarrow> db \<Rightarrow> bool" where
  "same_log d d' \<longleftrightarrow> account_ids d' = account_ids d \<and> t_logs d' = t_logs d"

lemma same_log_refl [simp]: "same_log d d"
  by (simp add: same_log_def)

lemma same_log_trans: "same_log a b \<Longrightarrow> same_log b c \<Longrightarrow> same_log a c"
  by (simp add: same_log_def)

lemma bind_same_log: "store_ok d \<Longrightarrow> same_log d (snd (bind_affinities_at_epoch q now ks aid ep d))"
  using bind_same_base [of d q now ks aid ep] by (simp add: same_base_def same_log_def account_ids_def)

lemma cooldown_same_log: "same_log d (snd (cooldown_account q now aid n m d))"
  by (auto simp: cooldown_account_def ensure_runtime_row_def same_log_def account_ids_def split: prod.splits sum.splits if_splits)

lemma mark_same_log: "same_log d (mark_auth_failed q now aid m d)"
  by (simp add: mark_auth_failed_def same_log_def account_ids_def image_update)

lemma acquire_same_log: "acquire_account_if_available q now aid d = (ok, d') \<Longrightarrow> same_log d d'"
  by (auto simp: acquire_account_if_available_def same_log_def account_ids_def split: if_splits)

lemma release_same_log: "same_log d (release_account q now aid d)"
  by (simp add: release_account_def release_account_inner_def same_log_def account_ids_def)

text \<open>One row was added to the log: that of the turn.\<close>

definition turn_recorded :: "uuid \<Rightarrow> active_turn \<Rightarrow> db \<Rightarrow> db \<Rightarrow> bool" where
  "turn_recorded aid turn d d' \<longleftrightarrow> account_ids d' = account_ids d
     \<and> (\<exists>l. t_logs d' = t_logs d @ [l] \<and> log_request_id l = tn_id turn \<and> log_account l = Some aid)"

lemma turn_recorded_before: "same_log d d1 \<Longrightarrow> turn_recorded aid turn d1 d' \<Longrightarrow> turn_recorded aid turn d d'"
  by (simp add: turn_recorded_def same_log_def)

lemma turn_recorded_after: "turn_recorded aid turn d d1 \<Longrightarrow> same_log d1 d' \<Longrightarrow> turn_recorded aid turn d d'"
  by (simp add: turn_recorded_def same_log_def)

lemma persist_records:
  "bc_account ctx \<in> account_ids d \<Longrightarrow> turn_recorded (bc_account ctx) turn d (persist_turn io ctx t turn status code m u d)"
  by (simp add: turn_recorded_def persist_turn_def log_request_def insert_request_log_def log_entry_def Let_def
      account_exists_iff new_log_row_def) (simp add: account_ids_def)

lemma persist_quiet: "quiet d (persist_turn io ctx t turn status code m u d)"
  by (simp add: persist_turn_def log_request_quiet)

section \<open>The books of a bridge\<close>

text \<open>A turn holds one lease; when it ends the lease is given back and its row is in the log.\<close>

definition ends_turn :: "bridge_context \<Rightarrow> active_turn \<Rightarrow> db \<Rightarrow> db \<Rightarrow> bool" where
  "ends_turn ctx turn d d' \<longleftrightarrow>
     (\<forall>M. leases_ok d (add_mset (bc_account ctx) M) \<longrightarrow> bc_account ctx \<in> account_ids d \<longrightarrow>
        leases_ok d' M \<and> turn_recorded (bc_account ctx) turn d d')"

lemma ends_turnI:
  assumes "quiet d d1" "store_ok d \<Longrightarrow> same_log d d1"
  shows "ends_turn ctx turn d (release_account q now (bc_account ctx) (persist_turn io ctx t turn status code m u d1))"
  unfolding ends_turn_def
proof (intro allI impI)
  fix M assume ok: "leases_ok d (add_mset (bc_account ctx) M)" and acct: "bc_account ctx \<in> account_ids d"
  let ?p = "persist_turn io ctx t turn status code m u d1"
  have same: "same_log d d1" using assms(2) ok by (simp add: leases_ok_def)
  have "leases_ok ?p (add_mset (bc_account ctx) M)"
    using quiet_leases [OF persist_quiet] quiet_leases [OF assms(1) ok] by blast
  then have "leases_ok (release_account q now (bc_account ctx) ?p) M" by (rule leases_release)
  moreover have "turn_recorded (bc_account ctx) turn d1 ?p"
    using persist_records acct same by (simp add: same_log_def)
  ultimately show "leases_ok (release_account q now (bc_account ctx) ?p) M
      \<and> turn_recorded (bc_account ctx) turn d (release_account q now (bc_account ctx) ?p)"
    using turn_recorded_after [OF turn_recorded_before [OF same] release_same_log] by blast
qed

lemma ends_disconnected: "ends_turn ctx turn d (finish_disconnected_turn io ctx t turn code m d)"
  unfolding finish_disconnected_turn_def by (rule ends_turnI) simp_all

lemma terminal_state_ok:
  "quiet d (apply_terminal_error_state io ctx t event m d) \<and> same_log d (apply_terminal_error_state io ctx t event m d)"
  by (auto simp: apply_terminal_error_state_def quiet_intros cooldown_same_log mark_same_log split: option.split)

lemma ends_finished: "ends_turn ctx turn d (finish_turn io ctx t turn event d)"
proof -
  let ?rid = "Option.bind (or_else (pointer [''response'', ''id''] event) (jget ''id'' event)) as_str"
  let ?d1 = "case ?rid of None \<Rightarrow> d | Some rid \<Rightarrow> ws_bind_response io ctx t rid d"
  have q1: "quiet d ?d1" by (simp add: ws_bind_response_def quiet_intros split: option.split)
  have s1: "same_log d ?d1" if "store_ok d"
    using bind_same_log [OF that] by (simp add: ws_bind_response_def split: option.split)
  obtain status code where verdict: "terminal_outcome (or_default (terminal_event event) SseError) = (status, code)" by fastforce
  show ?thesis
    unfolding finish_turn_def Let_def verdict prod.case
    using q1 s1 terminal_state_ok by (intro ends_turnI) (auto intro: quiet_trans same_log_trans)
qed

definition started_turns :: "bridge_effect list \<Rightarrow> active_turn list" where
  "started_turns = List.map_filter (\<lambda>e. case e of Turn_Started t \<Rightarrow> Some t | _ \<Rightarrow> None)"

definition logged_turns :: "bridge_effect list \<Rightarrow> active_turn list" where
  "logged_turns = List.map_filter (\<lambda>e. case e of Turn_Logged t \<Rightarrow> Some t | _ \<Rightarrow> None)"

lemma turns_append [simp]:
  "started_turns (xs @ [e]) = started_turns xs @ (case e of Turn_Started t \<Rightarrow> [t] | _ \<Rightarrow> [])"
  "logged_turns (xs @ [e]) = logged_turns xs @ (case e of Turn_Logged t \<Rightarrow> [t] | _ \<Rightarrow> [])"
  "started_turns [] = []" "logged_turns [] = []"
  by (cases e; simp add: started_turns_def logged_turns_def map_filter_def)+

definition active_turns :: "bridge \<Rightarrow> active_turn list" where
  "active_turns st = (case br_turn st of None \<Rightarrow> [] | Some t \<Rightarrow> [t])"

definition bridge_ok :: "bridge_context \<Rightarrow> uuid multiset \<Rightarrow> db \<Rightarrow> bridge \<Rightarrow> bool" where
  "bridge_ok ctx M d0 st \<longleftrightarrow>
     leases_ok (br_db st) (mset (map (\<lambda>_. bc_account ctx) (active_turns st)) + M)
     \<and> bc_account ctx \<in> account_ids (br_db st)
     \<and> started_turns (br_effects st) = logged_turns (br_effects st) @ active_turns st
     \<and> (\<exists>rows. t_logs (br_db st) = t_logs d0 @ rows \<and> map log_request_id rows = map tn_id (logged_turns (br_effects st))
          \<and> (\<forall>l \<in> set rows. log_account l = Some (bc_account ctx)))"

lemma bridge_ok_start:
  "leases_ok d M \<Longrightarrow> bc_account ctx \<in> account_ids d \<Longrightarrow> bridge_ok ctx M d (bridge_start d reason)"
  by (simp add: bridge_ok_def bridge_start_def active_turns_def)

lemma bridge_ok_db:
  assumes "bridge_ok ctx M d0 st" "quiet (br_db st) d'" "same_log (br_db st) d'"
  shows "bridge_ok ctx M d0 (st\<lparr>br_db := d'\<rparr>)"
  using assms quiet_leases [OF assms(2)] by (simp add: bridge_ok_def same_log_def active_turns_def)

lemma bridge_ok_effect:
  assumes "bridge_ok ctx M d0 st" "\<And>t. e \<noteq> Turn_Started t" "\<And>t. e \<noteq> Turn_Logged t"
  shows "bridge_ok ctx M d0 (effect e st)"
  using assms by (simp add: bridge_ok_def active_turns_def split: bridge_effect.split)

lemma bridge_ok_reason: "bridge_ok ctx M d0 (st\<lparr>br_reason := r\<rparr>) = bridge_ok ctx M d0 st"
  by (simp add: bridge_ok_def active_turns_def)

lemma bridge_ok_end_turn:
  assumes "bridge_ok ctx M d0 st" "br_turn st = Some turn" "ends_turn ctx turn (br_db st) d'"
  shows "bridge_ok ctx M d0 (effect (Turn_Logged turn) (st\<lparr>br_turn := None, br_db := d'\<rparr>))"
proof -
  have "leases_ok (br_db st) (add_mset (bc_account ctx) M)" "bc_account ctx \<in> account_ids (br_db st)"
    using assms(1,2) by (simp_all add: bridge_ok_def active_turns_def)
  with assms(3) have "leases_ok d' M" "turn_recorded (bc_account ctx) turn (br_db st) d'" by (simp_all add: ends_turn_def)
  moreover obtain rows where "t_logs (br_db st) = t_logs d0 @ rows"
    "map log_request_id rows = map tn_id (logged_turns (br_effects st))" "\<forall>l \<in> set rows. log_account l = Some (bc_account ctx)"
    using assms(1) by (auto simp: bridge_ok_def)
  ultimately show ?thesis using assms(1,2)
    unfolding bridge_ok_def turn_recorded_def by (auto simp: active_turns_def)
qed

lemma bridge_ok_start_turn:
  assumes "bridge_ok ctx M d0 st" "br_turn st = None" "start_turn io ctx t request reason (br_db st) = (res, d)"
  shows "case res of Inl _ \<Rightarrow> bridge_ok ctx M d0 (st\<lparr>br_db := d\<rparr>)
     | Inr turn \<Rightarrow> bridge_ok ctx M d0 (effect (Turn_Started turn) (st\<lparr>br_db := d, br_turn := Some turn\<rparr>))"
proof -
  obtain ok d1 where a: "acquire_account_if_available (ws_sqlite io) (ti_acquire t) (bc_account ctx) (br_db st) = (ok, d1)"
    by fastforce
  have "leases_ok (br_db st) M" using assms(1,2) by (simp add: bridge_ok_def active_turns_def)
  from acquire_leases [OF this a] acquire_same_log [OF a] a assms show ?thesis
    by (auto simp: start_turn_def bridge_ok_def active_turns_def same_log_def split: bool.splits)
qed

lemma start_request_ok:
  assumes "bridge_ok ctx M d0 st" "start_request io ctx t request st = (st', ended)"
  shows "bridge_ok ctx M d0 st'"
proof -
  let ?st1 = "case br_turn st of None \<Rightarrow> st
     | Some previous \<Rightarrow> effect (Turn_Logged previous) (st\<lparr>br_turn := None, br_db :=
                       finish_disconnected_turn io ctx t previous ''websocket_disconnected''
                         ''a new WebSocket request started before the previous request completed'' (br_db st)\<rparr>)"
  let ?st2 = "?st1\<lparr>br_reason := None\<rparr>"
  let ?reason = "or_default (br_reason ?st1) WebsocketReuse"
  have ok1: "bridge_ok ctx M d0 ?st2" "br_turn ?st2 = None"
    using assms(1) bridge_ok_end_turn [OF assms(1) _ ends_disconnected]
    by (auto simp: bridge_ok_reason split: option.split)
  obtain res d where s: "start_turn io ctx t request ?reason (br_db ?st2) = (res, d)" by fastforce
  note started = bridge_ok_start_turn [OF ok1 s]
  show ?thesis
  proof (cases res)
    case (Inl e)
    with assms(2) started s have "st' = ?st2\<lparr>br_db := d\<rparr>" by (simp add: start_request_def Let_def)
    with started Inl show ?thesis by simp
  next
    case (Inr turn)
    let ?st3 = "effect (Turn_Started turn) (?st2\<lparr>br_db := d, br_turn := Some turn\<rparr>)"
    let ?bind = "bind_affinities_at_epoch (ws_sqlite io) (ti_bind t) (bc_keys ctx) (bc_account ctx) (bc_epoch ctx) d"
    have ok3: "bridge_ok ctx M d0 ?st3" using started Inr by simp
    then have "store_ok d" by (simp add: bridge_ok_def leases_ok_def)
    from bridge_ok_db [OF ok3, of "snd ?bind"] bind_same_log [OF this] quiet_bind
    have ok4: "bridge_ok ctx M d0 (?st3\<lparr>br_db := snd ?bind\<rparr>)" by simp
    have "st' = ?st3 \<or> st' = ?st3\<lparr>br_db := snd ?bind\<rparr>"
      using assms(2) s Inr unfolding start_request_def Let_def
      by (cases ?bind) (auto split: if_splits sum.splits bool.splits)
    with ok3 ok4 show ?thesis by auto
  qed
qed

lemma client_round_ok:
  assumes "bridge_ok ctx M d0 st" "client_round io ctx m written t st = (st', ended)"
  shows "bridge_ok ctx M d0 st'"
proof -
  obtain st1 ended1 where r: "(case client_request io m of None \<Rightarrow> (st, None)
      | Some request \<Rightarrow> start_request io ctx t request st) = (st1, ended1)" by fastforce
  then have "bridge_ok ctx M d0 st1" using assms(1) start_request_ok by (auto split: option.splits)
  moreover have "st' = st1 \<or> st' = effect (To_Upstream (to_upstream_message m)) st1"
    using assms(2) r by (auto simp: client_round_def split: option.splits write_result.splits)
  ultimately show ?thesis using bridge_ok_effect by blast
qed

lemma upstream_round_ok:
  assumes "bridge_ok ctx M d0 st" "upstream_round io ctx m written t st = (st', ended)"
  shows "bridge_ok ctx M d0 st'"
proof -
  define st1 where "st1 = (case upstream_terminal io m of None \<Rightarrow> st
     | Some event \<Rightarrow> (case br_turn st of None \<Rightarrow> st
         | Some turn \<Rightarrow> effect (Turn_Logged turn) (st\<lparr>br_turn := None, br_db := finish_turn io ctx t turn event (br_db st)\<rparr>)))"
  have "bridge_ok ctx M d0 st1"
    using assms(1) bridge_ok_end_turn [OF assms(1) _ ends_finished] by (simp add: st1_def split: option.split)
  moreover have "st' = st1 \<or> (\<exists>message. st' = effect (To_Client message) st1)"
    using assms(2) by (auto simp: upstream_round_def st1_def Let_def split: option.splits write_result.splits if_splits)
  ultimately show ?thesis using bridge_ok_effect by blast
qed

lemma bridge_round_ok: "bridge_ok ctx M d0 st \<Longrightarrow> bridge_round io ctx e st = (st', ended) \<Longrightarrow> bridge_ok ctx M d0 st'"
  by (cases e) (auto dest: client_round_ok upstream_round_ok)

lemma bridge_loop_ok: "bridge_ok ctx M d0 st \<Longrightarrow> bridge_loop io ctx es st = (st', ended) \<Longrightarrow> bridge_ok ctx M d0 st'"
proof (induction es arbitrary: st)
  case (Cons e es)
  obtain st1 ended1 where r: "bridge_round io ctx e st = (st1, ended1)" by fastforce
  from bridge_round_ok [OF Cons.prems(1) r] Cons.IH Cons.prems(2) r show ?case by (cases ended1) auto
qed simp

lemma close_bridge_ok:
  assumes "bridge_ok ctx M d0 st"
  shows "bridge_ok ctx M d0 (close_bridge io ctx t ended st) \<and> br_turn (close_bridge io ctx t ended st) = None"
proof -
  define st1 where "st1 = (if ex_restart ended \<or> ex_reroute ended
              then effect (To_Client (C_Close (Some (1012,
                     if ex_reroute ended then ''session reroute'' else ''service restart'')))) st else st)"
  define st2 where "st2 = (if ex_reroute ended then effect Close_Upstream st1 else st1)"
  have ok1: "bridge_ok ctx M d0 st1"
    using assms bridge_ok_effect [OF assms, of "To_Client message" for message] by (simp add: st1_def)
  then have ok2: "bridge_ok ctx M d0 st2"
    using bridge_ok_effect [OF ok1, of Close_Upstream] by (simp add: st2_def)
  define st3 where "st3 = (case br_turn st2 of None \<Rightarrow> st2
     | Some turn \<Rightarrow> effect (Turn_Logged turn) (st2\<lparr>br_turn := None, br_db :=
         finish_disconnected_turn io ctx t turn (if ex_reroute ended then ''session_reroute''
                  else if ex_restart ended then ''service_restart'' else ''websocket_disconnected'') (ex_message ended) (br_db st2)\<rparr>))"
  have ok3: "bridge_ok ctx M d0 st3 \<and> br_turn st3 = None"
    using ok2 bridge_ok_end_turn [OF ok2 _ ends_disconnected] unfolding st3_def by (cases "br_turn st2") simp_all
  have "close_bridge io ctx t ended st = (if ex_reroute ended then st3
      else if ex_restart ended then effect Close_Upstream st3 else effect Close_Client (effect Close_Upstream st3))"
    unfolding close_bridge_def Let_def st1_def [symmetric] st2_def [symmetric] st3_def [symmetric] ..
  moreover have ok4: "bridge_ok ctx M d0 (effect Close_Upstream st3)" using bridge_ok_effect ok3 by blast
  moreover have "bridge_ok ctx M d0 (effect Close_Client (effect Close_Upstream st3))" using bridge_ok_effect [OF ok4] by blast
  ultimately show ?thesis using ok3 by simp
qed

text \<open>
  C6: whatever happens on a bridge, its books balance when it has closed: every turn that was
  started is logged exactly once, under its own request id and in the order of the turns, no other
  row was added, and no lease is left.
\<close>

theorem bridge_books_balance:
  assumes "leases_ok d M" "bc_account ctx \<in> account_ids d" "bridge io ctx reason t events d = Some st"
  shows "leases_ok (br_db st) M
     \<and> logged_turns (br_effects st) = started_turns (br_effects st)
     \<and> (\<exists>rows. t_logs (br_db st) = t_logs d @ rows
          \<and> map log_request_id rows = map tn_id (started_turns (br_effects st))
          \<and> (\<forall>l \<in> set rows. log_account l = Some (bc_account ctx)))"
proof -
  obtain st0 ended where l: "bridge_loop io ctx events (bridge_start d reason) = (st0, Some ended)"
    "st = close_bridge io ctx t ended st0"
    using assms(3) by (auto simp: bridge_def split: prod.splits option.splits)
  from close_bridge_ok [OF bridge_loop_ok [OF bridge_ok_start [OF assms(1,2)] l(1)]] l(2)
  have "bridge_ok ctx M d st" "br_turn st = None" by auto
  then show ?thesis by (simp add: bridge_ok_def active_turns_def)
qed

end
