(* ===== verification/Ws_Properties.thy ===== *)
theory Ws_Properties
  imports Ws_Bridge Session_Properties "HOL-Library.Sublist"
begin

text \<open>
  What a bridge promises to its client: messages pass in order and unchanged, a request is only sent
  to the upstream while its session still belongs there, and the pieces of the protocol that are
  translated keep their meaning.
\<close>

section \<open>Messages pass in order\<close>

definition sent_upstream :: "bridge_effect list \<Rightarrow> upstream_message list" where
  "sent_upstream = List.map_filter (\<lambda>e. case e of To_Upstream m \<Rightarrow> Some m | _ \<Rightarrow> None)"

definition sent_to_client :: "bridge_effect list \<Rightarrow> client_message list" where
  "sent_to_client = List.map_filter (\<lambda>e. case e of To_Client m \<Rightarrow> Some m | _ \<Rightarrow> None)"

lemma sent_append [simp]:
  "sent_upstream (xs @ ys) = sent_upstream xs @ sent_upstream ys" "sent_to_client (xs @ ys) = sent_to_client xs @ sent_to_client ys"
  "sent_upstream [] = []" "sent_to_client [] = []"
  "sent_upstream (e # xs) = (case e of To_Upstream m \<Rightarrow> [m] | _ \<Rightarrow> []) @ sent_upstream xs"
  "sent_to_client (e # xs) = (case e of To_Client m \<Rightarrow> [m] | _ \<Rightarrow> []) @ sent_to_client xs"
  by (cases e; simp add: sent_upstream_def sent_to_client_def map_filter_def)+

definition received_from_client :: "bridge_event list \<Rightarrow> client_message list" where
  "received_from_client = List.map_filter (\<lambda>e. case e of Client_Received m _ _ \<Rightarrow> Some m | _ \<Rightarrow> None)"

definition received_from_upstream :: "bridge_event list \<Rightarrow> upstream_message list" where
  "received_from_upstream = List.map_filter (\<lambda>e. case e of Upstream_Received m _ _ \<Rightarrow> Some m | _ \<Rightarrow> None)"

lemma received_Cons [simp]:
  "received_from_client (e # es) = (case e of Client_Received m _ _ \<Rightarrow> [m] | _ \<Rightarrow> []) @ received_from_client es"
  "received_from_upstream (e # es) = (case e of Upstream_Received m _ _ \<Rightarrow> [m] | _ \<Rightarrow> []) @ received_from_upstream es"
  "received_from_client [] = []" "received_from_upstream [] = []"
  by (cases e; simp add: received_from_client_def received_from_upstream_def map_filter_def)+

lemma start_request_sends:
  assumes "start_request io ctx t request st = (st', ended)"
  shows "sent_upstream (br_effects st') = sent_upstream (br_effects st)
     \<and> sent_to_client (br_effects st') = sent_to_client (br_effects st)"
  using assms
  by (auto simp: start_request_def Let_def split: option.splits prod.splits sum.splits if_splits bool.splits)

lemma client_round_sends:
  assumes "client_round io ctx m written t st = (st', ended)"
  shows "sent_to_client (br_effects st') = sent_to_client (br_effects st)
     \<and> (sent_upstream (br_effects st') = sent_upstream (br_effects st) @ [to_upstream_message m]
        \<or> ended \<noteq> None \<and> sent_upstream (br_effects st') = sent_upstream (br_effects st))"
proof -
  obtain st1 ended1 where r: "(case client_request io m of None \<Rightarrow> (st, None)
      | Some request \<Rightarrow> start_request io ctx t request st) = (st1, ended1)" by fastforce
  then have "sent_upstream (br_effects st1) = sent_upstream (br_effects st)
     \<and> sent_to_client (br_effects st1) = sent_to_client (br_effects st)"
    using start_request_sends by (auto split: option.splits)
  with assms r show ?thesis
    by (auto simp: client_round_def split: option.splits write_result.splits)
qed

lemma upstream_round_sends:
  assumes "upstream_round io ctx m written t st = (st', ended)"
  shows "sent_upstream (br_effects st') = sent_upstream (br_effects st)
     \<and> (\<exists>ms. sent_to_client (br_effects st') = sent_to_client (br_effects st) @ ms
          \<and> (ms = List.map_filter to_client_message [m] \<or> ended \<noteq> None \<and> ms = []))"
  using assms
  by (auto simp: upstream_round_def Let_def map_filter_def
      split: option.splits prod.splits write_result.splits if_splits)

lemma loop_sends:
  assumes "bridge_loop io ctx es st = (st', ended)"
  shows "\<exists>up down. sent_upstream (br_effects st') = sent_upstream (br_effects st) @ up
     \<and> sent_to_client (br_effects st') = sent_to_client (br_effects st) @ down
     \<and> prefix up (map to_upstream_message (received_from_client es))
     \<and> prefix down (List.map_filter to_client_message (received_from_upstream es))
     \<and> (ended = None \<longrightarrow> up = map to_upstream_message (received_from_client es)
          \<and> down = List.map_filter to_client_message (received_from_upstream es))"
  using assms
proof (induction es arbitrary: st)
  case Nil
  then show ?case by (simp add: map_filter_def)
next
  case (Cons e es)
  obtain st1 ended1 where r: "bridge_round io ctx e st = (st1, ended1)" by fastforce
  let ?up = "case e of Client_Received m _ _ \<Rightarrow> [to_upstream_message m] | _ \<Rightarrow> []"
  let ?down = "case e of Upstream_Received m _ _ \<Rightarrow> List.map_filter to_client_message [m] | _ \<Rightarrow> []"
  have "(sent_upstream (br_effects st1) = sent_upstream (br_effects st) @ ?up
       \<or> ended1 \<noteq> None \<and> sent_upstream (br_effects st1) = sent_upstream (br_effects st))
     \<and> (sent_to_client (br_effects st1) = sent_to_client (br_effects st) @ ?down
       \<or> ended1 \<noteq> None \<and> sent_to_client (br_effects st1) = sent_to_client (br_effects st))"
    using r client_round_sends upstream_round_sends by (cases e) fastforce+
  then obtain up1 down1 where one: "sent_upstream (br_effects st1) = sent_upstream (br_effects st) @ up1"
      "sent_to_client (br_effects st1) = sent_to_client (br_effects st) @ down1"
      "up1 = ?up \<or> ended1 \<noteq> None \<and> up1 = []" "down1 = ?down \<or> ended1 \<noteq> None \<and> down1 = []" by auto
  have all: "map to_upstream_message (received_from_client (e # es)) = ?up @ map to_upstream_message (received_from_client es)"
    "List.map_filter to_client_message (received_from_upstream (e # es))
       = ?down @ List.map_filter to_client_message (received_from_upstream es)"
    by (cases e; simp add: map_filter_def)+
  show ?case
  proof (cases ended1)
    case None
    with Cons.prems r have "bridge_loop io ctx es st1 = (st', ended)" by simp
    from Cons.IH [OF this] one None show ?thesis unfolding all by auto
  next
    case (Some x)
    with Cons.prems r have "st' = st1" "ended = Some x" by auto
    with one show ?thesis unfolding all by auto
  qed
qed


section \<open>A session that has moved\<close>

definition same_routes :: "db \<Rightarrow> db \<Rightarrow> bool" where
  "same_routes d d' \<longleftrightarrow> t_roots d' = t_roots d \<and> t_route_keys d' = t_route_keys d"

lemma same_routes_generation: "same_routes d d' \<Longrightarrow> key_generation d' h = key_generation d h"
  by (simp add: same_routes_def key_generation_def root_of_def generation_of_def [abs_def])

lemma disconnected_same_routes: "same_routes d (finish_disconnected_turn io ctx t turn code m d)"
  by (auto simp: same_routes_def finish_disconnected_turn_def persist_turn_def log_request_def insert_request_log_def
      release_account_def release_account_inner_def Let_def split: option.splits)

lemma start_turn_keeps:
  assumes "start_turn io ctx t request reason d = (res, d')"
  shows "same_routes d d' \<and> (store_ok d \<longrightarrow> store_ok d')"
  using assms store_ok_lease(2) [of d "(ws_sqlite io, ti_acquire t)" "bc_account ctx"]
  by (auto simp: start_turn_def acquire_account_if_available_def same_routes_def take_pinned_def split: if_splits)

lemma disconnected_store_ok:
  assumes "store_ok d"
  shows "store_ok (finish_disconnected_turn io ctx t turn code m d)"
  using assms persist_quiet store_ok_lease(3)
  unfolding finish_disconnected_turn_def release_is_give by (auto simp: quiet_def)


section \<open>Instances\<close>

definition sample_turn_io :: turn_io where
  "sample_turn_io = \<lparr>ti_log = 8, ti_release = 8, ti_acquire = 7, ti_bind = 7, ti_mark = 8, ti_elapsed_ms = 4\<rparr>"

definition sample_bridge :: bridge_context where
  "sample_bridge = \<lparr>bc_account = 7, bc_keys = [], bc_epoch = None\<rparr>"

definition sample_turn :: active_turn where
  "sample_turn = \<lparr>tn_id = ''r'', tn_model = None, tn_reason = Sticky\<rparr>"

lemma sample_create: "client_request sample_ws (C_Text x) = Some \<lparr>pq_id = ''r'', pq_model = None\<rparr>"
  by (simp add: client_request_def parse_response_create_def sample_ws_def jget_def request_id_pointers_def or_default_def)

lemma sample_acquirable: "acquirable sample_sqlite now 7 sample_db"
  unfolding acquirable_iff [OF sample_db_ok]
  by (rule eligibleI [OF _ _ sample_row_eligible]) (simp_all add: sample_db_fields imported_row_def)

lemma sample_first_round:
  "\<exists>d. bridge_round sample_ws sample_bridge (Client_Received (C_Text x) Written sample_turn_io) (bridge_start sample_db Sticky)
     = (\<lparr>br_db = d, br_turn = Some sample_turn, br_reason = None, br_effects = [Turn_Started sample_turn, To_Upstream (U_Text x)]\<rparr>, None)"
proof -
  have "ws_sqlite sample_ws = sample_sqlite" by (simp add: sample_ws_def sample_io_def)
  then have "\<exists>d. start_turn sample_ws sample_bridge sample_turn_io \<lparr>pq_id = ''r'', pq_model = None\<rparr> Sticky sample_db
      = (Inr sample_turn, d)"
    by (simp add: start_turn_def acquire_account_if_available_def sample_bridge_def sample_acquirable sample_turn_def)
  then show ?thesis
    by (auto simp: client_round_def sample_create start_request_def bridge_start_def or_default_def is_client_close_def
        Let_def) (simp add: sample_bridge_def)
qed


lemma bridge_books_balance_witness:
  "\<exists>st rows. bridge sample_ws sample_bridge Sticky sample_turn_io
       [Client_Received (C_Text ''x'') Written sample_turn_io, Client_Closed] sample_db = Some st
     \<and> leases_ok (br_db st) {#} \<and> started_turns (br_effects st) = [sample_turn]
     \<and> t_logs (br_db st) = t_logs sample_db @ rows \<and> map log_request_id rows = [''r'']"
proof -
  obtain d where one: "bridge_round sample_ws sample_bridge (Client_Received (C_Text ''x'') Written sample_turn_io)
      (bridge_start sample_db Sticky)
      = (\<lparr>br_db = d, br_turn = Some sample_turn, br_reason = None, br_effects = [Turn_Started sample_turn, To_Upstream (U_Text ''x'')]\<rparr>, None)"
    using sample_first_round by blast
  let ?events = "[Client_Received (C_Text ''x'') Written sample_turn_io, Client_Closed]"
  obtain st where b: "bridge sample_ws sample_bridge Sticky sample_turn_io ?events sample_db = Some st"
    and e: "started_turns (br_effects st) = [sample_turn]"
    by (simp add: bridge_def one close_bridge_def Let_def started_turns_def map_filter_def del: bridge_round.simps(4))
  have "bc_account sample_bridge \<in> account_ids sample_db"
    by (simp add: sample_bridge_def account_ids_def sample_db_fields imported_row_def)
  from bridge_books_balance [OF sample_leases this b] e b show ?thesis by (auto simp: sample_turn_def)
qed

definition moved_bridge :: bridge_context where
  "moved_bridge = \<lparr>bc_account = 7, bc_keys = [sample_key],
     bc_epoch = Some \<lparr>ep_root = sample_hash, ep_generation = 0, ep_selection_key = sample_hash\<rparr>\<rparr>"

lemma moved_store_ok: "store_ok moved_sample"
proof -
  have "quiet sample_db (session_step sample_sqlite (ApplyAction 6 6 settings_default 60 sample_move {7}) sample_db)"
    by (rule quiet_session)
  with sample_leases show ?thesis by (simp add: quiet_def leases_ok_def sample_apply)
qed


end
