(* ===== verification/Admin.thy ===== *)
theory Admin
  imports Ws_Properties
begin

text \<open>
  The admin interface (\<open>src/admin/mod.rs\<close>): the check of the caller, the import of an account, and
  the handlers that act on sessions, which join the store with the registry of live connections.
  Handlers that only call one operation of the store are that operation.
\<close>

section \<open>The caller\<close>

definition admin_auth :: "config \<Rightarrow> headers \<Rightarrow> unit app_result" where
  "admin_auth c hs =
     (case cfg_admin_token c of
        None \<Rightarrow> Inr ()
      | Some expected \<Rightarrow>
          if Option.bind (header_str hs ''authorization'') (strip_prefix ''Bearer '') = Some expected then Inr ()
          else Inl (Unauthorized ''invalid admin token''))"

section \<open>Importing an account\<close>

record import_times =
  im_upsert :: instant
  im_check :: instant
  im_token :: instant
  im_mark :: instant
  im_usage :: instant
  im_usage_mark :: instant

definition expires_within_minutes :: "upstream_io \<Rightarrow> int \<Rightarrow> instant \<Rightarrow> account \<Rightarrow> bool" where
  "expires_within_minutes io minutes now a =
     (case acc_expires_at a of None \<Rightarrow> False | Some t \<Rightarrow> stamp io t \<le> clock_of io now + minutes * 60 * nanos_per_second)"

text \<open>The token of an import that is about to expire is refreshed; the flag is \<open>auth_ready\<close>.\<close>

definition import_refresh ::
  "upstream_io \<Rightarrow> import_times \<Rightarrow> account \<Rightarrow> db \<Rightarrow> (account \<times> string list \<times> bool) \<times> db" where
  "import_refresh io tm a d =
     (if expires_within_minutes io 5 (im_check tm) a then
        (case refresh_account_tokens io (im_token tm) (acc_id a) d d of
           (Inr a', d') \<Rightarrow> ((a', [], True), d')
         | (Inl e, d') \<Rightarrow>
             (let message = ''initial token refresh failed: '' @ error_text e
              in ((a, [message], False), mark_auth_failed (io_sqlite io) (im_mark tm) (acc_id a) message d')))
      else ((a, [], True), d))"

definition import_usage ::
  "upstream_io \<Rightarrow> import_times \<Rightarrow> uuid \<Rightarrow> db \<Rightarrow> (string list \<times> db) option" where
  "import_usage io tm aid d =
     map_option (\<lambda>(res, d'). case res of
         Inr _ \<Rightarrow> ([], d')
       | Inl e \<Rightarrow> (let message = ''initial usage refresh failed: '' @ error_text e
                  in ([message], mark_usage_error (io_sqlite io) (im_usage_mark tm) aid message d')))
       (refresh_account_usage io (im_usage tm) aid d)"

text \<open>The payload is an object with the credential under \<open>auth\<close>, or the credential itself.\<close>

definition import_account ::
  "upstream_io \<Rightarrow> import_times \<Rightarrow> uuid \<Rightarrow> json \<Rightarrow> db \<Rightarrow> ((account \<times> string list) app_result \<times> db) option" where
  "import_account io tm new_id payload d =
     (case parse_auth_json (io_chrono io) (io_codecs io) (or_default (jget ''auth'' payload) payload) of
        Inl m \<Rightarrow> Some (Inl (BadRequest m), d)
      | Inr (auth, claims) \<Rightarrow>
          (case upsert_account (io_sqlite io) (im_upsert tm) new_id (encrypt_with io (im_upsert tm)) auth claims
                  (Option.bind (jget ''label'' payload) as_str) d of
             (Inl e, d1) \<Rightarrow> Some (Inl e, d1)
           | (Inr a, d1) \<Rightarrow>
               (let ((a', warnings, auth_ready), d2) = import_refresh io tm a d1
                in map_option (\<lambda>(more, d3).
                     (map_sum id (\<lambda>x. (x, warnings @ more))
                        (ok_or (get_account (acc_id a') d3) (NotFound ''imported account disappeared'')), d3))
                   (if auth_ready then import_usage io tm (acc_id a') d2 else Some ([], d2)))))"

section \<open>Sessions\<close>

text \<open>The state the handlers share: the store and the live connections.\<close>

record daemon =
  dm_db :: db
  dm_registry :: registry

definition hex_byte :: "char \<Rightarrow> bool" where
  "hex_byte c \<longleftrightarrow> is_ascii_digit c \<or> (97 \<le> byte c \<and> byte c \<le> 102) \<or> (65 \<le> byte c \<and> byte c \<le> 70)"

definition resolve_session_routes_handler ::
  "sqlite \<Rightarrow> (uuid \<Rightarrow> string) \<Rightarrow> instant \<Rightarrow> string list \<Rightarrow> db \<Rightarrow> (session_route list \<times> int) app_result" where
  "resolve_session_routes_handler q hex8 now key_hashes d =
     (if length key_hashes > 500 then Inl (BadRequest ''at most 500 session hashes can be resolved at once'')
      else if list_ex (\<lambda>h. length h \<noteq> 64 \<or> \<not> list_all hex_byte h) key_hashes
      then Inl (BadRequest ''session hashes must be 64 hexadecimal characters'')
      else (let ttl = sticky_session_ttl_seconds (load_runtime_settings (t_settings d))
            in Inr (resolve_session_routes q hex8 now key_hashes ttl d, ttl)))"

definition session_routes_handler ::
  "sqlite \<Rightarrow> (uuid \<Rightarrow> string) \<Rightarrow> instant \<Rightarrow> int option \<Rightarrow> db \<Rightarrow> session_route list \<times> int" where
  "session_routes_handler q hex8 now limit d =
     (let ttl = sticky_session_ttl_seconds (load_runtime_settings (t_settings d))
      in (list_session_routes q hex8 now (or_default limit 100) ttl d, ttl))"

definition valid_session_route_hash :: "string \<Rightarrow> bool" where
  "valid_session_route_hash v \<longleftrightarrow>
     length v = 64 \<and> list_all (\<lambda>c. is_ascii_digit c \<or> (97 \<le> byte c \<and> byte c \<le> 102)) v"

record action_reply =
  rp_action :: action_response
  rp_matching :: nat
  rp_signaled :: nat
  rp_pending_reconnect :: bool

definition candidate_hashes :: "action_request \<Rightarrow> string set" where
  "candidate_hashes req = set (req_root req # map key_hash (req_keys req))"

text \<open>The action on the store, with the accounts of the session's live connections.\<close>

definition apply_with_connections ::
  "sqlite \<Rightarrow> runtime_settings \<Rightarrow> instant \<Rightarrow> instant \<Rightarrow> nat \<Rightarrow> action_request \<Rightarrow> daemon
     \<Rightarrow> action_response app_result \<times> daemon" where
  "apply_with_connections q st sel now interval req dm =
     (let shot = snapshot (dm_registry dm) (req_root req) (candidate_hashes req);
          (res, d') = apply_session_route_action q sel now st interval req
                        (snapshot_account_ids shot) (dm_db dm)
      in (res, dm\<lparr>dm_db := d'\<rparr>))"

definition signal_action :: "action_request \<Rightarrow> action_response \<Rightarrow> daemon \<Rightarrow> session_signal_result \<times> daemon" where
  "signal_action req action dm =
     (let (result, reg') = signal_reroute (res_root action) (candidate_hashes req) (res_generation action) (dm_registry dm)
      in (result, dm\<lparr>dm_registry := reg'\<rparr>))"

definition apply_session_route_handler ::
  "sqlite \<Rightarrow> instant \<Rightarrow> instant \<Rightarrow> nat \<Rightarrow> action_request \<Rightarrow> daemon \<Rightarrow> action_reply app_result \<times> daemon" where
  "apply_session_route_handler q sel now interval req dm =
     (if length (req_keys req) > 500
      then (Inl (BadRequest ''at most 500 session route keys can be used at once''), dm)
      else if \<not> valid_session_route_hash (req_root req) \<or> list_ex (\<lambda>k. \<not> valid_session_route_hash (key_hash k)) (req_keys req)
      then (Inl (BadRequest ''session route hashes must be 64 lowercase hexadecimal characters''), dm)
      else (let shot = snapshot (dm_registry dm) (req_root req) (candidate_hashes req)
            in case apply_with_connections q (load_runtime_settings (t_settings (dm_db dm))) sel now interval req dm of
                 (Inl e, dm') \<Rightarrow> (Inl e, dm')
               | (Inr action, dm') \<Rightarrow>
                   if \<not> res_dry_run action \<and> res_generation action > 0 \<and> res_status action \<in> {Applied, Fallback}
                   then (let (result, dm'') = signal_action req action dm'
                         in (Inr \<lparr>rp_action = action, rp_matching = matching_connections result,
                                  rp_signaled = signaled_connections result,
                                  rp_pending_reconnect = signaled_connections result > 0\<rparr>, dm''))
                   else (Inr \<lparr>rp_action = action, rp_matching = connection_count shot, rp_signaled = 0,
                              rp_pending_reconnect = False\<rparr>, dm')))"

section \<open>Settings\<close>

definition update_settings_handler :: "sqlite \<Rightarrow> instant \<Rightarrow> json \<Rightarrow> db \<Rightarrow> (setting_row list) app_result \<times> db" where
  "update_settings_handler q now payload d =
     (case as_object payload of
        None \<Rightarrow> (Inl (BadRequest ''settings payload must be a JSON object''), d)
      | Some kvs \<Rightarrow>
          (let (res, t') = upsert_settings (now_text q now) kvs (t_settings d) in (res, d\<lparr>t_settings := t'\<rparr>)))"

section \<open>The hashes the handler accepts\<close>

text \<open>The handler's own check of the hashes is the store's.\<close>

lemma valid_session_route_hash_iff: "valid_session_route_hash v = valid_affinity_hash v"
  by (simp add: valid_session_route_hash_def valid_affinity_hash_def lower_hex_def [abs_def])

section \<open>A signalled connection\<close>

text \<open>
  C9: a route action reaches the sessions that are open.  When the handler reports an action as
  applied, every live connection that shares a key with the request and was opened at an older
  generation holds the action's generation as its signal, and keeps its account; its bridge ends at
  the next round with a reroute.  Connections at that generation or newer are not disturbed.
\<close>

theorem applied_action_reroutes_connections:
  assumes reg: "reachable_registry (dm_registry dm)" and conn: "connections (dm_registry dm) t = Some e"
    and shared: "entry_keys e \<inter> candidate_hashes req \<noteq> {}"
    and run: "apply_session_route_handler q sel now interval req dm = (Inr reply, dm')"
    and applied: "\<not> req_dry_run req" "0 < res_generation (rp_action reply)" "res_status (rp_action reply) \<in> {Applied, Fallback}"
  shows "\<exists>e'. connections (dm_registry dm') t = Some e' \<and> account_id e' = account_id e \<and> generation e' = generation e
     \<and> signal e' = (if generation e < res_generation (rp_action reply) then Some (res_generation (rp_action reply)) else signal e)
     \<and> (\<forall>io ctx st. route_generation ctx = generation e \<longrightarrow> bc_keys ctx \<noteq> [] \<longrightarrow> generation e < res_generation (rp_action reply) \<longrightarrow>
          (\<exists>ended. bridge_round io ctx (Reroute_Signal (the (signal e'))) st = (st, Some ended) \<and> ex_reroute ended))"
proof -
  let ?g = "res_generation (rp_action reply)"
  obtain action dm1 where a: "apply_with_connections q (load_runtime_settings (t_settings (dm_db dm))) sel now interval req dm = (Inr action, dm1)"
    using run by (auto simp: apply_session_route_handler_def Let_def split: if_splits sum.splits prod.splits)
  have same: "dm_registry dm1 = dm_registry dm" "res_root action = req_root req" "res_dry_run action = req_dry_run req"
    using a by (auto simp: apply_with_connections_def apply_session_route_action_def action_result_def Let_def
        split: prod.splits sum.splits if_splits)
  have reply: "rp_action reply = action"
    "dm_registry dm' = snd (signal_reroute (req_root req) (candidate_hashes req) ?g (dm_registry dm))"
    using run applied a same
    by (auto simp: apply_session_route_handler_def signal_action_def Let_def split: if_splits prod.splits)
  have "insert (req_root req) (candidate_hashes req) = candidate_hashes req" by (auto simp: candidate_hashes_def)
  with signal_reroute_reaches [OF reg conn, of "req_root req" "candidate_hashes req" ?g] shared reply(2)
  show ?thesis by (auto simp: Let_def)
qed

end
