(* ===== verification/Daemon.thy ===== *)
theory Daemon
  imports Admin
begin

text \<open>
  The daemon as a whole: the scheduler's tasks (\<open>src/scheduler.rs\<close>) and the joint state of the store,
  the leases of running requests and the registry of live connections, with the invariant that every
  sequence of its steps keeps.
\<close>

section \<open>The scheduler\<close>

text \<open>One tick of the usage task; \<open>None\<close> is a panic, which ends the task.\<close>

definition usage_tick ::
  "upstream_io \<Rightarrow> (uuid \<Rightarrow> instant) \<Rightarrow> instant \<Rightarrow> 64 word \<Rightarrow> db \<Rightarrow> (64 word \<times> db) option" where
  "usage_tick io at_time prune_at refresh_count d =
     map_option (\<lambda>(snapshots, d').
       let count = refresh_count + 1
       in (count, if count = 1 \<or> unat count mod 360 = 0
                  then prune_history (io_sqlite io) prune_at (usage_sample_retention_days (load_runtime_settings (t_settings d'))) d'
                  else d'))
     (refresh_all_usage io at_time d)"

text \<open>The pending actions, one after the other; \<open>clocks i\<close> are the instants of the \<open>i\<close>th.\<close>

fun apply_pending ::
  "sqlite \<Rightarrow> runtime_settings \<Rightarrow> (nat \<Rightarrow> instant \<times> instant) \<Rightarrow> nat \<Rightarrow> nat \<Rightarrow> action_request list \<Rightarrow> daemon \<Rightarrow> daemon" where
  "apply_pending q st clocks interval i [] dm = dm"
| "apply_pending q st clocks interval i (req # reqs) dm =
     apply_pending q st clocks interval (Suc i) reqs
       (case apply_with_connections q st (fst (clocks i)) (snd (clocks i)) interval req dm of
          (Inl e, dm') \<Rightarrow> dm'
        | (Inr action, dm') \<Rightarrow>
            if res_status action \<in> {Applied, Fallback} then snd (signal_action req action dm') else dm')"

definition apply_pending_session_route_actions :: "sqlite \<Rightarrow> (nat \<Rightarrow> instant \<times> instant) \<Rightarrow> nat \<Rightarrow> daemon \<Rightarrow> daemon" where
  "apply_pending_session_route_actions q clocks interval dm =
     (case list_pending_session_route_actions q (dm_db dm) 100 of
        Inl e \<Rightarrow> dm
      | Inr pending \<Rightarrow> apply_pending q (load_runtime_settings (t_settings (dm_db dm))) clocks interval 0 pending dm)"

text \<open>The backfill task; \<open>True\<close> is a round in which the shutdown is seen.  The result is the store, the
  number of rows priced and whether the task has ended.\<close>

fun backfill_task :: "bool list \<Rightarrow> nat \<Rightarrow> db \<Rightarrow> db \<times> nat \<times> bool" where
  "backfill_task [] priced_rows d = (d, priced_rows, False)"
| "backfill_task (True # rounds) priced_rows d = (d, priced_rows, True)"
| "backfill_task (False # rounds) priced_rows d =
     (case backfill_api_costs_batch backfill_batch_size d of
        (Inr batch, d') \<Rightarrow>
          if bf_selected batch = 0 then (d', priced_rows, True)
          else backfill_task rounds (min (2 ^ 64 - 1) (priced_rows + bf_updated batch)) d'
      | (Inl e, d') \<Rightarrow> backfill_task rounds priced_rows d')"

section \<open>No operation takes a session back\<close>

definition routes_grow :: "db \<Rightarrow> db \<Rightarrow> bool" where
  "routes_grow d d' \<longleftrightarrow> (\<forall>h g. key_generation d h = Some g \<longrightarrow> (\<exists>g' \<ge> g. key_generation d' h = Some g'))"

named_theorems routes_intros \<open>operations that leave the routes of the sessions alone\<close>

lemma same_routes_grow: "same_routes d d' \<Longrightarrow> routes_grow d d'"
  by (auto simp: routes_grow_def same_routes_generation)

lemma routes_grow_trans: "routes_grow a b \<Longrightarrow> routes_grow b c \<Longrightarrow> routes_grow a c"
  unfolding routes_grow_def by (meson order_trans)

lemma same_routes_refl [simp]: "same_routes d d"
  by (simp add: same_routes_def)

lemma same_routes_trans: "same_routes a b \<Longrightarrow> same_routes b c \<Longrightarrow> same_routes a c"
  by (simp add: same_routes_def)

lemma lease_routes [simp]:
  "same_routes d (take_smart p k d)" "same_routes d (take_pinned p' k d)" "same_routes d (give_lease g k d)"
  by (simp_all add: same_routes_def take_smart_def take_pinned_def give_lease_def release_account_inner_def split: prod.splits)

lemma finish_routes: "finish_selection q dec now d aid reason = (res, d') \<Longrightarrow> same_routes d d'"
  by (auto simp: finish_selection_def release_is_give split: sum.splits)

lemma select_routes:
  assumes "select_account_for_request q dec sel now aff ex st iv d = (res, d')"
  shows "same_routes d d'"
proof (cases rule: select_cases [of q sel st iv ex d dec now aff])
  case (smart aid)
  then show ?thesis using assms same_routes_trans [OF lease_routes(1) finish_routes] by metis
next
  case (sticky key aid)
  then show ?thesis using assms same_routes_trans [OF lease_routes(2) finish_routes] by metis
qed (use assms in simp)

lemma acquire_routes: "acquire_account_if_available q now aid d = (ok, d') \<Longrightarrow> same_routes d d'"
  by (auto simp: acquire_account_if_available_def same_routes_def split: if_splits)

lemma ensure_routes: "same_routes d (snd (ensure_runtime_row q now aid d))"
  by (simp add: ensure_runtime_row_def same_routes_def)

lemma upsert_routes: "same_routes d (snd (upsert_account q now new_id enc auth claims label d))"
  by (auto simp: upsert_account_def insert_imported_def ensure_runtime_row_def same_routes_def Let_def
      split: sum.splits prod.splits option.splits if_splits)

lemma account_routes [routes_intros]:
  "same_routes d (snd (update_account q now aid status label email plan d))"
  "same_routes d (snd (update_account_tokens q now enc aid auth claims d))"
  "same_routes d (mark_auth_failed q now aid reason d)" "same_routes d (mark_usage_error q now aid reason d)"
  "same_routes d (snd (cooldown_account q now aid seconds reason d))"
  "same_routes d (release_account q now aid d)" "same_routes d (release_account_reservation q now aid d)"
  "same_routes d (reset_inflight d)" "same_routes d (d\<lparr>t_settings := t\<rparr>)"
  "same_routes d (prune_history q now days d)"
  by (auto simp: same_routes_def update_account_def update_account_tokens_def mark_auth_failed_def mark_usage_error_def
      cooldown_account_def ensure_runtime_row_def release_account_def release_account_reservation_def
      release_account_inner_def reset_inflight_def prune_history_def Let_def split: sum.splits prod.splits if_splits)

lemma log_routes [routes_intros]: "same_routes d (snd (insert_request_log q now e d))"
  by (auto simp: same_routes_def insert_request_log_def Let_def split: option.splits)

lemma snapshot_routes [routes_intros]: "same_routes d (snd (insert_usage_snapshot q now aid used inp out reset raw d))"
  by (auto simp: same_routes_def insert_usage_snapshot_def Let_def)

lemma backfill_routes:
  assumes "logs_ok d"
  shows "same_routes d (snd (backfill_api_costs_batch n d))"
proof -
  obtain res d' where b: "backfill_api_costs_batch n d = (res, d')" by fastforce
  show ?thesis
  proof (cases rule: batch_cases [OF b assms])
    case (2 ds)
    then obtain L where "d' = add_deltas ds (d\<lparr>t_logs := L\<rparr>)" by blast
    with b add_deltas_base [of ds "d\<lparr>t_logs := L\<rparr>"] show ?thesis by (simp add: same_routes_def)
  qed (use b in simp)
qed

lemma refresh_usage_routes:
  assumes "refresh_account_usage io now aid d = Some (res, d')" "db_ok d"
  shows "same_routes d d'"
proof (cases "get_account aid d")
  case None
  with assms show ?thesis by (simp add: refresh_account_usage_def)
next
  case (Some a)
  from refresh_account_usage_ok [OF assms Some] show ?thesis
    by (auto simp: touches_account_def same_but_usage_def same_routes_def)
qed

lemma delete_routes: "routes_grow d (snd (delete_account q aid d))"
proof -
  have "generation_of (cascade_account aid d) = generation_of d" "root_of (cascade_account aid d) = root_of d"
    by (simp_all add: fun_eq_iff generation_of_def root_of_def cascade_account_def find_map_key option.map_comp comp_def)
  then show ?thesis by (auto simp: delete_account_def routes_grow_def key_generation_def)
qed

lemma store_step_routes: "store_step q s s' \<Longrightarrow> store_ok (fst s) \<Longrightarrow> routes_grow (fst s) (fst s')"
proof (induction rule: store_step.induct)
  case (step_session d M act)
  then show ?case using session_step_ok [of d q act] by (simp add: routes_grow_def store_ok_def)
next
  case (step_backfill d M n)
  then show ?case by (simp add: same_routes_grow backfill_routes store_ok_def metrics_ok_def)
next
  case step_refresh
  then show ?case using refresh_usage_routes by (fastforce simp: store_ok_def intro: same_routes_grow)
next
  case step_import
  then show ?case by (simp add: same_routes_grow upsert_routes)
next
  case step_delete
  then show ?case by (simp add: delete_routes)
qed (auto intro: same_routes_grow routes_intros select_routes acquire_routes)

end
