(* ===== verification/Daemon_Steps.thy ===== *)
theory Daemon_Steps
  imports Daemon Session_Properties
begin

text \<open>
  The daemon as a transition system.  Its tasks share the store and the registry of live connections;
  an action on a session is committed in the store first and signalled to the connections later, so
  other tasks run in between.  The steps below are the atomic ones (a call of the store, a call of
  the registry); the handlers and the scheduler's round are shown to be runs of them.
\<close>

section \<open>The steps\<close>

text \<open>The state: store and registry, the actions that are committed but not yet signalled, and the
  leases of the running requests.  In an \<open>ordered\<close> run no action is signalled after a newer one of
  its root, as when the handlers run one after the other.\<close>

type_synonym daemon_state = "daemon \<times> (action_request \<times> action_response) list \<times> uuid multiset"

definition in_order :: "registry \<Rightarrow> action_response \<Rightarrow> bool" where
  "in_order reg action \<longleftrightarrow> (\<forall>g. generation_by_root reg (res_root action) = Some g \<longrightarrow> g \<le> res_generation action)"

inductive daemon_step :: "sqlite \<Rightarrow> bool \<Rightarrow> daemon_state \<Rightarrow> daemon_state \<Rightarrow> bool" for q ordered where
  call_store: "store_step q (dm_db dm, M) (d', M') \<Longrightarrow> daemon_step q ordered (dm, S, M) (dm\<lparr>dm_db := d'\<rparr>, S, M')"
| commit: "apply_with_connections q st sel now interval req dm = (Inr action, dm') \<Longrightarrow> \<not> req_dry_run req
     \<Longrightarrow> res_status action \<in> {Applied, Fallback} \<Longrightarrow> daemon_step q ordered (dm, S, M) (dm', (req, action) # S, M)"
| announce: "(ordered \<longrightarrow> in_order (dm_registry dm) action)
     \<Longrightarrow> daemon_step q ordered (dm, S1 @ (req, action) # S2, M) (snd (signal_action req action dm), S1 @ S2, M)"
| connect: "next_token (dm_registry dm) \<noteq> - 1 \<Longrightarrow> register_connection ctx (dm_registry dm) = (t, reg')
     \<Longrightarrow> daemon_step q ordered (dm, S, M) (dm\<lparr>dm_registry := reg'\<rparr>, S, M)"
| disconnect: "daemon_step q ordered (dm, S, M) (dm\<lparr>dm_registry := unregister t (dm_registry dm)\<rparr>, S, M)"
| restart: "daemon_step q ordered (dm, S, M) (\<lparr>dm_db = reset_inflight (dm_db dm), dm_registry = registry_default\<rparr>, [], {#})"

definition daemon_start :: daemon_state where
  "daemon_start = (\<lparr>dm_db = empty_db, dm_registry = registry_default\<rparr>, [], {#})"

definition daemon_reachable :: "sqlite \<Rightarrow> bool \<Rightarrow> daemon_state \<Rightarrow> bool" where
  "daemon_reachable q ordered s \<longleftrightarrow> (daemon_step q ordered)\<^sup>*\<^sup>* daemon_start s"

lemma daemon_reachable_start: "daemon_reachable q ordered daemon_start"
  by (simp add: daemon_reachable_def)

lemma daemon_reachable_step: "daemon_reachable q ordered s \<Longrightarrow> daemon_step q ordered s s' \<Longrightarrow> daemon_reachable q ordered s'"
  by (simp add: daemon_reachable_def)

section \<open>The invariant\<close>

text \<open>No root is signalled beyond what the store has for it.\<close>

definition covered :: "db \<Rightarrow> string \<Rightarrow> int \<Rightarrow> bool" where
  "covered d h g \<longleftrightarrow> (\<exists>g' \<ge> g. key_generation d h = Some g')"

definition signals_covered :: "daemon \<Rightarrow> (action_request \<times> action_response) list \<Rightarrow> bool" where
  "signals_covered dm S \<longleftrightarrow>
     (\<forall>h g. generation_by_root (dm_registry dm) h = Some g \<longrightarrow> covered (dm_db dm) h g)
     \<and> (\<forall>(req, action) \<in> set S. covered (dm_db dm) (res_root action) (res_generation action))"

text \<open>A signal is a reason to leave: it is above the generation the connection was opened at.\<close>

definition signals_newer :: "registry \<Rightarrow> bool" where
  "signals_newer reg \<longleftrightarrow> (\<forall>t e g. connections reg t = Some e \<longrightarrow> signal e = Some g \<longrightarrow> generation e < g)"

definition daemon_ok :: "bool \<Rightarrow> daemon_state \<Rightarrow> bool" where
  "daemon_ok ordered s = (case s of (dm, S, M) \<Rightarrow>
     leases_ok (dm_db dm) M \<and> signals_covered dm S \<and> indexed (dm_registry dm) \<and> signals_newer (dm_registry dm)
     \<and> (ordered \<longrightarrow> reachable_registry (dm_registry dm)))"

lemma daemon_okD:
  assumes "daemon_ok ordered (dm, S, M)"
  shows "leases_ok (dm_db dm) M" "signals_covered dm S" "indexed (dm_registry dm)" "signals_newer (dm_registry dm)"
    "ordered \<Longrightarrow> reachable_registry (dm_registry dm)" "store_ok (dm_db dm)" "db_ok (dm_db dm)" "session_ok (dm_db dm)"
  using assms by (auto simp: daemon_ok_def leases_ok_def store_ok_def)

lemma covered_grow: "routes_grow d d' \<Longrightarrow> covered d h g \<Longrightarrow> covered d' h g"
  unfolding covered_def routes_grow_def by (meson order_trans)

lemma covered_max: "covered d h a \<Longrightarrow> covered d h b \<Longrightarrow> covered d h (max a b)"
  by (simp add: max_def)

lemma signals_covered_grow:
  assumes "signals_covered dm S" "routes_grow (dm_db dm) (dm_db dm')" "dm_registry dm' = dm_registry dm"
  shows "signals_covered dm' S"
  using assms covered_grow by (fastforce simp: signals_covered_def)

lemma signals_newer_register:
  assumes "signals_newer reg" "next_token reg \<noteq> - 1"
  shows "signals_newer (snd (register rt al acct gen reg))"
  using assms(1) by (auto simp: signals_newer_def register_fields [OF assms(2)] split: option.splits if_splits)

lemma signals_newer_signal:
  assumes "signals_newer reg"
  shows "signals_newer (snd (signal_reroute rt al gen reg))"
  using assms by (auto simp: signals_newer_def signal_fields reroute_entry_def Let_def split: if_splits)

lemma signals_newer_unregister: "signals_newer reg \<Longrightarrow> signals_newer (unregister t reg)"
  by (auto simp: signals_newer_def unregister_fields split: if_splits)

lemma register_connection_cases:
  assumes "register_connection ctx reg = (t, reg')"
  obtains "reg' = reg" | rt al where "reg' = registry_step (Register rt al (bc_account ctx) (route_generation ctx)) reg"
  using assms by (auto simp: register_connection_def Let_def split: list.splits prod.splits if_splits) (metis snd_conv)

lemma apply_with_connections_store:
  assumes "apply_with_connections q st sel now interval req dm = (res, dm')"
  obtains live where "apply_session_route_action q sel now st interval req live (dm_db dm) = (res, dm_db dm')"
    "dm_registry dm' = dm_registry dm"
  using assms by (auto simp: apply_with_connections_def Let_def split: prod.splits)

text \<open>A committed action leaves its root at the generation it reports.\<close>

lemma committed_generation_of_root:
  assumes "db_ok d" "session_ok d" "\<not> req_dry_run req"
    and a: "apply_session_route_action q sel now st iv req live d = (Inr action, d')"
  shows "res_root action = req_root req" "key_generation d' (req_root req) = Some (res_generation action)"
proof -
  show "res_root action = req_root req"
    using a by (auto simp: apply_session_route_action_def action_result_def Let_def split: prod.splits sum.splits if_splits)
  have "session_ok d'" using session_step_ok [OF assms(1,2), of q "ApplyAction sel now st iv req live"] a by simp
  moreover have "generation_of d' (req_root req) = Some (res_generation action)" by (simp add: action_lookups(2) [OF assms])
  ultimately show "key_generation d' (req_root req) = Some (res_generation action)"
    using session_ok_generation by (simp add: key_generation_def)
qed

lemma commit_facts:
  assumes "store_ok (dm_db dm)" "\<not> req_dry_run req" "apply_with_connections q st sel now interval req dm = (Inr action, dm')"
  shows "dm_registry dm' = dm_registry dm" "routes_grow (dm_db dm) (dm_db dm')" "quiet (dm_db dm) (dm_db dm')"
    "res_root action = req_root req" "key_generation (dm_db dm') (req_root req) = Some (res_generation action)"
proof -
  obtain live where live: "apply_session_route_action q sel now st interval req live (dm_db dm) = (Inr action, dm_db dm')"
    "dm_registry dm' = dm_registry dm"
    by (rule apply_with_connections_store [OF assms(3)])
  have ok: "db_ok (dm_db dm)" "session_ok (dm_db dm)" using assms(1) by (simp_all add: store_ok_def)
  from live(2) show "dm_registry dm' = dm_registry dm" .
  from session_step_ok [OF ok, of q "ApplyAction sel now st interval req live"] live(1)
  show "routes_grow (dm_db dm) (dm_db dm')" by (simp add: routes_grow_def)
  from quiet_action [of "dm_db dm" q sel now st interval req live] live(1) show "quiet (dm_db dm) (dm_db dm')" by simp
  from committed_generation_of_root [OF ok assms(2) live(1)]
  show "res_root action = req_root req" "key_generation (dm_db dm') (req_root req) = Some (res_generation action)" by blast+
qed

lemma signal_action_fields:
  "dm_db (snd (signal_action req action dm)) = dm_db dm"
  "dm_registry (snd (signal_action req action dm))
     = snd (signal_reroute (res_root action) (candidate_hashes req) (res_generation action) (dm_registry dm))"
  by (simp_all add: signal_action_def Let_def split: prod.splits)

lemma announce_registry:
  "in_order reg action \<Longrightarrow> reachable_registry reg
     \<Longrightarrow> reachable_registry (snd (signal_reroute (res_root action) hs (res_generation action) reg))"
  using reachable_registry.step [of reg "Signal (res_root action) hs (res_generation action)"]
  by (auto simp: in_order_def split: option.splits)

lemma announce_covered:
  assumes "signals_covered dm S" "(req, action) \<in> set S" "set S' \<subseteq> set S"
  shows "signals_covered (snd (signal_action req action dm)) S'"
proof -
  have "covered (dm_db dm) (res_root action) (res_generation action)"
    using assms(1,2) by (auto simp: signals_covered_def)
  with assms(1,3) show ?thesis
    by (auto simp: signals_covered_def signal_action_fields signal_fields(5) covered_max split: option.splits if_splits)
qed

lemma indexed_signal:
  assumes "indexed reg"
  shows "indexed (snd (signal_reroute rt al gen reg))"
proof -
  have "indexed (registry_step (Signal rt al gen) (reg\<lparr>generation_by_root := Map.empty\<rparr>))"
    by (rule indexed_step) (use assms in \<open>simp_all add: indexed_def\<close>)
  then show ?thesis
    by (simp add: indexed_def signal_fields matching_tokens_def cong: if_cong)
qed

lemma daemon_ok_step:
  assumes "daemon_step q ordered s s'" "daemon_ok ordered s"
  shows "daemon_ok ordered s'"
  using assms
proof (induction rule: daemon_step.induct)
  case (call_store dm M d' M' S)
  note ok = daemon_okD [OF call_store(2)]
  have "routes_grow (dm_db dm) d'" using store_step_routes [OF call_store(1)] ok(6) by simp
  then have "signals_covered (dm\<lparr>dm_db := d'\<rparr>) S" by (intro signals_covered_grow [OF ok(2)]) simp_all
  with ok leases_ok_step [OF call_store(1)] show ?case by (simp add: daemon_ok_def)
next
  case (commit st sel now interval req dm action dm' S M)
  note ok = daemon_okD [OF commit(4)]
  note c = commit_facts [OF ok(6) commit(2,1)]
  have "signals_covered dm' ((req, action) # S)"
    using signals_covered_grow [OF ok(2) c(2,1)] c(4,5) by (auto simp: signals_covered_def covered_def)
  with ok quiet_leases [OF c(3) ok(1)] c(1) show ?case by (simp add: daemon_ok_def)
next
  case (announce dm action S1 req S2 M)
  note ok = daemon_okD [OF announce(2)]
  have "signals_covered (snd (signal_action req action dm)) (S1 @ S2)"
    by (rule announce_covered [OF ok(2)]) auto
  with ok announce(1) show ?case
    by (simp add: daemon_ok_def signal_action_fields indexed_signal signals_newer_signal announce_registry)
next
  case (connect dm ctx t reg' S M)
  note ok = daemon_okD [OF connect(3)]
  from connect(2) show ?case
  proof (cases rule: register_connection_cases)
    case 1
    with connect show ?thesis by simp
  next
    case (2 rt al)
    have "registry_op_ok (Register rt al (bc_account ctx) (route_generation ctx)) (dm_registry dm)" using connect(1) by simp
    note okr = indexed_step [OF ok(3) this, folded 2] reachable_registry.step [OF ok(5) this, folded 2]
    have "generation_by_root reg' = generation_by_root (dm_registry dm)" "signals_newer reg'"
      unfolding 2 using register_fields(5) [OF connect(1)] signals_newer_register [OF ok(4) connect(1)] by simp_all
    with ok okr show ?thesis by (simp add: daemon_ok_def signals_covered_def)
  qed
next
  case (disconnect dm S M t)
  note ok = daemon_okD [OF disconnect]
  have "indexed (unregister t (dm_registry dm))" using indexed_step [OF ok(3), of "Unregister t"] by simp
  moreover have "ordered \<Longrightarrow> reachable_registry (unregister t (dm_registry dm))"
    using reachable_registry.step [OF ok(5), of "Unregister t"] by simp
  ultimately show ?case using ok
    by (simp add: daemon_ok_def signals_newer_unregister signals_covered_def unregister_fields(5))
next
  case (restart dm S M)
  with daemon_okD(6) [OF restart] show ?case
    by (simp add: daemon_ok_def reset_leases signals_covered_def signals_newer_def indexed_def reachable_registry.init)
      (simp add: registry_default_def)
qed

lemma daemon_ok_reachable: "daemon_reachable q ordered s \<Longrightarrow> daemon_ok ordered s"
  unfolding daemon_reachable_def
proof (induction rule: rtranclp_induct)
  case base
  show ?case
    using reset_leases [OF store_ok_empty]
    by (simp add: daemon_start_def daemon_ok_def signals_covered_def signals_newer_def indexed_def reachable_registry.init)
      (simp add: registry_default_def reset_inflight_def empty_db_def)
next
  case (step s s')
  then show ?case using daemon_ok_step by blast
qed

section \<open>The tasks are runs of the steps\<close>

text \<open>A commit and its announcement, with nothing in between, keep the order.\<close>

lemma commit_in_order:
  assumes "daemon_ok ordered (dm, S, M)" "\<not> req_dry_run req"
    and "apply_with_connections q st sel now interval req dm = (Inr action, dm')"
  shows "in_order (dm_registry dm') action"
proof -
  note ok = daemon_okD [OF assms(1)]
  note c = commit_facts [OF ok(6) assms(2,3)]
  have "g \<le> res_generation action" if "generation_by_root (dm_registry dm) (req_root req) = Some g" for g
  proof -
    have "covered (dm_db dm) (req_root req) g" using ok(2) that by (simp add: signals_covered_def)
    from covered_grow [OF c(2) this] c(5) show ?thesis by (simp add: covered_def)
  qed
  with c(1,4) show ?thesis by (simp add: in_order_def)
qed

lemma apply_run:
  assumes "apply_with_connections q st sel now interval req dm = (res, dm')"
  shows "daemon_step q ordered (dm, S, M) (dm', S, M)"
proof -
  obtain live where live: "apply_session_route_action q sel now st interval req live (dm_db dm) = (res, dm_db dm')"
    "dm_registry dm' = dm_registry dm"
    by (rule apply_with_connections_store [OF assms])
  have "dm' = dm\<lparr>dm_db := session_step q (ApplyAction sel now st interval req live) (dm_db dm)\<rparr>"
    using live by (cases dm, cases dm') simp
  then show ?thesis using daemon_step.call_store [OF store_step.step_session] by metis
qed

lemma applied_run:
  assumes "daemon_ok ordered (dm, S, M)" "\<not> req_dry_run req" "res_status action \<in> {Applied, Fallback}"
    and a: "apply_with_connections q st sel now interval req dm = (Inr action, dm')"
  shows "(daemon_step q ordered)\<^sup>*\<^sup>* (dm, S, M) (snd (signal_action req action dm'), S, M)"
proof -
  have "daemon_step q ordered (dm, S, M) (dm', (req, action) # S, M)"
    by (rule daemon_step.commit [OF a assms(2,3)])
  moreover have "daemon_step q ordered (dm', [] @ (req, action) # S, M) (snd (signal_action req action dm'), [] @ S, M)"
    by (rule daemon_step.announce) (use commit_in_order [OF assms(1,2) a] in simp)
  ultimately show ?thesis by simp
qed

lemma handler_run:
  assumes "daemon_ok ordered (dm, S, M)" "apply_session_route_handler q sel now interval req dm = (res, dm')"
  shows "(daemon_step q ordered)\<^sup>*\<^sup>* (dm, S, M) (dm', S, M)"
proof -
  obtain r dm1 where a: "apply_with_connections q (load_runtime_settings (t_settings (dm_db dm))) sel now interval req dm = (r, dm1)"
    by fastforce
  consider "dm' = dm" | "dm' = dm1"
    | action where "r = Inr action" "\<not> res_dry_run action" "res_status action \<in> {Applied, Fallback}" "dm' = snd (signal_action req action dm1)"
    using assms(2) a by (auto simp: apply_session_route_handler_def Let_def split: if_splits sum.splits prod.splits)
  then show ?thesis
  proof cases
    case 2
    with apply_run [OF a] show ?thesis by auto
  next
    case (3 action)
    have "res_dry_run action = req_dry_run req"
      using a 3(1) by (auto simp: apply_with_connections_def apply_session_route_action_def action_result_def Let_def
          split: prod.splits sum.splits if_splits)
    with 3 applied_run [OF assms(1) _ 3(3) a [unfolded 3(1)]] show ?thesis by simp
  qed simp
qed

lemma daemon_ok_run: "(daemon_step q ordered)\<^sup>*\<^sup>* s s' \<Longrightarrow> daemon_ok ordered s \<Longrightarrow> daemon_ok ordered s'"
  by (induction rule: rtranclp_induct) (auto intro: daemon_ok_step)

lemma collect_all:
  "collect f xs = Inr ys \<Longrightarrow> (\<And>x y. f x = Inr y \<Longrightarrow> P y) \<Longrightarrow> \<forall>y \<in> set ys. P y"
  by (induction xs arbitrary: ys) auto

lemma pending_not_dry: "list_pending_session_route_actions q d n = Inr reqs \<Longrightarrow> \<forall>req \<in> set reqs. \<not> req_dry_run req"
  unfolding list_pending_session_route_actions_def by (erule collect_all) (auto simp: pending_request_def)

lemma apply_pending_run:
  assumes "daemon_ok ordered (dm, S, M)" "\<forall>req \<in> set reqs. \<not> req_dry_run req"
  shows "(daemon_step q ordered)\<^sup>*\<^sup>* (dm, S, M) (apply_pending q st clocks interval i reqs dm, S, M)"
  using assms
proof (induction reqs arbitrary: dm i)
  case (Cons req reqs)
  obtain r dm1 where a: "apply_with_connections q st (fst (clocks i)) (snd (clocks i)) interval req dm = (r, dm1)"
    by fastforce
  define dm2 where "dm2 = (case r of Inl e \<Rightarrow> dm1
      | Inr action \<Rightarrow> if res_status action \<in> {Applied, Fallback} then snd (signal_action req action dm1) else dm1)"
  have one: "(daemon_step q ordered)\<^sup>*\<^sup>* (dm, S, M) (dm2, S, M)"
  proof (cases "\<exists>action. r = Inr action \<and> res_status action \<in> {Applied, Fallback}")
    case True
    with applied_run [OF Cons.prems(1), of req _ q st "fst (clocks i)" "snd (clocks i)" interval dm1] a Cons.prems(2)
    show ?thesis by (auto simp: dm2_def)
  next
    case False
    then have "dm2 = dm1" by (auto simp: dm2_def split: sum.splits)
    with apply_run [OF a] show ?thesis by auto
  qed
  with Cons.IH [of dm2 "Suc i"] daemon_ok_run [OF one Cons.prems(1)] Cons.prems(2)
  have "(daemon_step q ordered)\<^sup>*\<^sup>* (dm, S, M) (apply_pending q st clocks interval (Suc i) reqs dm2, S, M)"
    using rtranclp_trans [OF one] by simp
  then show ?case by (simp add: a dm2_def)
qed simp

lemma pending_round_run:
  assumes "daemon_ok ordered (dm, S, M)"
  shows "(daemon_step q ordered)\<^sup>*\<^sup>* (dm, S, M) (apply_pending_session_route_actions q clocks interval dm, S, M)"
  using apply_pending_run [OF assms] pending_not_dry
  by (auto simp: apply_pending_session_route_actions_def split: sum.splits)

section \<open>A daemon with one open session\<close>

definition sample_daemon :: daemon where
  "sample_daemon = \<lparr>dm_db = sample_db, dm_registry = registry_step (Register sample_hash {sample_hash} 7 0) registry_default\<rparr>"

definition sample_entry :: connection_entry where
  "sample_entry = \<lparr>root_key_hash = sample_hash, aliases = {sample_hash}, account_id = 7, generation = 0, signal = None\<rparr>"

lemma sample_registry:
  "reachable_registry (dm_registry sample_daemon)" "connections (dm_registry sample_daemon) = [1 \<mapsto> sample_entry]"
  "matching_tokens (dm_registry sample_daemon) sample_hash {sample_hash} = {1}"
proof -
  show "reachable_registry (dm_registry sample_daemon)"
    unfolding sample_daemon_def daemon.simps
    by (rule reachable_registry.step [OF reachable_registry.init]) (simp add: registry_default_def)
  show "connections (dm_registry sample_daemon) = [1 \<mapsto> sample_entry]"
    by (simp add: sample_daemon_def registry_default_def register_def canonical_root_def image_filter_insert sample_entry_def Let_def)
  show "matching_tokens (dm_registry sample_daemon) sample_hash {sample_hash} = {1}"
    by (auto simp: sample_daemon_def registry_default_def register_def canonical_root_def image_filter_insert matching_tokens_def
        lookup_set_def image_filter_insert Let_def split: if_splits)
qed

lemma sample_settings: "load_runtime_settings (t_settings sample_db) = settings_default"
proof -
  have "t_settings sample_db = []"
    by (simp add: sample_db_def upsert_account_def Let_def opt_normalize_label_def insert_imported_def
        account_exists_def ensure_runtime_row_def empty_db_def or_default_def sample_auth_def)
  then show ?thesis by (simp add: load_runtime_settings_def)
qed

lemma sample_with_connections:
  "apply_with_connections sample_sqlite settings_default 6 6 60 sample_move sample_daemon
     = (Inr (action_result sample_move sample_plan), sample_daemon\<lparr>dm_db := moved_sample\<rparr>)"
proof -
  have "candidate_hashes sample_move = {sample_hash}" "req_root sample_move = sample_hash"
    by (auto simp: candidate_hashes_def sample_move_def sample_key_def)
  moreover have "snapshot_account_ids (snapshot (dm_registry sample_daemon) sample_hash {sample_hash}) = {7}"
    by (simp add: snapshot_def token_accounts_def sample_registry image_filter_insert sample_entry_def)
  moreover have "dm_db sample_daemon = sample_db" by (simp add: sample_daemon_def)
  ultimately show ?thesis by (simp add: apply_with_connections_def sample_apply)
qed

lemma sample_handler:
  "\<exists>reply dm'. apply_session_route_handler sample_sqlite 6 6 60 sample_move sample_daemon = (Inr reply, dm')
     \<and> rp_action reply = action_result sample_move sample_plan"
proof -
  have "dm_db sample_daemon = sample_db" by (simp add: sample_daemon_def)
  moreover have "valid_session_route_hash (req_root sample_move)" "length (req_keys sample_move) \<le> 500"
    "\<not> list_ex (\<lambda>k. \<not> valid_session_route_hash (key_hash k)) (req_keys sample_move)"
    by (simp_all add: valid_session_route_hash_iff sample_hash_valid sample_move_def sample_key_def)
  moreover have "\<not> res_dry_run (action_result sample_move sample_plan)" "0 < res_generation (action_result sample_move sample_plan)"
    "res_status (action_result sample_move sample_plan) \<in> {Applied, Fallback}"
    by (simp_all add: action_result_def sample_move_def sample_plan_def)
  ultimately show ?thesis
    by (simp add: apply_session_route_handler_def Let_def sample_settings sample_with_connections not_less split: prod.splits)
qed

lemma applied_action_reroutes_connections_witness:
  "\<exists>reply dm'. apply_session_route_handler sample_sqlite 6 6 60 sample_move sample_daemon = (Inr reply, dm')
     \<and> map_option signal (connections (dm_registry dm') 1) = Some (Some 1)"
proof -
  obtain reply dm' where run: "apply_session_route_handler sample_sqlite 6 6 60 sample_move sample_daemon = (Inr reply, dm')"
    and r: "rp_action reply = action_result sample_move sample_plan"
    using sample_handler by blast
  have c: "connections (dm_registry sample_daemon) 1 = Some sample_entry" by (simp add: sample_registry)
  have "entry_keys sample_entry \<inter> candidate_hashes sample_move \<noteq> {}" "\<not> req_dry_run sample_move"
    "0 < res_generation (rp_action reply)" "res_status (rp_action reply) \<in> {Applied, Fallback}"
    by (auto simp: r sample_entry_def entry_keys_def candidate_hashes_def sample_move_def sample_plan_def action_result_def)
  from applied_action_reroutes_connections [OF sample_registry(1) c this(1) run this(2-4)] run
  show ?thesis by (auto simp: r sample_entry_def sample_plan_def action_result_def)
qed

section \<open>Properties\<close>

text \<open>
  C10: the parts of the daemon agree, whatever the order in which its tasks run.  In every reachable
  state the store's invariant holds and the in-flight counters are the leases that are out; no root
  is known to the registry at a generation the store has not reached; every signalled connection was
  opened before the generation it is signalled with.  When actions are announced in order, every
  live connection older than its root's generation is signalled with exactly that generation.
\<close>

theorem daemon_consistent:
  assumes "daemon_reachable q ordered (dm, S, M)"
  shows "store_ok (dm_db dm)
    \<and> (\<forall>aid r. get_runtime aid (dm_db dm) = Some r \<longrightarrow> rt_inflight r = int (count M aid))
    \<and> (\<forall>h g. generation_by_root (dm_registry dm) h = Some g \<longrightarrow> (\<exists>g' \<ge> g. key_generation (dm_db dm) h = Some g'))
    \<and> (\<forall>t e. connections (dm_registry dm) t = Some e \<longrightarrow>
          (\<forall>g. signal e = Some g \<longrightarrow> generation e < g)
          \<and> (\<forall>g. ordered \<longrightarrow> generation_by_root (dm_registry dm) (root_key_hash e) = Some g \<longrightarrow> generation e < g \<longrightarrow>
                signal e = Some g))"
proof -
  note ok = daemon_okD [OF daemon_ok_reachable [OF assms]]
  from ok(1) have "\<forall>aid r. get_runtime aid (dm_db dm) = Some r \<longrightarrow> rt_inflight r = int (count M aid)"
    by (simp add: leases_ok_def smart_pool.held_def load_def)
  moreover have "\<forall>h g. generation_by_root (dm_registry dm) h = Some g \<longrightarrow> (\<exists>g' \<ge> g. key_generation (dm_db dm) h = Some g')"
    using ok(2) by (simp add: signals_covered_def covered_def)
  moreover have "stale_signaled (dm_registry dm)" if ordered using ok(5) [OF that] reachable_invariants by blast
  moreover have "\<forall>t e. connections (dm_registry dm) t = Some e \<longrightarrow> (\<forall>g. signal e = Some g \<longrightarrow> generation e < g)"
    using ok(4) by (simp add: signals_newer_def)
  ultimately show ?thesis using ok(6) unfolding stale_signaled_def by blast
qed

text \<open>
  C11: the tasks that act on sessions are runs of the daemon's steps.  The handler of a route action
  and the scheduler's round over the pending actions lead from reachable states to reachable states;
  since each announces what it has committed before it goes on, they keep an ordered run ordered.
\<close>

theorem tasks_are_runs:
  assumes "daemon_reachable q ordered (dm, S, M)"
  shows "daemon_reachable q ordered (snd (apply_session_route_handler q sel now interval req dm), S, M)
    \<and> daemon_reachable q ordered (apply_pending_session_route_actions q clocks interval dm, S, M)"
proof -
  note ok = daemon_ok_reachable [OF assms]
  have "daemon_reachable q ordered (dm', S, M)" if "(daemon_step q ordered)\<^sup>*\<^sup>* (dm, S, M) (dm', S, M)" for dm'
    using assms that by (simp add: daemon_reachable_def)
  with handler_run [OF ok prod.collapse [symmetric]] pending_round_run [OF ok] show ?thesis by blast
qed

lemma sample_daemon_reachable: "daemon_reachable sample_sqlite True (sample_daemon, [], {#})"
proof -
  let ?c = "\<lparr>bc_account = 7, bc_keys = [sample_key], bc_epoch = None\<rparr>"
  let ?dm = "\<lparr>dm_db = sample_db, dm_registry = registry_default\<rparr>"
  have "store_step sample_sqlite (empty_db, {#}) (sample_db, {#})"
    unfolding sample_db_def by (rule store_step.step_import) simp
  with daemon_step.call_store [of sample_sqlite "\<lparr>dm_db = empty_db, dm_registry = registry_default\<rparr>" "{#}" sample_db "{#}" True "[]"]
  have "daemon_step sample_sqlite True daemon_start (?dm, [], {#})" by (simp add: daemon_start_def)
  note one = daemon_reachable_step [OF daemon_reachable_start this]
  have "register_connection ?c registry_default = (Some 1, dm_registry sample_daemon)"
    by (simp add: register_connection_def sample_key_def route_generation_def sample_daemon_def
        registry_default_def register_def canonical_root_def image_filter_insert Let_def)
  with daemon_step.connect [of ?dm ?c _ _ sample_sqlite True "[]" "{#}"]
  have "daemon_step sample_sqlite True (?dm, [], {#}) (sample_daemon, [], {#})"
    by (simp add: sample_daemon_def registry_default_def)
  from daemon_reachable_step [OF one this] show ?thesis .
qed

lemma daemon_consistent_witness:
  "\<exists>dm. daemon_reachable sample_sqlite True (dm, [], {#}) \<and> dm_db dm = moved_sample \<and> store_ok (dm_db dm)
     \<and> generation_by_root (dm_registry dm) sample_hash = Some 1"
proof -
  obtain reply dm' where run: "apply_session_route_handler sample_sqlite 6 6 60 sample_move sample_daemon = (Inr reply, dm')"
    using sample_handler by blast
  have m: "\<not> res_dry_run (action_result sample_move sample_plan)" "0 < res_generation (action_result sample_move sample_plan)"
    "res_status (action_result sample_move sample_plan) \<in> {Applied, Fallback}" "res_root (action_result sample_move sample_plan) = sample_hash"
    "res_generation (action_result sample_move sample_plan) = 1" "dm_db sample_daemon = sample_db"
    by (simp_all add: action_result_def sample_move_def sample_plan_def sample_daemon_def)
  have d: "dm' = snd (signal_action sample_move (action_result sample_move sample_plan) (sample_daemon\<lparr>dm_db := moved_sample\<rparr>))"
    using run m by (auto simp: apply_session_route_handler_def Let_def sample_settings sample_with_connections
        split: if_splits prod.splits)
  have "generation_by_root (dm_registry sample_daemon) = Map.empty"
    by (simp add: sample_daemon_def registry_default_def register_def canonical_root_def image_filter_insert Let_def)
  then have f: "dm_db dm' = moved_sample" "generation_by_root (dm_registry dm') sample_hash = Some 1"
    by (simp_all add: d signal_action_fields signal_fields(5) m)
  have "daemon_reachable sample_sqlite True (dm', [], {#})"
    using daemon_ok_reachable [OF sample_daemon_reachable] handler_run [OF _ run] sample_daemon_reachable
    by (fastforce simp: daemon_reachable_def)
  with daemon_consistent [OF this] f show ?thesis by blast
qed

lemma tasks_are_runs_witness:
  "daemon_reachable sample_sqlite True (apply_pending_session_route_actions sample_sqlite (\<lambda>_. (6, 6)) 60 sample_daemon, [], {#})"
  using tasks_are_runs [OF sample_daemon_reachable] by blast

end
