(* ===== verification/Session_Catalog.thy ===== *)
theory Session_Catalog
  imports Requests
begin

text \<open>
  The catalog of local sessions (\<open>src/cli.rs\<close>): the command line reads the rollout files below the
  Codex directory, groups them into the trees of their root sessions and derives the keys an action
  on a session is sent with.  Files and directories are their contents; the JSON text parser and the
  UUID parser and printer are parameters.  A hash map of nodes is a list in its iteration order.
\<close>

section \<open>Nodes and the catalog\<close>

record rollout_node =
  nd_id :: uuid
  nd_session :: "uuid option"
  nd_parent :: "uuid option"
  nd_forked :: "uuid option"
  nd_modified :: int

record catalog =
  cat_nodes :: "rollout_node list"
  cat_issues :: "uuid \<rightharpoonup> string"

definition catalog_default :: catalog where
  "catalog_default = \<lparr>cat_nodes = [], cat_issues = Map.empty\<rparr>"

abbreviation find_node :: "catalog \<Rightarrow> uuid \<Rightarrow> rollout_node option" where
  "find_node c i \<equiv> tbl_find nd_id i (cat_nodes c)"

abbreviation add_issue :: "uuid \<Rightarrow> string \<Rightarrow> catalog \<Rightarrow> catalog" where
  "add_issue i m c \<equiv> c\<lparr>cat_issues := (cat_issues c)(i \<mapsto> m)\<rparr>"

definition has_same_links :: "rollout_node \<Rightarrow> rollout_node \<Rightarrow> bool" where
  "has_same_links a b \<longleftrightarrow> nd_session a = nd_session b \<and> nd_parent a = nd_parent b \<and> nd_forked a = nd_forked b"

definition parent_id :: "rollout_node \<Rightarrow> uuid option" where
  "parent_id n = or_else (nd_parent n) (nd_forked n)"

definition insert_node :: "rollout_node \<Rightarrow> catalog \<Rightarrow> catalog" where
  "insert_node n c =
     (case find_node c (nd_id n) of
        None \<Rightarrow> c\<lparr>cat_nodes := cat_nodes c @ [n]\<rparr>
      | Some old \<Rightarrow>
          (let c1 = (if has_same_links old n then c
                     else add_issue (nd_id n) ''conflicting session metadata exists for one rollout ID'' c)
           in if nd_modified old < nd_modified n
              then c1\<lparr>cat_nodes := tbl_update (\<lambda>r. nd_id r = nd_id n) (\<lambda>r. r\<lparr>nd_modified := nd_modified n\<rparr>) (cat_nodes c1)\<rparr>
              else c1))"

section \<open>Reading a rollout file\<close>

text \<open>A line of a file is \<open>None\<close> where reading it fails.\<close>

record rollout_file =
  rf_name :: string
  rf_path :: string
  rf_modified :: "int option"
  rf_opens :: bool
  rf_lines :: "string option list"

definition meta_line_limit :: nat where
  "meta_line_limit = 64"

definition meta_byte_limit :: nat where
  "meta_byte_limit = 1024 * 1024"

definition is_session_meta :: "json \<Rightarrow> bool" where
  "is_session_meta v \<longleftrightarrow> Option.bind (jget ''type'' v) as_str = Some ''session_meta''"

fun scan_meta :: "(string \<Rightarrow> json option) \<Rightarrow> string \<Rightarrow> nat \<Rightarrow> nat \<Rightarrow> string option list \<Rightarrow> string + json option" where
  "scan_meta js path 0 seen ls = Inr None"
| "scan_meta js path (Suc n) seen [] = Inr None"
| "scan_meta js path (Suc n) seen (None # ls) = Inl (''reading '' @ path)"
| "scan_meta js path (Suc n) seen (Some l # ls) =
     (if meta_byte_limit < seen + length l then Inr None
      else case js l of
             None \<Rightarrow> scan_meta js path n (seen + length l) ls
           | Some v \<Rightarrow> if is_session_meta v then Inr (Some v) else scan_meta js path n (seen + length l) ls)"

definition first_session_meta :: "(string \<Rightarrow> json option) \<Rightarrow> rollout_file \<Rightarrow> string + json option" where
  "first_session_meta js f =
     (if rf_opens f then scan_meta js (rf_path f) meta_line_limit 0 (rf_lines f) else Inl (''opening '' @ rf_path f))"

definition required_uuid_field :: "(string \<Rightarrow> uuid option) \<Rightarrow> json option \<Rightarrow> string \<Rightarrow> string + uuid" where
  "required_uuid_field pu v name =
     (case Option.bind v as_str of
        None \<Rightarrow> Inl (''session_meta payload.'' @ name @ '' must be a UUID string'')
      | Some s \<Rightarrow> if trim s = [] then Inl (''session_meta payload.'' @ name @ '' must be a UUID string'')
                  else ok_or (pu s) (''session_meta payload.'' @ name @ '' must be a UUID''))"

definition optional_uuid_field :: "(string \<Rightarrow> uuid option) \<Rightarrow> json option \<Rightarrow> string \<Rightarrow> string + uuid option" where
  "optional_uuid_field pu v name =
     (case v of
        None \<Rightarrow> Inr None
      | Some JNull \<Rightarrow> Inr None
      | Some (JString s) \<Rightarrow>
          if trim s = [] then Inr None
          else map_sum id Some (ok_or (pu s) (''session_meta payload.'' @ name @ '' must be a UUID''))
      | Some _ \<Rightarrow> Inl (''session_meta payload.'' @ name @ '' must be a UUID string''))"

definition rollout_node_from_meta :: "(string \<Rightarrow> uuid option) \<Rightarrow> json \<Rightarrow> int \<Rightarrow> string + rollout_node" where
  "rollout_node_from_meta pu meta modified =
     (case Option.bind (jget ''payload'' meta) as_object of
        None \<Rightarrow> Inl ''session_meta payload must be an object''
      | Some p \<Rightarrow>
          app_bind (required_uuid_field pu (map_of p ''id'') ''id'') (\<lambda>i.
          app_bind (optional_uuid_field pu (map_of p ''session_id'') ''session_id'') (\<lambda>s.
          app_bind (optional_uuid_field pu (map_of p ''parent_thread_id'') ''parent_thread_id'') (\<lambda>pt.
          app_bind (optional_uuid_field pu (map_of p ''forked_from_id'') ''forked_from_id'') (\<lambda>f.
            Inr \<lparr>nd_id = i, nd_session = s, nd_parent = pt, nd_forked = f, nd_modified = modified\<rparr>)))))"

text \<open>\<open>Path::extension\<close> and \<open>Path::file_stem\<close>: the name is split at its last dot, unless that is the
  first character.\<close>

fun last_dot :: "string \<Rightarrow> (string \<times> string) option" where
  "last_dot [] = None"
| "last_dot (c # cs) =
     (case last_dot cs of
        Some (before, after) \<Rightarrow> Some (c # before, after)
      | None \<Rightarrow> if c = CHR ''.'' then Some ([], cs) else None)"

definition extension :: "string \<Rightarrow> string option" where
  "extension name =
     (if name = ''..'' then None
      else case last_dot name of None \<Rightarrow> None | Some (before, after) \<Rightarrow> if before = [] then None else Some after)"

definition file_stem :: "string \<Rightarrow> string" where
  "file_stem name =
     (if name = ''..'' then name
      else case last_dot name of None \<Rightarrow> name | Some (before, after) \<Rightarrow> if before = [] then name else before)"

text \<open>\<open>str::get(k..)\<close>: nothing unless \<open>k\<close> is at the start of a character or at the end.\<close>

definition str_from :: "nat \<Rightarrow> string \<Rightarrow> string option" where
  "str_from k s =
     (if k = length s \<or> (k < length s \<and> \<not> (128 \<le> byte (s ! k) \<and> byte (s ! k) < 192)) then Some (drop k s) else None)"

definition session_id_from_rollout_path :: "(string \<Rightarrow> uuid option) \<Rightarrow> string \<Rightarrow> uuid option" where
  "session_id_from_rollout_path pu name =
     (if extension name \<noteq> Some ''jsonl'' then None
      else if length (file_stem name) < 36 then None
      else Option.bind (str_from (length (file_stem name) - 36) (file_stem name)) pu)"

section \<open>Discovering the catalog\<close>

text \<open>A directory is \<open>None\<close> where reading it fails.  Entries that are symbolic links are neither
  files nor directories.\<close>

datatype fs_entry =
    Fs_Dir string "fs_entry list option"
  | Fs_File rollout_file
  | Fs_Other
  | Fs_Failed string

definition add_session :: "(string \<Rightarrow> uuid option) \<Rightarrow> rollout_file \<Rightarrow> json \<Rightarrow> catalog \<Rightarrow> catalog" where
  "add_session pu f meta c =
     (let filename_id = session_id_from_rollout_path pu (rf_name f) in
      case rollout_node_from_meta pu meta (or_default (rf_modified f) 0) of
        Inr n \<Rightarrow>
          (let message = ''session metadata ID does not match rollout filename '' @ rf_path f;
               c1 = (case filename_id of
                       Some i \<Rightarrow> if i \<noteq> nd_id n then add_issue (nd_id n) message (add_issue i message c) else c
                     | None \<Rightarrow> c);
               c2 = (case (nd_parent n, nd_forked n) of
                       (Some p, Some k) \<Rightarrow>
                         if p \<noteq> k then add_issue (nd_id n) ''session metadata has conflicting parent and fork IDs'' c1 else c1
                     | _ \<Rightarrow> c1)
           in insert_node n c2)
      | Inl e \<Rightarrow>
          (case filename_id of
             Some i \<Rightarrow> add_issue i (''invalid session metadata in '' @ rf_path f @ '': '' @ e) c
           | None \<Rightarrow> c))"

definition add_file :: "(string \<Rightarrow> json option) \<Rightarrow> (string \<Rightarrow> uuid option) \<Rightarrow> rollout_file \<Rightarrow> catalog \<Rightarrow> string + catalog" where
  "add_file js pu f c =
     app_bind (first_session_meta js f) (\<lambda>found.
       case found of
         Some meta \<Rightarrow> Inr (add_session pu f meta c)
       | None \<Rightarrow>
           (case session_id_from_rollout_path pu (rf_name f) of
              Some i \<Rightarrow> Inr (insert_node \<lparr>nd_id = i, nd_session = None, nd_parent = None, nd_forked = None,
                                        nd_modified = or_default (rf_modified f) 0\<rparr> c)
            | None \<Rightarrow> Inr c))"

text \<open>The entries of one directory; subdirectories go on the stack.\<close>

fun scan_entries ::
  "(string \<Rightarrow> json option) \<Rightarrow> (string \<Rightarrow> uuid option) \<Rightarrow> fs_entry list \<Rightarrow> (string \<times> fs_entry list option) list \<Rightarrow> catalog
     \<Rightarrow> string + (string \<times> fs_entry list option) list \<times> catalog" where
  "scan_entries js pu [] ds c = Inr (ds, c)"
| "scan_entries js pu (Fs_Dir p es # rest) ds c = scan_entries js pu rest ((p, es) # ds) c"
| "scan_entries js pu (Fs_File f # rest) ds c =
     (if extension (rf_name f) = Some ''jsonl'' then app_bind (add_file js pu f c) (scan_entries js pu rest ds)
      else scan_entries js pu rest ds c)"
| "scan_entries js pu (Fs_Other # rest) ds c = scan_entries js pu rest ds c"
| "scan_entries js pu (Fs_Failed e # rest) ds c = Inl e"

fun directories_in :: "fs_entry \<Rightarrow> nat" where
  "directories_in (Fs_Dir p None) = 1"
| "directories_in (Fs_Dir p (Some es)) = 1 + sum_list (map directories_in es)"
| "directories_in _ = 0"

abbreviation stack_weight :: "(string \<times> fs_entry list option) list \<Rightarrow> nat" where
  "stack_weight ds \<equiv> sum_list (map (\<lambda>(p, es). directories_in (Fs_Dir p es)) ds)"

lemma scan_entries_weight:
  "scan_entries js pu es ds c = Inr (ds', c') \<Longrightarrow> stack_weight ds' = stack_weight ds + sum_list (map directories_in es)"
  by (induction js pu es ds c rule: scan_entries.induct) (auto split: if_splits)

lemma app_bind_cong [fundef_cong]:
  "r = r' \<Longrightarrow> (\<And>x. r' = Inr x \<Longrightarrow> f x = g x) \<Longrightarrow> app_bind r f = app_bind r' g"
  by (cases r') auto

function discover_loop ::
  "(string \<Rightarrow> json option) \<Rightarrow> (string \<Rightarrow> uuid option) \<Rightarrow> (string \<times> fs_entry list option) list \<Rightarrow> catalog \<Rightarrow> string + catalog" where
  "discover_loop js pu [] c = Inr c"
| "discover_loop js pu ((p, None) # ds) c = Inl (''reading Codex directory '' @ p)"
| "discover_loop js pu ((p, Some es) # ds) c =
     app_bind (scan_entries js pu es ds c) (\<lambda>(ds', c'). discover_loop js pu ds' c')"
  by pat_completeness auto
termination
  by (relation "measure (\<lambda>(js, pu, ds, c). stack_weight ds)") (auto dest: scan_entries_weight)

text \<open>\<open>None\<close>: the Codex directory does not exist.\<close>

definition discover ::
  "(string \<Rightarrow> json option) \<Rightarrow> (string \<Rightarrow> uuid option) \<Rightarrow> (string \<times> fs_entry list option) option \<Rightarrow> string + catalog" where
  "discover js pu start =
     (case start of None \<Rightarrow> Inr catalog_default | Some dir \<Rightarrow> discover_loop js pu [dir] catalog_default)"

end
