(* ===== verification/Session_Trees.thy ===== *)
theory Session_Trees
  imports Session_Catalog
begin

text \<open>
  The trees of the session catalog (\<open>src/cli.rs\<close>): the root of a session, the trees of all
  sessions, the connected part of the catalog an action is checked against, and the keys it is sent
  with.  The recursion to the root is bounded by the set of nodes being visited.
\<close>

section \<open>The root of a session\<close>

definition cycle_error :: string where
  "cycle_error = ''cannot resolve this session tree because its parent graph contains a cycle''"

definition issue_error :: "string \<Rightarrow> string" where
  "issue_error m = ''cannot resolve this session tree: '' @ m"

text \<open>The set of nodes being visited is threaded through the calls, as in the code; an error ends
  the resolution and drops it.\<close>

function resolve_root :: "catalog \<Rightarrow> uuid \<Rightarrow> uuid set \<Rightarrow> string + (uuid \<times> uuid set)" where
  "resolve_root c i v =
     (case cat_issues c i of
        Some m \<Rightarrow> Inl (issue_error m)
      | None \<Rightarrow>
          (case find_node c i of
             None \<Rightarrow> Inr (i, v)
           | Some n \<Rightarrow>
               if i \<in> v then Inl cycle_error
               else app_bind
                 (case nd_session n of
                    Some s \<Rightarrow>
                      app_bind
                        (if s = i then Inr (i, insert i v)
                         else if find_node c s \<noteq> None then
                           app_bind (resolve_root c s (insert i v)) (\<lambda>(r, v1).
                             if r \<noteq> s then Inl ''cannot resolve this session tree because its authoritative root is not a root''
                             else Inr (s, v1))
                         else (case cat_issues c s of Some m \<Rightarrow> Inl (issue_error m) | None \<Rightarrow> Inr (s, insert i v)))
                        (\<lambda>(a, v2).
                           case parent_id n of
                             None \<Rightarrow> Inr (a, v2)
                           | Some p \<Rightarrow>
                               app_bind (resolve_root c p v2) (\<lambda>(pr, v3).
                                 if pr \<noteq> a then Inl ''cannot resolve this session tree because its session_id conflicts with its parent root''
                                 else Inr (a, v3)))
                  | None \<Rightarrow>
                      (case parent_id n of Some p \<Rightarrow> resolve_root c p (insert i v) | None \<Rightarrow> Inr (i, insert i v)))
                 (\<lambda>(r, v4). Inr (r, v4 - {i}))))"
  by pat_completeness auto

text \<open>A resolution that succeeds has left every node it visited.\<close>

lemma resolve_root_visiting:
  "resolve_root_dom (c, i, v) \<Longrightarrow> resolve_root c i v = Inr (r, v') \<Longrightarrow> v' = v"
proof (induction arbitrary: r v' rule: resolve_root.pinduct)
  case (1 c i v)
  note eq = resolve_root.psimps [OF 1(1)]
  show ?case
  proof (cases "cat_issues c i \<noteq> None \<or> find_node c i = None \<or> i \<in> v")
    case True
    with 1(5) show ?thesis unfolding eq by (auto split: option.splits if_splits)
  next
    case False
    then obtain n where n: "cat_issues c i = None" "find_node c i = Some n" "i \<notin> v" by auto
    note eq' = 1(5) [unfolded eq n(1,2) option.case if_not_P [OF n(3)] app_bind_Inr]
    show ?thesis
    proof (cases "nd_session n")
      case None
      with eq' 1(2) [OF n None] n(3) show ?thesis by (auto split: option.splits)
    next
      case (Some s)
      from eq' obtain a v2 where first: "(if s = i then Inr (i, insert i v)
                         else if find_node c s \<noteq> None then
                           app_bind (resolve_root c s (insert i v)) (\<lambda>(r, v1).
                             if r \<noteq> s then Inl ''cannot resolve this session tree because its authoritative root is not a root''
                             else Inr (s, v1))
                         else (case cat_issues c s of Some m \<Rightarrow> Inl (issue_error m) | None \<Rightarrow> Inr (s, insert i v))) = Inr (a, v2)"
        and last: "v' = (case parent_id n of None \<Rightarrow> v2 | Some p \<Rightarrow> snd (projr (resolve_root c p v2))) - {i}"
        "\<And>p. parent_id n = Some p \<Longrightarrow> \<exists>pr v3. resolve_root c p v2 = Inr (pr, v3)"
        by (auto simp: Some split: option.splits if_splits)
      have v2: "v2 = insert i v"
        using first 1(3) [OF n Some] by (auto split: if_splits option.splits)
      show ?thesis
      proof (cases "parent_id n")
        case None
        with last(1) v2 n(3) show ?thesis by simp
      next
        case (Some p)
        with last(2) obtain pr v3 where p: "resolve_root c p v2 = Inr (pr, v3)" by blast
        with 1(4) [OF n \<open>nd_session n = Some s\<close> first refl Some] have "v3 = v2" by simp
        with last(1) Some p v2 n(3) show ?thesis by simp
      qed
    qed
  qed
qed

definition node_ids :: "catalog \<Rightarrow> uuid set" where
  "node_ids c = nd_id ` set (cat_nodes c)"

lemma find_node_in: "find_node c i \<noteq> None \<longleftrightarrow> i \<in> node_ids c"
  by (simp add: node_ids_def find_None_iff_key)

lemma visit_less: "find_node c i = Some n \<Longrightarrow> i \<notin> v \<Longrightarrow> card (node_ids c - insert i v) < card (node_ids c - v)"
  by (rule psubset_card_mono) (use find_node_in [of i c] in \<open>auto simp: node_ids_def\<close>)

lemma resolve_root_total: "All resolve_root_dom"
proof (relation "measure (\<lambda>(c, i, v). card (node_ids c - v))", goal_cases)
  case (4 c i v n s x a v2 p)
  have "v2 = insert i v"
    using 4(5,6) resolve_root_visiting [OF 4(8)] by (auto split: if_splits option.splits)
  with visit_less [OF 4(2,3)] show ?case by simp
qed (simp_all add: visit_less)

termination resolve_root
  by (rule resolve_root_total)

declare resolve_root.simps [simp del]

lemma resolve_root_back: "resolve_root c i v = Inr (r, v') \<Longrightarrow> v' = v"
  by (rule resolve_root_visiting [OF resolve_root_total [rule_format]])

lemma resolve_root_issue: "resolve_root c i v = Inr (r, v') \<Longrightarrow> cat_issues c i = None"
  by (simp add: resolve_root.simps [of c i] split: option.splits)

text \<open>What a successful resolution tells of the node it started from.\<close>

lemma resolve_root_Inr:
  assumes "resolve_root c i v = Inr (r, v')"
  obtains "find_node c i = None" "cat_issues c i = None" "r = i"
  | n where "find_node c i = Some n" "cat_issues c i = None" "i \<notin> v" "nd_session n = None" "parent_id n = None" "r = i"
  | n p where "find_node c i = Some n" "cat_issues c i = None" "i \<notin> v" "nd_session n = None" "parent_id n = Some p"
      "resolve_root c p (insert i v) = Inr (r, insert i v)"
  | n where "find_node c i = Some n" "cat_issues c i = None" "i \<notin> v" "nd_session n = Some r"
      "r = i \<or> find_node c r = None \<and> cat_issues c r = None \<or> resolve_root c r (insert i v) = Inr (r, insert i v)"
      "\<And>p. parent_id n = Some p \<Longrightarrow> resolve_root c p (insert i v) = Inr (r, insert i v)"
proof (cases "find_node c i")
  case None
  with assms that(1) show ?thesis by (auto simp: resolve_root.simps [of c i] split: option.splits)
next
  case (Some n)
  then have n: "cat_issues c i = None" "i \<notin> v"
    using assms by (auto simp: resolve_root.simps [of c i] split: option.splits if_splits)
  note eq = assms [unfolded resolve_root.simps [of c i v] n(1) Some option.case if_not_P [OF n(2)] app_bind_Inr]
  show ?thesis
  proof (cases "nd_session n")
    case None
    show ?thesis
    proof (cases "parent_id n")
      case None
      with eq \<open>nd_session n = None\<close> that(2) [OF Some n] show ?thesis by auto
    next
      case p: (Some p)
      with eq None obtain v1 where "resolve_root c p (insert i v) = Inr (r, v1)" by auto
      with resolve_root_back [OF this] that(3) [OF Some n None p] show ?thesis by simp
    qed
  next
    case s: (Some s)
    from eq obtain v2 where first: "(if s = i then Inr (i, insert i v)
                         else if find_node c s \<noteq> None then
                           app_bind (resolve_root c s (insert i v)) (\<lambda>(r, v1).
                             if r \<noteq> s then Inl ''cannot resolve this session tree because its authoritative root is not a root''
                             else Inr (s, v1))
                         else (case cat_issues c s of Some m \<Rightarrow> Inl (issue_error m) | None \<Rightarrow> Inr (s, insert i v))) = Inr (r, v2)"
      and last: "\<And>p. parent_id n = Some p \<Longrightarrow> \<exists>v3. resolve_root c p v2 = Inr (r, v3)"
      by (auto simp: s split: option.splits if_splits)
    have v2: "v2 = insert i v" "r = s"
      "r = i \<or> find_node c r = None \<and> cat_issues c r = None \<or> resolve_root c r (insert i v) = Inr (r, insert i v)"
      using first resolve_root_back [of c s "insert i v"] by (auto split: if_splits option.splits)
    have "resolve_root c p (insert i v) = Inr (r, insert i v)" if "parent_id n = Some p" for p
      using last [OF that] resolve_root_back [of c p "insert i v"] v2(1) by auto
    with that(4) [OF Some n] s v2 show ?thesis by simp
  qed
qed

text \<open>The nodes being visited can only make a resolution fail.\<close>

lemma resolve_root_mono:
  "resolve_root c i v = Inr (r, v') \<Longrightarrow> w \<subseteq> v \<Longrightarrow> resolve_root c i w = Inr (r, w)"
proof (induction c i v arbitrary: r v' w rule: resolve_root.induct)
  case (1 c i v)
  have w: "i \<notin> v \<Longrightarrow> i \<notin> w" "insert i w \<subseteq> insert i v" using 1(5) by auto
  from 1(4) show ?case
  proof (cases rule: resolve_root_Inr)
    case 1
    then show ?thesis by (simp add: resolve_root.simps [of c i])
  next
    case (2 n)
    with w show ?thesis by (simp add: resolve_root.simps [of c i])
  next
    case (3 n p)
    from "1.IH"(1) [OF 3(2,1,3-5,6) w(2)] 3 w(1) show ?thesis
      by (simp add: resolve_root.simps [of c i w])
  next
    case (4 n)
    have first: "(if r = i then Inr (i, insert i u)
        else if find_node c r \<noteq> None then
          app_bind (resolve_root c r (insert i u)) (\<lambda>(x, v1).
            if x \<noteq> r then Inl ''cannot resolve this session tree because its authoritative root is not a root''
            else Inr (r, v1))
        else (case cat_issues c r of Some m \<Rightarrow> Inl (issue_error m) | None \<Rightarrow> Inr (r, insert i u))) = Inr (r, insert i u)"
      if u: "r = i \<or> find_node c r = None \<and> cat_issues c r = None \<or> resolve_root c r (insert i u) = Inr (r, insert i u)" for u
      using u resolve_root_issue [of c r "insert i u"] by auto
    have s: "r = i \<or> find_node c r = None \<and> cat_issues c r = None \<or> resolve_root c r (insert i w) = Inr (r, insert i w)"
      using 4(5) "1.IH"(2) [OF 4(2,1,3,4) _ _ _ w(2)] resolve_root_issue by blast
    show ?thesis
    proof (cases "parent_id n")
      case None
      with 4(1-4) w(1) first [OF s] show ?thesis by (simp add: resolve_root.simps [of c i w])
    next
      case (Some p)
      from "1.IH"(3) [OF 4(2,1,3,4) first [OF 4(5)] refl Some 4(6) [OF Some] w(2)]
      show ?thesis using 4(1-4) w(1) first [OF s] Some by (simp add: resolve_root.simps [of c i w])
    qed
  qed
qed

text \<open>\<open>canonical_root_of\<close> starts with nothing being visited.\<close>

definition canonical_root_of :: "catalog \<Rightarrow> uuid \<Rightarrow> string + uuid" where
  "canonical_root_of c i = map_sum id fst (resolve_root c i {})"

lemma canonical_Inr: "canonical_root_of c i = Inr r \<longleftrightarrow> resolve_root c i {} = Inr (r, {})"
  using resolve_root_back [of c i "{}"] by (cases "resolve_root c i {}") (auto simp: canonical_root_of_def)

lemma resolve_canonical: "resolve_root c i v = Inr (r, v') \<Longrightarrow> canonical_root_of c i = Inr r"
  using resolve_root_mono [of c i v r v' "{}"] by (simp add: canonical_Inr)

lemma canonical_unknown: "find_node c i = None \<Longrightarrow> cat_issues c i = None \<Longrightarrow> canonical_root_of c i = Inr i"
  by (simp add: canonical_Inr resolve_root.simps [of c i])

lemma canonical_issue: "canonical_root_of c i = Inr r \<Longrightarrow> cat_issues c i = None"
  by (simp add: canonical_Inr resolve_root_issue)

text \<open>A root is its own root, and a session, its parent and its session identifier have one root.\<close>

lemma resolve_root_root: "resolve_root c i v = Inr (r, v') \<Longrightarrow> canonical_root_of c r = Inr r"
proof (induction c i v arbitrary: r v' rule: resolve_root.induct)
  case (1 c i v)
  from 1(4) have me: "canonical_root_of c i = Inr r" by (rule resolve_canonical)
  from 1(4) show ?case
  proof (cases rule: resolve_root_Inr)
    case (3 n p)
    from "1.IH"(1) [OF 3(2,1,3-5,6)] show ?thesis .
  next
    case (4 n)
    then show ?thesis using me resolve_canonical [of c r] canonical_unknown [of r c] by blast
  qed (use me in simp_all)
qed

lemma canonical_root_idem: "canonical_root_of c i = Inr r \<Longrightarrow> canonical_root_of c r = Inr r"
  unfolding canonical_Inr [of c i] by (rule resolve_root_root)

lemma canonical_links:
  assumes "canonical_root_of c i = Inr r" "find_node c i = Some n"
  shows "nd_session n = Some s \<Longrightarrow> s = r" "parent_id n = Some p \<Longrightarrow> canonical_root_of c p = Inr r"
    "nd_session n = None \<Longrightarrow> parent_id n = None \<Longrightarrow> r = i"
proof -
  from assms(1) [unfolded canonical_Inr]
  have "(\<forall>s. nd_session n = Some s \<longrightarrow> s = r) \<and> (\<forall>p. parent_id n = Some p \<longrightarrow> canonical_root_of c p = Inr r)
     \<and> (nd_session n = None \<longrightarrow> parent_id n = None \<longrightarrow> r = i)"
    by (cases rule: resolve_root_Inr) (use assms(2) in \<open>auto dest: resolve_canonical\<close>)
  then show "nd_session n = Some s \<Longrightarrow> s = r" "parent_id n = Some p \<Longrightarrow> canonical_root_of c p = Inr r"
    "nd_session n = None \<Longrightarrow> parent_id n = None \<Longrightarrow> r = i" by blast+
qed

section \<open>Trees\<close>

record session_tree =
  tree_root :: uuid
  tree_members :: "uuid list"
  tree_modified :: int

definition node_links :: "rollout_node \<Rightarrow> uuid list" where
  "node_links n = List.map_filter id [nd_session n, nd_parent n, nd_forked n]"

text \<open>A group: the members of a root and its latest change.\<close>

type_synonym tree_group = "uuid \<times> uuid set \<times> int"

definition join_group :: "catalog \<Rightarrow> rollout_node \<Rightarrow> tree_group \<Rightarrow> tree_group" where
  "join_group c n g =
     (case g of (r, members, modified) \<Rightarrow>
        (r, insert (nd_id n) members \<union> set (filter (\<lambda>a. canonical_root_of c a = Inr r) (node_links n)),
         if modified < nd_modified n then nd_modified n else modified))"

definition add_to_groups :: "catalog \<Rightarrow> rollout_node \<Rightarrow> tree_group list \<Rightarrow> tree_group list" where
  "add_to_groups c n gs =
     (case canonical_root_of c (nd_id n) of
        Inl _ \<Rightarrow> gs
      | Inr r \<Rightarrow>
          map (\<lambda>g. if fst g = r then join_group c n g else g)
            (if r \<in> fst ` set gs then gs else gs @ [(r, {r}, 0)]))"

definition tree_of_group :: "tree_group \<Rightarrow> session_tree" where
  "tree_of_group g = (case g of (r, members, modified) \<Rightarrow>
     \<lparr>tree_root = r, tree_members = sorted_list_of_set members, tree_modified = modified\<rparr>)"

definition session_trees :: "catalog \<Rightarrow> session_tree list" where
  "session_trees c =
     sort_key (\<lambda>t. (- tree_modified t, tree_root t))
       (map tree_of_group (fold (add_to_groups c) (cat_nodes c) []))"

definition tree_for :: "catalog \<Rightarrow> uuid \<Rightarrow> string + session_tree" where
  "tree_for c i =
     app_bind (canonical_root_of c i) (\<lambda>r.
       Inr (or_default (List.find (\<lambda>t. tree_root t = r) (session_trees c))
              \<lparr>tree_root = r, tree_members = [r], tree_modified = 0\<rparr>))"

section \<open>The connected part of the catalog\<close>

definition related :: "rollout_node \<Rightarrow> uuid list" where
  "related n = nd_id n # node_links n"

definition connect_node :: "rollout_node \<Rightarrow> uuid set \<times> bool \<Rightarrow> uuid set \<times> bool" where
  "connect_node n s =
     (case s of (con, changed) \<Rightarrow>
        if list_ex (\<lambda>x. x \<in> con) (related n)
        then fold (\<lambda>x (con, ch). (insert x con, ch \<or> x \<notin> con)) (related n) (con, changed)
        else (con, changed))"

definition connect_pass :: "catalog \<Rightarrow> uuid set \<Rightarrow> uuid set \<times> bool" where
  "connect_pass c con = fold connect_node (cat_nodes c) (con, False)"

definition related_ids :: "catalog \<Rightarrow> uuid set" where
  "related_ids c = (\<Union>n \<in> set (cat_nodes c). set (related n))"

lemma fold_connect:
  "fold (\<lambda>x (con, ch). (insert x con, ch \<or> x \<notin> con)) xs (con, ch) = (con \<union> set xs, ch \<or> \<not> set xs \<subseteq> con)"
  by (induction xs arbitrary: con ch) auto

lemma connect_node_eq:
  "connect_node n (con, ch) = (if set (related n) \<inter> con = {} then (con, ch)
     else (con \<union> set (related n), ch \<or> \<not> set (related n) \<subseteq> con))"
  by (auto simp: connect_node_def list_ex_iff fold_connect)

text \<open>A pass grows the set by related identifiers; it reports a change just when it grew.\<close>

lemma connect_node_cases:
  assumes "connect_node n (con, ch) = (con1, ch1)"
  obtains "con1 = con" "ch1 = ch" "set (related n) \<inter> con \<noteq> {} \<Longrightarrow> set (related n) \<subseteq> con"
  | "con1 = con \<union> set (related n)" "ch1" "con1 \<noteq> con"
  using assms by (cases "set (related n) \<subseteq> con") (auto simp: connect_node_eq Un_absorb2 split: if_splits)

lemma fold_connect_node:
  assumes "fold connect_node ns (con, ch) = (con', ch')"
  shows "con \<subseteq> con' \<and> con' \<subseteq> con \<union> (\<Union>n \<in> set ns. set (related n)) \<and> (ch' \<longleftrightarrow> ch \<or> con' \<noteq> con)
    \<and> (con' = con \<longrightarrow> (\<forall>n \<in> set ns. set (related n) \<inter> con \<noteq> {} \<longrightarrow> set (related n) \<subseteq> con))"
  using assms
proof (induction ns arbitrary: con ch)
  case (Cons n ns)
  obtain con1 ch1 where one: "connect_node n (con, ch) = (con1, ch1)" by fastforce
  with Cons.prems have "fold connect_node ns (con1, ch1) = (con', ch')" by simp
  note IH = Cons.IH [OF this]
  from one show ?case
  proof (cases rule: connect_node_cases)
    case 1
    with IH show ?thesis by auto
  next
    case 2
    then have "con \<subset> con1" by blast
    with IH have "con' \<noteq> con" by blast
    with IH 2 \<open>con \<subset> con1\<close> show ?thesis by (simp add: le_supI1 sup_assoc)
  qed
qed simp

function connect_loop :: "catalog \<Rightarrow> uuid set \<Rightarrow> uuid set" where
  "connect_loop c con =
     (let (con', changed) = connect_pass c con
      in if changed then connect_loop c con' else con')"
  by pat_completeness auto
termination
proof (relation "measure (\<lambda>(c, s). card (related_ids c - s))", goal_cases)
  case (2 c s x s' changed)
  then have "fold connect_node (cat_nodes c) (s, False) = (s', True)" by (simp add: connect_pass_def)
  from fold_connect_node [OF this] have "s \<subseteq> s'" "s' \<subseteq> s \<union> related_ids c" "s' \<noteq> s"
    by (simp_all add: related_ids_def)
  then have "related_ids c - s' \<subset> related_ids c - s" by blast
  moreover have "finite (related_ids c - s)" by (simp add: related_ids_def)
  ultimately show ?case by (simp add: psubset_card_mono)
qed simp

declare connect_loop.simps [simp del]

definition connected_ids :: "catalog \<Rightarrow> uuid \<Rightarrow> uuid set" where
  "connected_ids c i = connect_loop c {i}"

text \<open>\<open>order\<close> is the order in which the set of connected identifiers is iterated.\<close>

fun check_roots :: "catalog \<Rightarrow> uuid list \<Rightarrow> string + unit" where
  "check_roots c [] = Inr ()"
| "check_roots c (i # is) =
     (if find_node c i \<noteq> None then app_bind (canonical_root_of c i) (\<lambda>_. check_roots c is) else check_roots c is)"

definition mutation_tree_for :: "(uuid set \<Rightarrow> uuid list) \<Rightarrow> catalog \<Rightarrow> uuid \<Rightarrow> string + session_tree" where
  "mutation_tree_for order c i =
     (let con = order (connected_ids c i) in
      case List.map_filter (cat_issues c) con of
        issue # _ \<Rightarrow> Inl (''cannot mutate session routes because the requested rollout tree has inconsistent metadata: '' @ issue)
      | [] \<Rightarrow> app_bind (check_roots c con) (\<lambda>_. tree_for c i))"

end
