(* ===== verification/Session_Tree_Properties.thy ===== *)
theory Session_Tree_Properties
  imports Session_Trees
begin

text \<open>
  What the session catalog promises: the trees are the classes of the sessions with a common root,
  the connected part of the catalog is the reachable one, and an action covers exactly that part.
\<close>

section \<open>The connected identifiers are the reachable ones\<close>

definition linked :: "catalog \<Rightarrow> (uuid \<times> uuid) set" where
  "linked c = {(x, y). \<exists>n \<in> set (cat_nodes c). x \<in> set (related n) \<and> y \<in> set (related n)}"

lemma fold_connect_reach:
  assumes "fold connect_node ns (con, ch) = (con', ch')" "set ns \<subseteq> set (cat_nodes c)" "con \<subseteq> R"
    and "\<And>x y. x \<in> R \<Longrightarrow> (x, y) \<in> linked c \<Longrightarrow> y \<in> R"
  shows "con' \<subseteq> R"
  using assms(1-3)
proof (induction ns arbitrary: con ch)
  case (Cons n ns)
  obtain con1 ch1 where one: "connect_node n (con, ch) = (con1, ch1)" by fastforce
  have "con1 \<subseteq> R"
  proof (cases "set (related n) \<inter> con = {}")
    case False
    then obtain x where "x \<in> set (related n)" "x \<in> R" using Cons.prems(3) by blast
    then have "set (related n) \<subseteq> R" using assms(4) [of x] Cons.prems(2) by (auto simp: linked_def)
    with one Cons.prems(3) show ?thesis by (auto simp: connect_node_eq split: if_splits)
  qed (use one Cons.prems(3) in \<open>simp add: connect_node_eq\<close>)
  with Cons one show ?case by simp
qed simp

lemma connect_loop_spec:
  "i \<in> s \<Longrightarrow> s \<subseteq> (linked c)\<^sup>* `` {i} \<Longrightarrow> connect_loop c s = (linked c)\<^sup>* `` {i}"
proof (induction c s rule: connect_loop.induct)
  case (1 c s)
  obtain s' changed where p: "connect_pass c s = (s', changed)" by fastforce
  then have f: "fold connect_node (cat_nodes c) (s, False) = (s', changed)" by (simp add: connect_pass_def)
  note step = fold_connect_node [OF f]
  have reach: "s' \<subseteq> (linked c)\<^sup>* `` {i}"
    by (rule fold_connect_reach [OF f _ 1(3)]) (auto intro: rtrancl_into_rtrancl)
  show ?case
  proof (cases changed)
    case True
    with 1(1) [OF p [symmetric] refl True] 1(2) step reach p show ?thesis by (auto simp: connect_loop.simps [of c s])
  next
    case False
    with step have stuck: "s' = s" "\<And>n. n \<in> set (cat_nodes c) \<Longrightarrow> set (related n) \<inter> s \<noteq> {} \<Longrightarrow> set (related n) \<subseteq> s" by auto
    have "y \<in> s" if "(i, y) \<in> (linked c)\<^sup>*" for y
      using that 1(2)
    proof (induction rule: rtrancl_induct)
      case (step y z)
      then show ?case using stuck(2) by (fastforce simp: linked_def)
    qed simp
    with False p stuck(1) 1(3) show ?thesis by (auto simp: connect_loop.simps [of c s])
  qed
qed

lemma connected_ids_reach: "connected_ids c i = (linked c)\<^sup>* `` {i}"
  unfolding connected_ids_def by (rule connect_loop_spec) auto

lemma finite_connected: "finite (connected_ids c i)"
proof -
  have "y \<in> insert i (related_ids c)" if "(i, y) \<in> (linked c)\<^sup>*" for y
    using that by (induction rule: rtrancl_induct) (auto simp: linked_def related_ids_def)
  then have "connected_ids c i \<subseteq> insert i (related_ids c)" by (auto simp: connected_ids_reach)
  then show ?thesis by (rule finite_subset) (simp add: related_ids_def)
qed

section \<open>The groups\<close>

definition tree_nodes :: "catalog \<Rightarrow> rollout_node list \<Rightarrow> uuid \<Rightarrow> rollout_node list" where
  "tree_nodes c ns r = filter (\<lambda>n. canonical_root_of c (nd_id n) = Inr r) ns"

definition group_members :: "catalog \<Rightarrow> rollout_node list \<Rightarrow> uuid \<Rightarrow> uuid set" where
  "group_members c ns r =
     insert r (\<Union>n \<in> set (tree_nodes c ns r). insert (nd_id n) {a \<in> set (node_links n). canonical_root_of c a = Inr r})"

definition group_modified :: "catalog \<Rightarrow> rollout_node list \<Rightarrow> uuid \<Rightarrow> int" where
  "group_modified c ns r = Max (insert 0 (nd_modified ` set (tree_nodes c ns r)))"

definition group_of :: "catalog \<Rightarrow> rollout_node list \<Rightarrow> uuid \<Rightarrow> tree_group" where
  "group_of c ns r = (r, group_members c ns r, group_modified c ns r)"

definition groups_of :: "catalog \<Rightarrow> rollout_node list \<Rightarrow> tree_group set" where
  "groups_of c ns = group_of c ns ` {r. tree_nodes c ns r \<noteq> []}"

lemma fst_group [simp]: "fst (group_of c ns r) = r"
  by (simp add: group_of_def)

lemma tree_nodes_snoc:
  "tree_nodes c (ns @ [n]) r = tree_nodes c ns r @ (if canonical_root_of c (nd_id n) = Inr r then [n] else [])"
  by (simp add: tree_nodes_def)

lemma group_members_snoc:
  "canonical_root_of c (nd_id n) = Inr r \<Longrightarrow> group_members c (ns @ [n]) r
     = insert (nd_id n) (group_members c ns r) \<union> {a \<in> set (node_links n). canonical_root_of c a = Inr r}"
  by (auto simp: group_members_def tree_nodes_snoc)

lemma group_modified_snoc:
  assumes "canonical_root_of c (nd_id n) = Inr r"
  shows "group_modified c (ns @ [n]) r = max (nd_modified n) (group_modified c ns r)"
proof -
  have "insert 0 (nd_modified ` set (tree_nodes c (ns @ [n]) r)) = insert (nd_modified n) (insert 0 (nd_modified ` set (tree_nodes c ns r)))"
    using assms by (auto simp: tree_nodes_snoc)
  then show ?thesis unfolding group_modified_def by (simp only: Max_insert finite_insert finite_imageI List.finite_set insert_not_empty simp_thms)
qed

lemma groups_fold:
  "set (fold (add_to_groups c) ns []) = groups_of c ns \<and> distinct (map fst (fold (add_to_groups c) ns []))"
proof (induction ns rule: rev_induct)
  case Nil
  then show ?case by (simp add: groups_of_def tree_nodes_def)
next
  case (snoc n ns)
  let ?gs = "fold (add_to_groups c) ns []"
  have keys: "fst ` set ?gs = {r. tree_nodes c ns r \<noteq> []}" using snoc by (simp add: groups_of_def image_image)
  show ?case
  proof (cases "canonical_root_of c (nd_id n)")
    case (Inl e)
    then show ?thesis using snoc
      by (simp add: add_to_groups_def groups_of_def group_of_def [abs_def] tree_nodes_snoc group_members_def group_modified_def)
  next
    case (Inr r)
    let ?gs' = "if r \<in> fst ` set ?gs then ?gs else ?gs @ [(r, {r}, 0)]"
    let ?T = "{x. tree_nodes c ns x \<noteq> []}"
    let ?join = "\<lambda>g. if fst g = r then join_group c n g else g"
    have base: "set ?gs' = group_of c ns ` insert r ?T"
    proof (cases "r \<in> fst ` set ?gs")
      case True
      with keys snoc show ?thesis by (auto simp: groups_of_def)
    next
      case False
      with keys have "group_of c ns r = (r, {r}, 0)" by (simp add: group_of_def group_members_def group_modified_def)
      with False snoc show ?thesis by (simp add: groups_of_def)
    qed
    have join: "?join (group_of c ns x) = group_of c (ns @ [n]) x" for x
    proof (cases "x = r")
      case True
      then show ?thesis
        by (simp add: group_of_def join_group_def group_members_snoc [OF Inr] group_modified_snoc [OF Inr] max_def)
    next
      case False
      then have "tree_nodes c (ns @ [n]) x = tree_nodes c ns x" using Inr by (simp add: tree_nodes_snoc)
      with False show ?thesis by (simp add: group_of_def group_members_def group_modified_def)
    qed
    have "insert r ?T = {x. tree_nodes c (ns @ [n]) x \<noteq> []}" using Inr by (auto simp: tree_nodes_snoc)
    then have "set (map ?join ?gs') = groups_of c (ns @ [n])"
      unfolding list.set_map base image_image join groups_of_def by simp
    moreover have "map fst (map ?join ?gs') = map fst ?gs'"
      by (auto simp: join_group_def split: prod.splits)
    moreover have "distinct (map fst ?gs')" using snoc by simp
    moreover have eq: "fold (add_to_groups c) (ns @ [n]) [] = map ?join ?gs'"
      using Inr by (simp add: add_to_groups_def [of c n])
    ultimately show ?thesis unfolding eq by (simp only: simp_thms)
  qed
qed

section \<open>The trees\<close>

definition tree_of :: "catalog \<Rightarrow> uuid \<Rightarrow> session_tree" where
  "tree_of c r = tree_of_group (group_of c (cat_nodes c) r)"

lemma tree_of_root [simp]: "tree_root (tree_of c r) = r"
  by (simp add: tree_of_def tree_of_group_def group_of_def)

lemma finite_members: "finite (group_members c ns r)"
  by (simp add: group_members_def)

lemma tree_of_members: "set (tree_members (tree_of c r)) = group_members c (cat_nodes c) r"
  "sorted (tree_members (tree_of c r))" "distinct (tree_members (tree_of c r))"
  by (simp_all add: tree_of_def tree_of_group_def group_of_def finite_members)

text \<open>The trees are those of the roots some session has, each once, the latest first.\<close>

lemma session_trees_set:
  "set (session_trees c) = tree_of c ` {r. \<exists>n \<in> set (cat_nodes c). canonical_root_of c (nd_id n) = Inr r}"
proof -
  have "tree_nodes c (cat_nodes c) r \<noteq> [] \<longleftrightarrow> (\<exists>n \<in> set (cat_nodes c). canonical_root_of c (nd_id n) = Inr r)" for r
    by (auto simp: tree_nodes_def filter_empty_conv)
  then show ?thesis
    using groups_fold [of c "cat_nodes c"] by (simp add: session_trees_def groups_of_def image_image tree_of_def [abs_def])
qed

lemma tree_root_group [simp]: "tree_root (tree_of_group g) = fst g"
  by (simp add: tree_of_group_def split: prod.split)

lemma session_trees_distinct: "distinct (map tree_root (session_trees c))"
proof -
  let ?gs = "fold (add_to_groups c) (cat_nodes c) []"
  have "distinct (map tree_root (map tree_of_group ?gs))"
    using groups_fold [of c "cat_nodes c"] by (simp add: comp_def)
  moreover have "mset (map tree_root (session_trees c)) = mset (map tree_root (map tree_of_group ?gs))"
    by (simp only: session_trees_def mset_map mset_sort)
  ultimately show ?thesis using mset_eq_imp_distinct_iff by blast
qed

lemma tree_for_Inr: "tree_for c i = Inr t \<longleftrightarrow> (\<exists>r. canonical_root_of c i = Inr r \<and>
    t = (if \<exists>n \<in> set (cat_nodes c). canonical_root_of c (nd_id n) = Inr r then tree_of c r
         else \<lparr>tree_root = r, tree_members = [r], tree_modified = 0\<rparr>))"
proof -
  have "or_default (List.find (\<lambda>t. tree_root t = r) (session_trees c)) x
      = (if \<exists>n \<in> set (cat_nodes c). canonical_root_of c (nd_id n) = Inr r then tree_of c r else x)" for r x
  proof (cases "List.find (\<lambda>t. tree_root t = r) (session_trees c)")
    case None
    then have "\<forall>t \<in> set (session_trees c). tree_root t \<noteq> r" by (auto simp: find_None_iff)
    with None show ?thesis by (auto simp: session_trees_set or_default_def)
  next
    case (Some t)
    then have "t \<in> set (session_trees c)" "tree_root t = r" by (auto simp: find_Some_iff)
    with Some show ?thesis by (auto simp: session_trees_set or_default_def)
  qed
  then show ?thesis by (auto simp: tree_for_def)
qed

section \<open>Catalogs that are discovered\<close>

text \<open>Identifiers are unique, and a session whose parent and fork disagree is flagged.\<close>

definition catalog_ok :: "catalog \<Rightarrow> bool" where
  "catalog_ok c \<longleftrightarrow> distinct (map nd_id (cat_nodes c))
     \<and> (\<forall>n \<in> set (cat_nodes c). \<forall>p f. nd_parent n = Some p \<longrightarrow> nd_forked n = Some f \<longrightarrow> p \<noteq> f \<longrightarrow> cat_issues c (nd_id n) \<noteq> None)"

lemma catalog_ok_issues:
  "catalog_ok c \<Longrightarrow> (\<And>j. cat_issues c j \<noteq> None \<Longrightarrow> I j \<noteq> None) \<Longrightarrow> catalog_ok (c\<lparr>cat_issues := I\<rparr>)"
  by (fastforce simp: catalog_ok_def)

lemma insert_node_ok:
  assumes "catalog_ok c" "\<And>p f. nd_parent n = Some p \<Longrightarrow> nd_forked n = Some f \<Longrightarrow> p \<noteq> f \<Longrightarrow> cat_issues c (nd_id n) \<noteq> None"
  shows "catalog_ok (insert_node n c)"
proof (cases "find_node c (nd_id n)")
  case None
  then have "nd_id n \<notin> set (map nd_id (cat_nodes c))" by (simp add: find_None_iff_key)
  with None assms show ?thesis by (auto simp: insert_node_def catalog_ok_def)
next
  case (Some old)
  have touch: "catalog_ok (c1\<lparr>cat_nodes := tbl_update (\<lambda>r. nd_id r = i) (\<lambda>r. r\<lparr>nd_modified := m\<rparr>) ns\<rparr>)"
    if "catalog_ok c1" "cat_nodes c1 = ns" for c1 i m ns
    using that by (auto simp: catalog_ok_def tbl_update_def comp_def if_distrib [of nd_id] cong: if_cong)
  show ?thesis using Some assms(1) by (auto simp: insert_node_def Let_def intro!: touch catalog_ok_issues)
qed

lemma add_session_ok: "catalog_ok c \<Longrightarrow> catalog_ok (add_session pu f meta c)"
  by (auto simp: add_session_def Let_def intro!: insert_node_ok catalog_ok_issues split: sum.splits option.splits if_splits)

lemma add_file_ok: "catalog_ok c \<Longrightarrow> add_file js pu f c = Inr c' \<Longrightarrow> catalog_ok c'"
  by (auto simp: add_file_def intro!: insert_node_ok add_session_ok split: option.splits)

lemma scan_entries_ok: "scan_entries js pu es ds c = Inr (ds', c') \<Longrightarrow> catalog_ok c \<Longrightarrow> catalog_ok c'"
  by (induction js pu es ds c rule: scan_entries.induct) (auto dest: add_file_ok split: if_splits)

lemma discover_loop_ok: "discover_loop js pu ds c = Inr c' \<Longrightarrow> catalog_ok c \<Longrightarrow> catalog_ok c'"
  by (induction js pu ds c rule: discover_loop.induct) (auto simp: scan_entries_ok)

lemma discover_ok: "discover js pu start = Inr c \<Longrightarrow> catalog_ok c"
proof -
  have "catalog_ok catalog_default" by (simp add: catalog_ok_def catalog_default_def)
  then show "discover js pu start = Inr c \<Longrightarrow> catalog_ok c"
    by (auto simp: discover_def intro: discover_loop_ok split: option.splits)
qed

section \<open>An action covers the connected part\<close>

lemma check_roots_Inr:
  "check_roots c is = Inr () \<longleftrightarrow> (\<forall>i \<in> set is. i \<in> node_ids c \<longrightarrow> (\<exists>r. canonical_root_of c i = Inr r))"
  by (induction "is") (auto simp: find_node_in [symmetric])

lemma map_filter_Nil: "List.map_filter f xs = [] \<longleftrightarrow> (\<forall>x \<in> set xs. f x = None)"
  by (induction xs) (auto simp: List.map_filter_def)

lemma mutation_tree_Inr:
  assumes "\<And>S. finite S \<Longrightarrow> set (order S) = S"
  shows "mutation_tree_for order c i = Inr t \<longleftrightarrow>
    (\<forall>x \<in> connected_ids c i. cat_issues c x = None \<and> (x \<in> node_ids c \<longrightarrow> (\<exists>r. canonical_root_of c x = Inr r)))
    \<and> tree_for c i = Inr t"
proof -
  have o: "set (order (connected_ids c i)) = connected_ids c i" by (rule assms [OF finite_connected])
  let ?issues = "List.map_filter (cat_issues c) (order (connected_ids c i))"
  show ?thesis
  proof (cases "?issues = []")
    case True
    then have "\<forall>x \<in> connected_ids c i. cat_issues c x = None" by (simp add: map_filter_Nil o)
    with True show ?thesis by (auto simp: mutation_tree_for_def Let_def check_roots_Inr o)
  next
    case False
    then have "\<exists>x \<in> connected_ids c i. cat_issues c x \<noteq> None" by (simp add: map_filter_Nil o)
    with False show ?thesis by (auto simp: mutation_tree_for_def Let_def split: list.splits)
  qed
qed

text \<open>In a catalog without flags, everything a session refers to has the session's root.\<close>

lemma related_root:
  assumes "catalog_ok c" "n \<in> set (cat_nodes c)" "canonical_root_of c (nd_id n) = Inr r" "x \<in> set (related n)"
  shows "canonical_root_of c x = Inr r"
proof -
  have f: "find_node c (nd_id n) = Some n" using assms(1,2) by (simp add: catalog_ok_def find_distinct)
  note l = canonical_links [OF assms(3) f] canonical_root_idem [OF assms(3)]
  have none: "cat_issues c (nd_id n) = None" using assms(3) by (rule canonical_issue)
  consider "x = nd_id n" | "nd_session n = Some x" | "nd_parent n = Some x" | "nd_forked n = Some x"
    using assms(4) by (auto simp: related_def node_links_def List.map_filter_def split: if_splits)
  then show ?thesis
  proof cases
    case 4
    then have "parent_id n = Some x"
      using assms(1,2) none by (cases "nd_parent n") (auto simp: parent_id_def or_else_def catalog_ok_def)
    with l show ?thesis by blast
  qed (use assms(3) l in \<open>auto simp: parent_id_def or_else_def\<close>)
qed

lemma connected_root:
  assumes "catalog_ok c" "\<And>x. x \<in> connected_ids c i \<Longrightarrow> x \<in> node_ids c \<Longrightarrow> \<exists>r. canonical_root_of c x = Inr r"
    and "canonical_root_of c i = Inr r" "x \<in> connected_ids c i"
  shows "canonical_root_of c x = Inr r"
proof -
  have "(i, x) \<in> (linked c)\<^sup>*" using assms(4) by (simp add: connected_ids_reach)
  then show ?thesis
  proof (induction rule: rtrancl_induct)
    case base
    show ?case by (rule assms(3))
  next
    case (step y z)
    then obtain n where n: "n \<in> set (cat_nodes c)" "y \<in> set (related n)" "z \<in> set (related n)" by (auto simp: linked_def)
    then have "(y, nd_id n) \<in> linked c" by (auto simp: linked_def related_def)
    with step(1) have "nd_id n \<in> connected_ids c i" by (auto simp: connected_ids_reach)
    with n(1) assms(2) obtain r' where r': "canonical_root_of c (nd_id n) = Inr r'" by (auto simp: node_ids_def)
    with related_root [OF assms(1) n(1) r'] n(2,3) step(3) show ?case by simp
  qed
qed

text \<open>A session is linked to its root.\<close>

lemma root_linked:
  "resolve_root c i v = Inr (r, v') \<Longrightarrow> (i, r) \<in> (linked c)\<^sup>*"
proof (induction c i v arbitrary: r v' rule: resolve_root.induct)
  case (1 c i v)
  have edge: "(i, x) \<in> linked c" if "find_node c i = Some n" "nd_session n = Some x \<or> parent_id n = Some x" for n x
    using find_Some_key [OF that(1)] that(2)
    by (auto simp: linked_def related_def node_links_def List.map_filter_def parent_id_def or_else_def split: option.splits
        intro!: bexI [of _ n])
  from 1(4) show ?case
  proof (cases rule: resolve_root_Inr)
    case (3 n p)
    with edge [of n p] "1.IH"(1) [OF 3(2,1,3-5,6)] show ?thesis by (auto intro: converse_rtrancl_into_rtrancl)
  next
    case (4 n)
    with edge [of n r] show ?thesis by auto
  qed simp_all
qed

lemma sym_linked: "sym (linked c)"
  by (auto simp: sym_def linked_def)

lemma same_root_connected:
  assumes "canonical_root_of c i = Inr r" "canonical_root_of c j = Inr r"
  shows "j \<in> connected_ids c i"
proof -
  have "(i, r) \<in> (linked c)\<^sup>*" "(j, r) \<in> (linked c)\<^sup>*"
    using assms root_linked by (auto simp: canonical_Inr)
  moreover have "(r, j) \<in> (linked c)\<^sup>*"
    using calculation(2) sym_rtrancl [OF sym_linked] by (auto dest: symD)
  ultimately show ?thesis by (auto simp: connected_ids_reach)
qed

section \<open>The order of the nodes does not matter\<close>

lemma resolve_root_cong:
  assumes "\<forall>i. find_node c' i = find_node c i" "cat_issues c' = cat_issues c"
  shows "resolve_root c' i v = resolve_root c i v"
  using assms
proof (induction c i v rule: resolve_root.induct)
  case (1 c i v)
  note same = "1.prems"
  note IH = "1.IH"(1) [OF _ _ _ _ _ same] "1.IH"(2) [OF _ _ _ _ _ _ same] "1.IH"(3) [OF _ _ _ _ _ _ _ same]
  show ?case
    unfolding resolve_root.simps [of c' i v] resolve_root.simps [of c i v]
    by (auto simp: same IH intro!: app_bind_cong split: option.splits)
qed

lemma same_nodes:
  assumes "catalog_ok c" "catalog_ok c'" "set (cat_nodes c') = set (cat_nodes c)"
  shows "find_node c' i = find_node c i"
proof (cases "find_node c i")
  case None
  then have "find_node c' i = None" using assms(3) by (simp add: find_None_iff_key)
  with None show ?thesis by simp
next
  case (Some n)
  then have "n \<in> set (cat_nodes c')" "nd_id n = i" using assms(3) by (auto dest: find_Some_key)
  with assms(2) Some show ?thesis by (auto simp: catalog_ok_def find_distinct)
qed

lemma canonical_same:
  assumes "catalog_ok c" "catalog_ok c'" "set (cat_nodes c') = set (cat_nodes c)" "cat_issues c' = cat_issues c"
  shows "canonical_root_of c' i = canonical_root_of c i"
  using resolve_root_cong [of c' c i "{}"] same_nodes [OF assms(1-3)] assms(4) by (simp add: canonical_root_of_def)

lemma tree_of_same:
  assumes "\<And>i. canonical_root_of c' i = canonical_root_of c i" "set (cat_nodes c') = set (cat_nodes c)"
  shows "tree_of c' r = tree_of c r"
proof -
  have "set (tree_nodes c' (cat_nodes c') r) = set (tree_nodes c (cat_nodes c) r)"
    using assms by (simp add: tree_nodes_def)
  then show ?thesis
    using assms(1) by (simp add: tree_of_def tree_of_group_def group_of_def group_members_def group_modified_def)
qed

lemma session_trees_same:
  assumes "catalog_ok c" "catalog_ok c'" "set (cat_nodes c') = set (cat_nodes c)" "cat_issues c' = cat_issues c"
  shows "session_trees c' = session_trees c"
proof -
  have canon: "canonical_root_of c' i = canonical_root_of c i" for i by (rule canonical_same [OF assms])
  have s: "set (session_trees c') = set (session_trees c)"
    using canon assms(3) by (simp add: session_trees_set tree_of_same [OF canon assms(3)])
  have d: "distinct (session_trees x)" for x using session_trees_distinct distinct_map by blast
  have "mset (session_trees c') = mset (session_trees c)" using s d set_eq_iff_mset_eq_distinct by blast
  moreover have "inj_on (\<lambda>t. (- tree_modified t, tree_root t)) (set (session_trees c'))"
    using session_trees_distinct [of c'] by (auto simp: distinct_map inj_on_def)
  ultimately show ?thesis
    unfolding session_trees_def [of c'] mset_sort set_sort
    by (intro sort_key_inj_key_eq) (simp_all add: session_trees_def)
qed

lemma tree_member_root:
  assumes "t \<in> set (session_trees c)" "x \<in> set (tree_members t)"
  shows "canonical_root_of c x = Inr (tree_root t)"
proof -
  have "t \<in> tree_of c ` {r. \<exists>n \<in> set (cat_nodes c). canonical_root_of c (nd_id n) = Inr r}"
    using assms(1) by (simp add: session_trees_set)
  then obtain n :: rollout_node and r where r: "t = tree_of c r" "canonical_root_of c (nd_id n) = Inr r" by fast
  show ?thesis using assms(2) canonical_root_idem [OF r(2)] by (auto simp: r(1) tree_of_members group_members_def tree_nodes_def)
qed

lemma session_in_its_tree:
  assumes n: "n \<in> set (cat_nodes c)" "canonical_root_of c (nd_id n) = Inr r"
  shows "tree_of c r \<in> set (session_trees c)" "nd_id n \<in> set (tree_members (tree_of c r))"
    "t \<in> set (session_trees c) \<Longrightarrow> nd_id n \<in> set (tree_members t) \<Longrightarrow> t = tree_of c r"
proof -
  show "tree_of c r \<in> set (session_trees c)" using n by (auto simp: session_trees_set)
  show "nd_id n \<in> set (tree_members (tree_of c r))" using n by (auto simp: tree_of_members group_members_def tree_nodes_def)
  show "t \<in> set (session_trees c) \<Longrightarrow> nd_id n \<in> set (tree_members t) \<Longrightarrow> t = tree_of c r"
    using tree_member_root [of t c "nd_id n"] n(2) by (auto simp: session_trees_set)
qed

section \<open>Consistent sessions resolve\<close>

text \<open>A part of the catalog is consistent when nothing in it is flagged and there are a rank that
  falls along the references and a root that session, parent and declared session agree on.\<close>

definition consistent :: "catalog \<Rightarrow> (uuid \<Rightarrow> nat) \<Rightarrow> (uuid \<Rightarrow> uuid) \<Rightarrow> uuid set \<Rightarrow> bool" where
  "consistent c rank rt X \<longleftrightarrow> (\<forall>x \<in> X. cat_issues c x = None \<and>
     (case find_node c x of
        None \<Rightarrow> rt x = x
      | Some n \<Rightarrow> (\<forall>p. parent_id n = Some p \<longrightarrow> p \<in> X \<and> rank p < rank x \<and> rt p = rt x)
          \<and> (\<forall>s. nd_session n = Some s \<longrightarrow> s \<in> X \<and> s = rt x \<and> (s = x \<or> rank s < rank x \<and> rt s = s))
          \<and> (nd_session n = None \<and> parent_id n = None \<longrightarrow> rt x = x)))"

lemma consistent_resolves:
  assumes "consistent c rank rt X"
  shows "x \<in> X \<Longrightarrow> \<forall>y \<in> v. rank x < rank y \<Longrightarrow> resolve_root c x v = Inr (rt x, v)"
proof (induction "rank x" arbitrary: x v rule: less_induct)
  case less
  note cx = assms [unfolded consistent_def, rule_format, OF less.prems(1)]
  show ?case
  proof (cases "find_node c x")
    case None
    with cx show ?thesis by (simp add: resolve_root.simps [of c x])
  next
    case (Some n)
    have fresh: "x \<notin> v" using less.prems(2) by blast
    have IH: "resolve_root c y (insert x v) = Inr (rt y, insert x v)" if "rank y < rank x" "y \<in> X" for y
      by (rule less.hyps [OF that]) (use less.prems(2) that(1) in auto)
    have parent: "resolve_root c p (insert x v) = Inr (rt x, insert x v)" if "parent_id n = Some p" for p
      using IH [of p] cx Some that by auto
    have gone: "insert x v - {x} = v" using fresh by simp
    show ?thesis
    proof (cases "nd_session n")
      case None
      with cx Some fresh parent show ?thesis
        by (cases "parent_id n") (simp_all add: resolve_root.simps [of c x v] gone)
    next
      case s: (Some s)
      then have s': "s = rt x" "s \<in> X" "s = x \<or> rank s < rank x \<and> rt s = s" using cx Some by auto
      then have first: "s \<noteq> x \<Longrightarrow> resolve_root c s (insert x v) = Inr (s, insert x v)" "cat_issues c s = None"
        using IH [of s] assms by (auto simp: consistent_def)
      show ?thesis
        using cx Some s fresh parent first s'(1)
        by (cases "parent_id n") (auto simp: resolve_root.simps [of c x v] gone)
    qed
  qed
qed

text \<open>
  An action on a session covers everything connected with it.  When the discovered catalog lets
  an action on a session through, its tree consists of exactly the identifiers that are linked with
  the session through any chain of session, parent and fork references, all of which have the tree's
  root; no session of the catalog refers to a member without being a member itself.
\<close>

lemma mutation_tree_connected:
  assumes "discover js pu start = Inr c" and order: "\<And>S. finite S \<Longrightarrow> set (order S) = S"
    and m: "mutation_tree_for order c i = Inr t"
  shows "set (tree_members t) = (linked c)\<^sup>* `` {i} \<and> distinct (tree_members t)
    \<and> (\<forall>x \<in> set (tree_members t). canonical_root_of c x = Inr (tree_root t))
    \<and> (\<forall>n \<in> set (cat_nodes c). set (related n) \<inter> set (tree_members t) \<noteq> {} \<longrightarrow> set (related n) \<subseteq> set (tree_members t))"
proof -
  note ok = discover_ok [OF assms(1)]
  have flags: "cat_issues c x = None" "x \<in> node_ids c \<Longrightarrow> \<exists>r. canonical_root_of c x = Inr r" if "x \<in> connected_ids c i" for x
    using m that by (auto simp: mutation_tree_Inr [OF order])
  obtain r where r: "canonical_root_of c i = Inr r" and t: "t = (if \<exists>n \<in> set (cat_nodes c). canonical_root_of c (nd_id n) = Inr r
       then tree_of c r else \<lparr>tree_root = r, tree_members = [r], tree_modified = 0\<rparr>)"
    using m by (auto simp: mutation_tree_Inr [OF order] tree_for_Inr)
  have root: "canonical_root_of c x = Inr r" if "x \<in> connected_ids c i" for x
    by (rule connected_root [OF ok flags(2) r that])
  have "x \<in> set (tree_members t)" if x: "x \<in> connected_ids c i" for x
  proof (cases "x \<in> node_ids c")
    case True
    then obtain n where "n \<in> set (cat_nodes c)" "nd_id n = x" by (auto simp: node_ids_def)
    with session_in_its_tree(2) [of n c r] root [OF x] t show ?thesis by auto
  next
    case False
    with canonical_unknown [of x c] flags(1) [OF x] root [OF x] have "x = r" by (simp add: find_node_in [symmetric])
    then show ?thesis by (auto simp: t tree_of_members group_members_def)
  qed
  moreover have same: "canonical_root_of c x = Inr r" if "x \<in> set (tree_members t)" for x
    using that canonical_root_idem [OF r] by (auto simp: t tree_of_members group_members_def tree_nodes_def split: if_splits)
  moreover have "x \<in> connected_ids c i" if "x \<in> set (tree_members t)" for x
    by (rule same_root_connected [OF r same [OF that]])
  ultimately have eq: "set (tree_members t) = connected_ids c i" by blast
  have "set (related n) \<subseteq> connected_ids c i" if n: "n \<in> set (cat_nodes c)" "set (related n) \<inter> connected_ids c i \<noteq> {}" for n
  proof -
    obtain x where x: "x \<in> set (related n)" "(i, x) \<in> (linked c)\<^sup>*" using n(2) by (auto simp: connected_ids_reach)
    then have "(x, y) \<in> linked c" if "y \<in> set (related n)" for y using n(1) that by (auto simp: linked_def)
    with x(2) show ?thesis by (auto simp: connected_ids_reach intro: rtrancl_into_rtrancl)
  qed
  moreover have "distinct (tree_members t)" "tree_root t = r" by (simp_all add: t tree_of_members)
  ultimately show ?thesis using same eq by (simp add: connected_ids_reach)
qed

lemma consistent_mutation:
  assumes cons: "consistent c rank rt ((linked c)\<^sup>* `` {i})" and order: "\<And>S. finite S \<Longrightarrow> set (order S) = S"
  obtains t where "canonical_root_of c i = Inr (rt i)" "mutation_tree_for order c i = Inr t" "tree_root t = rt i"
proof -
  have root: "canonical_root_of c x = Inr (rt x)" if "x \<in> connected_ids c i" for x
    using consistent_resolves [OF cons, of x "{}"] that by (simp add: canonical_Inr connected_ids_reach)
  have i: "i \<in> connected_ids c i" by (simp add: connected_ids_reach)
  obtain t where "tree_for c i = Inr t \<and> tree_root t = rt i" using root [OF i] by (auto simp: tree_for_Inr)
  moreover have "cat_issues c x = None" if "x \<in> connected_ids c i" for x using cons that by (simp add: consistent_def connected_ids_reach)
  ultimately show ?thesis using that root i by (auto simp: mutation_tree_Inr [OF order])
qed

section \<open>Properties\<close>

text \<open>
  C13: the list of sessions is the partition of the sessions by their roots.  Every session that can
  be resolved is a member of exactly one tree, the tree of its root; all members have that root; the
  trees come latest first and, at equal times, by identifier.  The list does not depend on the order
  in which the hash map yields the nodes.
\<close>

theorem session_trees_partition:
  shows "(\<forall>n \<in> set (cat_nodes c). \<forall>r. canonical_root_of c (nd_id n) = Inr r \<longrightarrow>
          (\<exists>!t. t \<in> set (session_trees c) \<and> nd_id n \<in> set (tree_members t)) \<and> tree_of c r \<in> set (session_trees c))
    \<and> (\<forall>t \<in> set (session_trees c). \<forall>x \<in> set (tree_members t). canonical_root_of c x = Inr (tree_root t))
    \<and> sorted (map (\<lambda>t. (- tree_modified t, tree_root t)) (session_trees c))
    \<and> (catalog_ok c \<longrightarrow> catalog_ok c' \<longrightarrow> set (cat_nodes c') = set (cat_nodes c) \<longrightarrow> cat_issues c' = cat_issues c \<longrightarrow>
          session_trees c' = session_trees c)"
proof (intro conjI ballI allI impI)
  fix n r
  assume n: "n \<in> set (cat_nodes c)" "canonical_root_of c (nd_id n) = Inr r"
  from session_in_its_tree [OF n] show "\<exists>!t. t \<in> set (session_trees c) \<and> nd_id n \<in> set (tree_members t)" by blast
  show "tree_of c r \<in> set (session_trees c)" by (rule session_in_its_tree(1) [OF n])
qed (auto simp: tree_member_root session_trees_def [of c] session_trees_same)


section \<open>A session with a child\<close>

definition sample_catalog :: catalog where
  "sample_catalog = \<lparr>cat_nodes =
     [\<lparr>nd_id = 1, nd_session = Some 1, nd_parent = None, nd_forked = None, nd_modified = 5\<rparr>,
      \<lparr>nd_id = 2, nd_session = Some 1, nd_parent = Some 1, nd_forked = Some 1, nd_modified = 7\<rparr>], cat_issues = Map.empty\<rparr>"

lemma sample_linked: "(linked sample_catalog)\<^sup>* `` {2} = {1, 2}"
proof -
  have l: "linked sample_catalog = {1, 2} \<times> {1, 2}"
    by (auto simp: linked_def sample_catalog_def related_def node_links_def List.map_filter_def)
  have "(2, y) \<in> (linked sample_catalog)\<^sup>* \<Longrightarrow> y \<in> {1, 2}" for y
    by (induction rule: rtrancl_induct) (auto simp: l)
  then show ?thesis using l by auto
qed

lemma sample_consistent:
  "consistent sample_catalog (\<lambda>x. if x = 1 then 0 else 1) (\<lambda>_. 1) ((linked sample_catalog)\<^sup>* `` {2})"
  unfolding sample_linked by (auto simp: consistent_def sample_catalog_def parent_id_def or_else_def)

lemma sample_order: "finite S \<Longrightarrow> set (sorted_list_of_set S) = (S :: uuid set)"
  by simp


lemma session_trees_partition_witness:
  "\<exists>!t. t \<in> set (session_trees sample_catalog) \<and> 2 \<in> set (tree_members t)"
proof -
  define n :: rollout_node where "n = \<lparr>nd_id = 2, nd_session = Some 1, nd_parent = Some 1, nd_forked = Some 1, nd_modified = 7\<rparr>"
  have n: "n \<in> set (cat_nodes sample_catalog)" "nd_id n = 2" by (simp_all add: sample_catalog_def n_def)
  have "canonical_root_of sample_catalog (nd_id n) = Inr 1"
    unfolding n(2) by (rule consistent_mutation [OF sample_consistent sample_order])
  from session_trees_partition [of sample_catalog sample_catalog, THEN conjunct1, rule_format, OF n(1) this] n(2)
  show ?thesis by simp
qed

end
