(* ===== verification/Commands.thy ===== *)
theory Commands
  imports Session_Tree_Properties Admin
begin

text \<open>
  The command line (\<open>src/cli.rs\<close>): the call each command makes to the admin interface, the keys and
  the body of an action on a session, and the answers of the session commands.  Files, the login
  process and the HTTP exchange are parameters; a JSON body is written as the value it is made from,
  the body of an action as the request the daemon reads from it.
\<close>

section \<open>Keys of a session tree\<close>

definition session_alias_kinds :: "string list" where
  "session_alias_kinds = [''session_id'', ''thread_id'', ''conversation_id'', ''prompt_cache_key'']"

definition max_session_action_keys :: nat where
  "max_session_action_keys = 500"

definition root_session_key_hash :: "(string \<Rightarrow> string) \<Rightarrow> (uuid \<Rightarrow> string) \<Rightarrow> uuid \<Rightarrow> string" where
  "root_session_key_hash sha ut r = affinity_hash sha ''session_id'' (ut r)"

definition too_many_keys :: string where
  "too_many_keys = ''session tree requires more than 500 route keys; refusing to operate on only part of the tree''"

fun collect_aliases :: "route_key list \<Rightarrow> route_key list \<Rightarrow> string + route_key list" where
  "collect_aliases found [] = Inr found"
| "collect_aliases found (k # ks) =
     (if list_ex (\<lambda>a. key_hash a = key_hash k) found then collect_aliases found ks
      else if length found = max_session_action_keys then Inl too_many_keys
      else collect_aliases (found @ [k]) ks)"

definition tree_ids :: "session_tree \<Rightarrow> uuid list" where
  "tree_ids t = tree_root t # filter (\<lambda>i. i \<noteq> tree_root t) (sort (tree_members t))"

definition session_tree_aliases :: "(string \<Rightarrow> string) \<Rightarrow> (uuid \<Rightarrow> string) \<Rightarrow> session_tree \<Rightarrow> string + route_key list" where
  "session_tree_aliases sha ut t =
     collect_aliases []
       (concat (map (\<lambda>i. map (\<lambda>kind. session_route_key sha kind (ut i)) session_alias_kinds) (tree_ids t)))"

definition session_action_payload ::
  "(string \<Rightarrow> string) \<Rightarrow> (uuid \<Rightarrow> string) \<Rightarrow> session_tree \<Rightarrow> action_kind \<Rightarrow> string option \<Rightarrow> bool \<Rightarrow> string + action_request" where
  "session_action_payload sha ut t act target dry =
     app_bind (session_tree_aliases sha ut t) (\<lambda>keys.
       Inr \<lparr>req_root = root_session_key_hash sha ut (tree_root t), req_keys = keys, req_action = act,
            req_target = target, req_dry_run = dry\<rparr>)"

section \<open>The commands\<close>

datatype accounts_command =
    Accounts_List
  | Accounts_Import string "string option"
  | Accounts_Import_Opencode string string string
  | Accounts_Login string
  | Accounts_Pause uuid
  | Accounts_Reactivate uuid
  | Accounts_Remove uuid
  | Accounts_Refresh_Token uuid
  | Accounts_Refresh_Usage uuid

datatype usage_command = Usage_Summary | Usage_Account uuid | Usage_Refresh

datatype logs_command = Logs_List int int

datatype sessions_command =
    Sessions_List nat
  | Sessions_Show uuid
  | Sessions_Routes int
  | Sessions_Rebalance uuid bool
  | Sessions_Reroute uuid string bool

datatype settings_command = Settings_Get | Settings_Set string string

datatype http_method = GET | POST | PUT | PATCH | DELETE

record api_call =
  call_method :: http_method
  call_path :: string
  call_body :: "json option"

abbreviation get_call :: "string \<Rightarrow> api_call" where
  "get_call p \<equiv> \<lparr>call_method = GET, call_path = p, call_body = None\<rparr>"

abbreviation post_call :: "string \<Rightarrow> json option \<Rightarrow> api_call" where
  "post_call p b \<equiv> \<lparr>call_method = POST, call_path = p, call_body = b\<rparr>"

text \<open>What the commands take from outside: the contents of a file, the JSON parser, the printer of
  UUIDs and the login, which yields the path of the credential it wrote.\<close>

record cli_io =
  ci_read :: "string \<Rightarrow> string option"
  ci_json :: "string \<Rightarrow> json option"
  ci_uuid_text :: "uuid \<Rightarrow> string"
  ci_login :: "string \<Rightarrow> string + string"

definition read_json :: "cli_io \<Rightarrow> string \<Rightarrow> string \<Rightarrow> string + json" where
  "read_json io what path =
     (case ci_read io path of
        None \<Rightarrow> Inl (''reading '' @ path)
      | Some raw \<Rightarrow> ok_or (ci_json io raw) (what @ '' must be JSON''))"

definition required_string :: "json option \<Rightarrow> string \<Rightarrow> string + string" where
  "required_string v name =
     (case Option.bind v as_str of
        Some s \<Rightarrow> if trim s = [] then Inl (''OpenCode OAuth slot is missing '' @ quoted name) else Inr s
      | None \<Rightarrow> Inl (''OpenCode OAuth slot is missing '' @ quoted name))"

definition json_opt_string :: "string option \<Rightarrow> json" where
  "json_opt_string s = (case s of None \<Rightarrow> JNull | Some x \<Rightarrow> JString x)"

definition import_payload :: "json \<Rightarrow> string option \<Rightarrow> api_call" where
  "import_payload auth label =
     post_call ''/admin/accounts'' (Some (JObject [(''auth'', auth), (''label'', json_opt_string label)]))"

definition opencode_payload :: "string \<Rightarrow> json \<Rightarrow> string + json" where
  "opencode_payload provider rt =
     (case Option.bind (jget provider rt) as_object of
        None \<Rightarrow> Inl (''OpenCode provider '' @ quoted provider @ '' was not found'')
      | Some slot \<Rightarrow>
          app_bind (required_string (map_of slot ''access'') ''access'') (\<lambda>access.
          app_bind (required_string (map_of slot ''refresh'') ''refresh'') (\<lambda>refresh.
          app_bind (required_string (map_of slot ''accountId'') ''accountId'') (\<lambda>account.
            Inr (JObject [(''tokens'', JObject [(''idToken'', JString access), (''accessToken'', JString access),
                   (''refreshToken'', JString refresh), (''accountId'', JString account)])])))))"

definition label_char :: "char \<Rightarrow> bool" where
  "label_char c \<longleftrightarrow> is_ascii_alphanumeric c \<or> c = CHR ''-'' \<or> c = CHR ''_''"

definition sanitize_label :: "string \<Rightarrow> string + string" where
  "sanitize_label label =
     (let v = to_ascii_lowercase (trim label) in
      if v = [] \<or> 32 < length v \<or> \<not> list_all label_char v
      then Inl (''label must be 1-32 ASCII letters, numbers, '' @ quoted ''-'' @ '' or '' @ quoted ''_'')
      else Inr v)"

fun accounts_call :: "cli_io \<Rightarrow> accounts_command \<Rightarrow> string + api_call" where
  "accounts_call io Accounts_List = Inr (get_call ''/admin/accounts'')"
| "accounts_call io (Accounts_Import path label) =
     app_bind (read_json io ''auth file'' path) (\<lambda>v. Inr (import_payload v label))"
| "accounts_call io (Accounts_Import_Opencode path provider label) =
     app_bind (read_json io ''OpenCode auth file'' path) (\<lambda>rt.
     app_bind (opencode_payload provider rt) (\<lambda>v. Inr (import_payload v (Some label))))"
| "accounts_call io (Accounts_Login label) =
     app_bind (sanitize_label label) (\<lambda>safe.
     app_bind (ci_login io safe) (\<lambda>path.
     app_bind (read_json io ''Codex auth file'' path) (\<lambda>v. Inr (import_payload v (Some label)))))"
| "accounts_call io (Accounts_Pause i) =
     Inr \<lparr>call_method = PATCH, call_path = ''/admin/accounts/'' @ ci_uuid_text io i,
          call_body = Some (JObject [(''status'', JString ''paused'')])\<rparr>"
| "accounts_call io (Accounts_Reactivate i) =
     Inr \<lparr>call_method = PATCH, call_path = ''/admin/accounts/'' @ ci_uuid_text io i,
          call_body = Some (JObject [(''status'', JString ''active'')])\<rparr>"
| "accounts_call io (Accounts_Remove i) =
     Inr \<lparr>call_method = DELETE, call_path = ''/admin/accounts/'' @ ci_uuid_text io i, call_body = None\<rparr>"
| "accounts_call io (Accounts_Refresh_Token i) =
     Inr (post_call (''/admin/accounts/'' @ ci_uuid_text io i @ ''/refresh-token'') None)"
| "accounts_call io (Accounts_Refresh_Usage i) =
     Inr (post_call (''/admin/accounts/'' @ ci_uuid_text io i @ ''/refresh-usage'') None)"

fun usage_call :: "cli_io \<Rightarrow> usage_command \<Rightarrow> api_call" where
  "usage_call io Usage_Summary = get_call ''/admin/usage/summary''"
| "usage_call io (Usage_Account i) = get_call (''/admin/usage/accounts/'' @ ci_uuid_text io i)"
| "usage_call io Usage_Refresh = post_call ''/admin/usage/refresh'' None"

fun logs_call :: "logs_command \<Rightarrow> api_call" where
  "logs_call (Logs_List limit offset) =
     get_call (''/admin/request-logs?limit='' @ show_int limit @ ''&offset='' @ show_int offset)"

fun settings_call :: "cli_io \<Rightarrow> settings_command \<Rightarrow> api_call" where
  "settings_call io Settings_Get = get_call ''/admin/settings''"
| "settings_call io (Settings_Set key v) =
     \<lparr>call_method = PUT, call_path = ''/admin/settings'',
      call_body = Some (JObject [(key, or_default (ci_json io v) (JString v))])\<rparr>"

section \<open>The exchange\<close>

fun trim_end_char :: "char \<Rightarrow> string \<Rightarrow> string" where
  "trim_end_char c s = rev (dropWhile (\<lambda>x. x = c) (rev s))"

definition call_url :: "string \<Rightarrow> api_call \<Rightarrow> string" where
  "call_url base call = trim_end_char (CHR ''/'') base @ call_path call"

definition call_auth :: "string option \<Rightarrow> string option" where
  "call_auth token = map_option (\<lambda>t. ''Bearer '' @ t) token"

text \<open>The answer of the daemon; \<open>show_status\<close> and \<open>show_json\<close> print a status and a value.\<close>

definition read_reply ::
  "(string \<Rightarrow> json option) \<Rightarrow> (nat \<Rightarrow> string) \<Rightarrow> (json \<Rightarrow> string) \<Rightarrow> nat \<Rightarrow> string option \<Rightarrow> string + json" where
  "read_reply js show_status show_json status body =
     (if status = 204 then Inr (JObject [(''status'', JString ''ok'')])
      else case body of
        None \<Rightarrow> Inl ''reading admin API response''
      | Some text \<Rightarrow>
          (let v = or_default (js text) (JString text)
           in if status < 200 \<or> 300 \<le> status
              then Inl (''admin API returned '' @ show_status status @ '': '' @ show_json v) else Inr v))"

section \<open>Sessions\<close>

text \<open>The catalog is discovered when the command runs.  \<open>order\<close> iterates over a set of identifiers,
  \<open>horder\<close> over the keys of a map of hashes.\<close>

record session_io =
  si_sha :: "string \<Rightarrow> string"
  si_uuid_text :: "uuid \<Rightarrow> string"
  si_order :: "uuid set \<Rightarrow> uuid list"
  si_hash_order :: "string set \<Rightarrow> string list"
  si_catalog :: "string + catalog"

definition routes_call :: "int \<Rightarrow> api_call" where
  "routes_call limit = get_call (''/admin/session-routes?limit='' @ show_int (clamp 1 500 limit))"

definition resolve_call :: "string list \<Rightarrow> api_call" where
  "resolve_call hs = post_call ''/admin/session-routes'' (Some (JObject [(''keyHashes'', JArray (map JString hs))]))"

definition rebalance_request :: "session_io \<Rightarrow> uuid \<Rightarrow> bool \<Rightarrow> string + action_request" where
  "rebalance_request io i dry =
     app_bind (si_catalog io) (\<lambda>c.
     app_bind (mutation_tree_for (si_order io) c i) (\<lambda>t.
       session_action_payload (si_sha io) (si_uuid_text io) t Rebalance None dry))"

definition reroute_request :: "session_io \<Rightarrow> uuid \<Rightarrow> string \<Rightarrow> bool \<Rightarrow> string + action_request" where
  "reroute_request io i to dry =
     (if trim to = [] then Inl ''--to must be a non-empty account label or UUID''
      else app_bind (si_catalog io) (\<lambda>c.
           app_bind (mutation_tree_for (si_order io) c i) (\<lambda>t.
             session_action_payload (si_sha io) (si_uuid_text io) t Reroute (Some (trim to)) dry)))"

definition reply_routes :: "json \<Rightarrow> json list" where
  "reply_routes response = or_default (Option.bind (jget ''sessionRoutes'' response) as_array) []"

definition json_option :: "json option \<Rightarrow> json" where
  "json_option v = or_default v JNull"

text \<open>\<open>sessions show\<close>: what is asked, and what is printed for the answer.\<close>

definition show_request :: "session_io \<Rightarrow> uuid \<Rightarrow> string + (session_tree \<times> string list)" where
  "show_request io i =
     app_bind (si_catalog io) (\<lambda>c.
     app_bind (tree_for c i) (\<lambda>t.
     app_bind (session_tree_aliases (si_sha io) (si_uuid_text io) t) (\<lambda>keys.
       Inr (t, map key_hash keys))))"

definition show_answer :: "session_io \<Rightarrow> uuid \<Rightarrow> session_tree \<Rightarrow> json \<Rightarrow> json" where
  "show_answer io i t response =
     (let root_hash = root_session_key_hash (si_sha io) (si_uuid_text io) (tree_root t);
          routes = reply_routes response;
          route = or_else (List.find (\<lambda>r. Option.bind (jget ''keyHash'' r) as_str = Some root_hash) routes)
                          (case routes of [] \<Rightarrow> None | r # _ \<Rightarrow> Some r)
      in JObject [(''sessionId'', JString (si_uuid_text io i)), (''rootSessionId'', JString (si_uuid_text io (tree_root t))),
           (''fingerprint'', JString (take 12 root_hash)), (''route'', json_option route), (''routes'', JArray routes),
           (''semantics'', JString ''last_routed''),
           (''note'', JString ''A sticky route is not proof that the session process is currently connected.'')])"

text \<open>\<open>sessions list\<close>: the roots of the 500 latest trees by the hash of their key; two roots with one
  hash leave the later one.\<close>

definition roots_by_hash :: "session_io \<Rightarrow> catalog \<Rightarrow> string \<rightharpoonup> uuid" where
  "roots_by_hash io c =
     map_of (rev (map (\<lambda>t. (root_session_key_hash (si_sha io) (si_uuid_text io) (tree_root t), tree_root t))
       (take 500 (session_trees c))))"

definition list_request :: "session_io \<Rightarrow> string + ((string \<rightharpoonup> uuid) \<times> string list)" where
  "list_request io =
     app_bind (si_catalog io) (\<lambda>c. let by_hash = roots_by_hash io c in Inr (by_hash, si_hash_order io (dom by_hash)))"

definition listed_session :: "session_io \<Rightarrow> (string \<rightharpoonup> uuid) \<Rightarrow> json \<Rightarrow> json option" where
  "listed_session io by_hash route =
     Option.bind (Option.bind (jget ''keyHash'' route) as_str) (\<lambda>h.
     Option.bind (by_hash h) (\<lambda>r.
       Some (JObject [(''sessionId'', JString (si_uuid_text io r)), (''fingerprint'', JString (take 12 h)),
         (''account'', json_option (jget ''accountLabel'' route)), (''lastRoutedAt'', json_option (jget ''lastUsedAt'' route)),
         (''firstRoutedAt'', json_option (jget ''createdAt'' route))])))"

definition listed_sessions :: "session_io \<Rightarrow> nat \<Rightarrow> (string \<rightharpoonup> uuid) \<Rightarrow> json \<Rightarrow> json list" where
  "listed_sessions io limit by_hash response =
     take (max 1 (min 500 limit)) (List.map_filter (listed_session io by_hash) (reply_routes response))"

section \<open>The keys that are sent\<close>

lemma collect_aliases_Inr:
  "collect_aliases found ks = Inr keys \<Longrightarrow> distinct (map key_hash found) \<Longrightarrow> length found \<le> 500
     \<Longrightarrow> distinct (map key_hash keys) \<and> length keys \<le> 500 \<and> hashes keys = hashes found \<union> hashes ks
       \<and> set keys \<subseteq> set found \<union> set ks"
proof (induction ks arbitrary: found)
  case (Cons k ks)
  show ?case
  proof (cases "list_ex (\<lambda>a. key_hash a = key_hash k) found")
    case True
    then have "key_hash k \<in> hashes found" by (simp add: list_ex_key hashes_def)
    with Cons True show ?thesis by (auto simp: hashes_def)
  next
    case False
    then have "length found \<noteq> 500" "collect_aliases (found @ [k]) ks = Inr keys"
      using Cons.prems(1) by (auto simp: max_session_action_keys_def split: if_splits)
    moreover have "key_hash k \<notin> key_hash ` set found" using False by (simp add: list_ex_key)
    ultimately show ?thesis using Cons.IH [of "found @ [k]"] Cons.prems(2,3) by (auto simp: hashes_def)
  qed
qed (simp add: hashes_def)

lemma collect_aliases_Inl:
  "collect_aliases found ks = Inl e \<Longrightarrow> distinct (map key_hash found) \<Longrightarrow> 500 < card (hashes found \<union> hashes ks)"
proof (induction ks arbitrary: found)
  case (Cons k ks)
  show ?case
  proof (cases "list_ex (\<lambda>a. key_hash a = key_hash k) found")
    case True
    then have "key_hash k \<in> hashes found" by (simp add: list_ex_key hashes_def)
    with Cons True show ?thesis by (auto simp: hashes_def insert_absorb)
  next
    case new: False
    then have fresh: "key_hash k \<notin> hashes found" by (simp add: list_ex_key hashes_def)
    show ?thesis
    proof (cases "length found = 500")
      case True
      have "card (hashes found) = 500"
        using True Cons.prems(2) distinct_card [of "map key_hash found"] by (simp add: hashes_def)
      then have "card (insert (key_hash k) (hashes found)) = 501" using fresh by (simp add: hashes_def)
      moreover have "card (insert (key_hash k) (hashes found)) \<le> card (hashes found \<union> hashes (k # ks))"
        by (rule card_mono) (auto simp: hashes_def)
      ultimately show ?thesis by simp
    next
      case False
      with Cons.prems(1) new have "collect_aliases (found @ [k]) ks = Inl e" by (simp add: max_session_action_keys_def)
      with Cons.IH [of "found @ [k]"] Cons.prems(2) fresh show ?thesis by (simp add: hashes_def)
    qed
  qed
qed simp

text \<open>The keys of a tree are all aliases of its identifiers, or the tree is refused.\<close>

definition alias_hashes :: "(string \<Rightarrow> string) \<Rightarrow> (uuid \<Rightarrow> string) \<Rightarrow> uuid set \<Rightarrow> string set" where
  "alias_hashes sha ut X = (\<Union>x \<in> X. (\<lambda>kind. affinity_hash sha kind (ut x)) ` set session_alias_kinds)"

lemma tree_ids_set: "tree_root t \<in> set (tree_members t) \<Longrightarrow> set (tree_ids t) = set (tree_members t)"
  by (auto simp: tree_ids_def)

lemma alias_list_hashes:
  "hashes (concat (map (\<lambda>i. map (\<lambda>kind. session_route_key sha kind (ut i)) session_alias_kinds) is)) = alias_hashes sha ut (set is)"
  by (simp add: hashes_def alias_hashes_def session_route_key_def image_UN image_image)

lemma session_tree_aliases_spec:
  assumes "tree_root t \<in> set (tree_members t)"
  shows "session_tree_aliases sha ut t = Inr keys \<Longrightarrow>
      hashes keys = alias_hashes sha ut (set (tree_members t)) \<and> distinct (map key_hash keys) \<and> length keys \<le> 500
      \<and> (\<forall>k \<in> set keys. key_kind k \<in> set session_alias_kinds)"
    and "session_tree_aliases sha ut t = Inl e \<Longrightarrow> 500 < card (alias_hashes sha ut (set (tree_members t)))"
proof -
  let ?ks = "concat (map (\<lambda>i. map (\<lambda>kind. session_route_key sha kind (ut i)) session_alias_kinds) (tree_ids t))"
  have h: "hashes ?ks = alias_hashes sha ut (set (tree_members t))"
    unfolding alias_list_hashes tree_ids_set [OF assms] ..
  have kinds: "\<forall>k \<in> set ?ks. key_kind k \<in> set session_alias_kinds" by (auto simp: session_route_key_def)
  show "session_tree_aliases sha ut t = Inr keys \<Longrightarrow>
      hashes keys = alias_hashes sha ut (set (tree_members t)) \<and> distinct (map key_hash keys) \<and> length keys \<le> 500
      \<and> (\<forall>k \<in> set keys. key_kind k \<in> set session_alias_kinds)"
    using collect_aliases_Inr [of "[]" ?ks keys] h kinds unfolding session_tree_aliases_def by (auto simp: hashes_def)
  show "session_tree_aliases sha ut t = Inl e \<Longrightarrow> 500 < card (alias_hashes sha ut (set (tree_members t)))"
    using collect_aliases_Inl [of "[]" ?ks e] h unfolding session_tree_aliases_def by (simp add: hashes_def)
qed

lemma alias_kinds_valid: "kind \<in> set session_alias_kinds \<Longrightarrow> valid_kind kind"
  by (auto simp: session_alias_kinds_def valid_kind_def kind_byte_def is_ascii_alphanumeric_def is_ascii_digit_def
      is_ascii_lower_def is_ascii_upper_def byte_def)

text \<open>A request built from a tree passes every check of the daemon on its keys.\<close>

lemma payload_accepted:
  assumes "\<And>x. valid_affinity_hash (sha x)" "tree_root t \<in> set (tree_members t)"
    and "session_action_payload sha ut t act target dry = Inr req"
  shows "validate_action_request req = Inr (req_keys req)" "length (req_keys req) \<le> 500"
    "hashes (req_keys req) = alias_hashes sha ut (set (tree_members t))"
    "req_root req = root_session_key_hash sha ut (tree_root t)" "req_action req = act" "req_target req = target"
    "req_dry_run req = dry"
proof -
  obtain keys where k: "session_tree_aliases sha ut t = Inr keys"
    and req: "req = \<lparr>req_root = root_session_key_hash sha ut (tree_root t), req_keys = keys, req_action = act,
            req_target = target, req_dry_run = dry\<rparr>"
    using assms(3) by (auto simp: session_action_payload_def)
  note s = session_tree_aliases_spec(1) [OF assms(2) k]
  have "valid_affinity_hash h" if "h \<in> hashes keys" for h using s that assms(1) by (auto simp: alias_hashes_def affinity_hash_def)
  then have valid: "keys_valid keys" using s alias_kinds_valid by (auto simp: keys_valid_def hashes_def)
  then have v: "validate_session_route_keys keys = Inr keys"
    using validate_loop_id [of "[]" keys] s by (simp add: validate_session_route_keys_def)
  have "root_session_key_hash sha ut (tree_root t) \<in> hashes keys"
    using s assms(2) by (auto simp: alias_hashes_def root_session_key_hash_def session_alias_kinds_def)
  then have "list_ex (\<lambda>k. key_hash k = req_root req) keys" "keys \<noteq> []"
    by (auto simp: req hashes_def list_ex_iff)
  then show "validate_action_request req = Inr (req_keys req)"
    using v assms(1) by (simp add: req validate_action_request_def root_session_key_hash_def affinity_hash_def)
qed (use assms(3) session_tree_aliases_spec(1) [OF assms(2)] in \<open>auto simp: session_action_payload_def\<close>)

section \<open>Properties\<close>

lemma tree_root_member:
  assumes "tree_for c i = Inr t"
  shows "tree_root t \<in> set (tree_members t)"
  using assms by (auto simp: tree_for_Inr tree_of_members group_members_def)

text \<open>
  C12: an action covers the whole session and the daemon accepts it.  When the command line sends a
  rebalance or a reroute for a session of the discovered catalog, the keys of the request are exactly
  the aliases, in all four kinds, of the identifiers that are linked with the session through any
  chain of session, parent and fork references; its root is the alias of the common root of all of
  them; and the request passes the daemon's checks unchanged.
\<close>

theorem action_request_covers_session:
  assumes cat: "si_catalog io = discover js pu start" "discover js pu start = Inr c"
    and order: "\<And>S. finite S \<Longrightarrow> set (si_order io S) = S" and sha: "\<And>x. valid_affinity_hash (si_sha io x)"
    and sent: "rebalance_request io i dry = Inr req \<or> reroute_request io i to dry = Inr req"
  shows "hashes (req_keys req) = alias_hashes (si_sha io) (si_uuid_text io) ((linked c)\<^sup>* `` {i})
    \<and> (\<exists>r. req_root req = root_session_key_hash (si_sha io) (si_uuid_text io) r
          \<and> (\<forall>x \<in> (linked c)\<^sup>* `` {i}. canonical_root_of c x = Inr r))
    \<and> validate_action_request req = Inr (req_keys req) \<and> length (req_keys req) \<le> 500
    \<and> valid_session_route_hash (req_root req) \<and> (\<forall>k \<in> set (req_keys req). valid_session_route_hash (key_hash k))"
proof -
  obtain t act target where m: "mutation_tree_for (si_order io) c i = Inr t"
    and p: "session_action_payload (si_sha io) (si_uuid_text io) t act target dry = Inr req"
    using sent cat by (auto simp: rebalance_request_def reroute_request_def split: if_splits)
  have "tree_root t \<in> set (tree_members t)" using m by (auto simp: mutation_tree_Inr [OF order] tree_root_member)
  note a = payload_accepted [OF sha this p] mutation_tree_connected [OF cat(2) order m]
  have "\<forall>x \<in> (linked c)\<^sup>* `` {i}. canonical_root_of c x = Inr (tree_root t)" using a(8) by auto
  moreover have "keys_valid (req_keys req)" "valid_affinity_hash (req_root req)"
    using a(1) validate_valid by (auto simp: validate_action_request_def split: if_splits)
  ultimately show ?thesis using a by (auto simp: valid_session_route_hash_iff keys_valid_def)
qed

text \<open>
  An action is never sent for a part of a session.  A tree whose identifiers need more than 500
  keys is refused, whatever the action; any smaller tree is not.
\<close>

lemma oversized_session_refused:
  assumes "tree_for c i = Inr t"
  shows "session_action_payload sha ut t act target dry = Inl too_many_keys
     \<longleftrightarrow> 500 < card (alias_hashes sha ut (set (tree_members t)))"
proof -
  note root = tree_root_member [OF assms]
  have only: "collect_aliases found ks = Inl e \<Longrightarrow> e = too_many_keys" for found ks e
    by (induction found ks rule: collect_aliases.induct) (auto split: if_splits)
  show ?thesis
  proof (cases "session_tree_aliases sha ut t")
    case (Inl e)
    then have "e = too_many_keys" using only by (simp add: session_tree_aliases_def)
    with Inl session_tree_aliases_spec(2) [OF root Inl] show ?thesis by (simp add: session_action_payload_def)
  next
    case (Inr keys)
    from session_tree_aliases_spec(1) [OF root Inr] have "card (alias_hashes sha ut (set (tree_members t))) \<le> 500"
      using distinct_card [of "map key_hash keys"] by (simp add: hashes_def)
    with Inr show ?thesis by (simp add: session_action_payload_def)
  qed
qed

section \<open>A directory with two rollouts\<close>

definition sample_meta :: "string \<Rightarrow> json option" where
  "sample_meta l =
     (if l = ''1'' then Some (JObject [(''type'', JString ''session_meta''),
        (''payload'', JObject [(''id'', JString ''a''), (''session_id'', JString ''a'')])])
      else if l = ''2'' then Some (JObject [(''type'', JString ''session_meta''),
        (''payload'', JObject [(''id'', JString ''b''), (''session_id'', JString ''a''),
           (''parent_thread_id'', JString ''a''), (''forked_from_id'', JString ''a'')])])
      else None)"

definition sample_uuid :: "string \<Rightarrow> uuid option" where
  "sample_uuid s = (if s = ''a'' then Some 1 else if s = ''b'' then Some 2 else None)"

definition sample_rollout :: "string \<Rightarrow> int \<Rightarrow> rollout_file" where
  "sample_rollout l m = \<lparr>rf_name = ''r.jsonl'', rf_path = ''r.jsonl'', rf_modified = Some m, rf_opens = True,
     rf_lines = [Some ''x'', Some l]\<rparr>"

definition sample_directory :: "(string \<times> fs_entry list option) option" where
  "sample_directory = Some (''home'', Some [Fs_File (sample_rollout ''1'' 5), Fs_Dir ''sub'' (Some [Fs_File (sample_rollout ''2'' 7)])])"

lemma sample_name: "extension ''r.jsonl'' = Some ''jsonl''" "session_id_from_rollout_path pu ''r.jsonl'' = None"
  by (simp_all add: extension_def session_id_from_rollout_path_def file_stem_def)

lemma sample_scan:
  assumes "sample_meta l = Some v" "is_session_meta v" "length l = 1"
  shows "first_session_meta sample_meta (sample_rollout l m) = Inr (Some v)"
proof -
  have limit: "meta_line_limit = Suc (Suc 62)" by (simp add: meta_line_limit_def)
  have "sample_meta ''x'' = None" by (simp add: sample_meta_def)
  with assms have "scan_meta sample_meta p (Suc (Suc n)) 0 [Some ''x'', Some l] = Inr (Some v)" for p n
    by (simp add: meta_byte_limit_def)
  from this [of _ 62] show ?thesis
    unfolding first_session_meta_def sample_rollout_def limit rollout_file.simps if_True .
qed

lemma sample_ids: "trim ''a'' = ''a''" "trim ''b'' = ''b''" "sample_uuid ''a'' = Some 1" "sample_uuid ''b'' = Some 2"
  by (simp_all add: trim_plain plain_byte_def byte_def sample_uuid_def)

lemma sample_added:
  "add_file sample_meta sample_uuid (sample_rollout ''1'' 5) catalog_default
     = Inr \<lparr>cat_nodes = [hd (cat_nodes sample_catalog)], cat_issues = Map.empty\<rparr>"
  "add_file sample_meta sample_uuid (sample_rollout ''2'' 7) \<lparr>cat_nodes = [hd (cat_nodes sample_catalog)], cat_issues = Map.empty\<rparr>
     = Inr sample_catalog"
proof -
  obtain v w where v: "sample_meta ''1'' = Some v" "is_session_meta v" and w: "sample_meta ''2'' = Some w" "is_session_meta w"
    by (auto simp: sample_meta_def is_session_meta_def jget_def)
  then have vw: "v = the (sample_meta ''1'')" "w = the (sample_meta ''2'')" by simp_all
  have n: "rollout_node_from_meta sample_uuid v m
        = Inr \<lparr>nd_id = 1, nd_session = Some 1, nd_parent = None, nd_forked = None, nd_modified = m\<rparr>"
    "rollout_node_from_meta sample_uuid w m
        = Inr \<lparr>nd_id = 2, nd_session = Some 1, nd_parent = Some 1, nd_forked = Some 1, nd_modified = m\<rparr>" for m
    by (simp_all add: vw sample_meta_def rollout_node_from_meta_def jget_def required_uuid_field_def
        optional_uuid_field_def sample_ids)
  have r: "rf_name (sample_rollout l m) = ''r.jsonl''" "rf_modified (sample_rollout l m) = Some m" for l m
    by (simp_all add: sample_rollout_def)
  show "add_file sample_meta sample_uuid (sample_rollout ''1'' 5) catalog_default
     = Inr \<lparr>cat_nodes = [hd (cat_nodes sample_catalog)], cat_issues = Map.empty\<rparr>"
    by (simp add: add_file_def sample_scan [OF v] add_session_def r sample_name n or_default_def insert_node_def
        catalog_default_def sample_catalog_def)
  show "add_file sample_meta sample_uuid (sample_rollout ''2'' 7) \<lparr>cat_nodes = [hd (cat_nodes sample_catalog)], cat_issues = Map.empty\<rparr>
     = Inr sample_catalog"
    by (simp add: add_file_def sample_scan [OF w] add_session_def r sample_name n or_default_def insert_node_def
        catalog_default_def sample_catalog_def)
qed

lemma sample_discovered: "discover sample_meta sample_uuid sample_directory = Inr sample_catalog"
proof -
  have "extension (rf_name (sample_rollout l m)) = Some ''jsonl''" for l m by (simp add: sample_rollout_def sample_name)
  then show ?thesis by (simp add: discover_def sample_directory_def sample_added)
qed

definition sample_session_io :: session_io where
  "sample_session_io = \<lparr>si_sha = sample_sha, si_uuid_text = \<lambda>x. if x = 1 then ''a'' else ''b'', si_order = sorted_list_of_set,
     si_hash_order = \<lambda>_. [], si_catalog = discover sample_meta sample_uuid sample_directory\<rparr>"

lemma sample_sha_valid: "valid_affinity_hash (sample_sha x)"
  by (simp add: valid_affinity_hash_def sample_sha_def lower_hex_def byte_def list_all_iff)

lemma sample_few_hashes: "card (alias_hashes sample_sha ut X) \<le> 500"
proof -
  have "alias_hashes sample_sha ut X \<subseteq> {sample_sha [CHR ''x'']}"
    by (auto simp: alias_hashes_def affinity_hash_def sample_sha_def)
  then have "card (alias_hashes sample_sha ut X) \<le> card {sample_sha [CHR ''x'']}" by (intro card_mono) simp_all
  then show ?thesis by simp
qed

lemma sample_rebalance: "\<exists>req. rebalance_request sample_session_io 2 False = Inr req"
proof -
  obtain t where m: "mutation_tree_for sorted_list_of_set sample_catalog 2 = Inr t"
    by (rule consistent_mutation [OF sample_consistent sample_order])
  then have root: "tree_root t \<in> set (tree_members t)" by (auto simp: mutation_tree_Inr [OF sample_order] tree_root_member)
  show ?thesis
  proof (cases "session_tree_aliases sample_sha (si_uuid_text sample_session_io) t")
    case (Inl e)
    with session_tree_aliases_spec(2) [OF root Inl] sample_few_hashes show ?thesis by (simp add: not_less [symmetric])
  next
    case (Inr keys)
    with m show ?thesis
      by (simp add: rebalance_request_def sample_session_io_def sample_discovered session_action_payload_def)
  qed
qed

lemma action_request_covers_session_witness:
  "\<exists>req. rebalance_request sample_session_io 2 False = Inr req
     \<and> hashes (req_keys req) = alias_hashes sample_sha (si_uuid_text sample_session_io) {1, 2}
     \<and> validate_action_request req = Inr (req_keys req)"
proof -
  obtain req where req: "rebalance_request sample_session_io 2 False = Inr req" using sample_rebalance by blast
  have io: "si_catalog sample_session_io = discover sample_meta sample_uuid sample_directory" "si_sha sample_session_io = sample_sha"
    "si_order sample_session_io = sorted_list_of_set"
    by (simp_all add: sample_session_io_def)
  from action_request_covers_session [OF io(1) sample_discovered _ _ disjI1 [OF req], unfolded io sample_linked]
  show ?thesis using req sample_sha_valid by auto
qed

lemma oversized_session_refused_witness:
  "\<exists>t. tree_for sample_catalog 2 = Inr t \<and> session_action_payload sample_sha (\<lambda>_. []) t Rebalance None False \<noteq> Inl too_many_keys"
proof -
  obtain t where "mutation_tree_for sorted_list_of_set sample_catalog 2 = Inr t"
    by (rule consistent_mutation [OF sample_consistent sample_order])
  then have t: "tree_for sample_catalog 2 = Inr t" by (simp add: mutation_tree_Inr [OF sample_order])
  from oversized_session_refused [OF t] sample_few_hashes t show ?thesis by (auto simp: not_less [symmetric])
qed

end
