(* ===== verification/Text_Format.thy ===== *)
theory Text_Format
  imports Stream_Metadata
begin

text \<open>
  Rust's formatting of floating numbers and the text helpers of the status view, on UTF-8 byte
  strings.  A number is its exact value: \<open>{:.d}\<close> rounds it half to even to \<open>d\<close> decimals,
  \<open>f64::round\<close> rounds half away from zero.
\<close>

section \<open>Numbers\<close>

definition round_half_even :: "rat \<Rightarrow> int" where
  "round_half_even x =
     (let n = \<lfloor>x\<rfloor>; r = x - of_int n
      in if r < 1 / 2 then n else if 1 / 2 < r then n + 1 else if even n then n else n + 1)"

definition round_away :: "rat \<Rightarrow> int" where
  "round_away x = (if 0 \<le> x then \<lfloor>x + 1 / 2\<rfloor> else - \<lfloor>1 / 2 - x\<rfloor>)"

definition pad_left :: "char \<Rightarrow> nat \<Rightarrow> string \<Rightarrow> string" where
  "pad_left c n s = replicate (n - length s) c @ s"

text \<open>\<open>decimals d n\<close> writes \<open>n / 10^d\<close> with \<open>d\<close> decimals.\<close>

definition decimals :: "nat \<Rightarrow> nat \<Rightarrow> string" where
  "decimals d n =
     (if d = 0 then show_nat n
      else show_nat (n div 10 ^ d) @ CHR ''.'' # pad_left (CHR ''0'') d (show_nat (n mod 10 ^ d)))"

definition fmt_fixed :: "nat \<Rightarrow> rat \<Rightarrow> string" where
  "fmt_fixed d x =
     (if x < 0 then CHR ''-'' # decimals d (nat (round_half_even (- x * 10 ^ d)))
      else decimals d (nat (round_half_even (x * 10 ^ d))))"

lemma round_half_even_int [simp]: "round_half_even (of_int n) = n"
  by (simp add: round_half_even_def)

lemma round_half_even_near: "\<bar>of_int (round_half_even x) - x\<bar> \<le> 1 / 2"
proof -
  have "of_int \<lfloor>x\<rfloor> \<le> x" "x < of_int \<lfloor>x\<rfloor> + 1" by linarith+
  then show ?thesis by (auto simp: round_half_even_def Let_def abs_le_iff)
qed

lemma round_away_near: "\<bar>of_int (round_away x) - x\<bar> \<le> 1 / 2"
  unfolding round_away_def abs_le_iff by (cases "0 \<le> x"; simp only: if_True if_False; linarith)

lemma show_nat_digits: "list_all is_ascii_digit (show_nat n)"
proof (induction n rule: show_nat.induct)
  case (1 n)
  show ?case
  proof (cases "n < 10")
    case True
    then show ?thesis using digit_char [of n] by (subst show_nat.simps) simp
  next
    case False
    then show ?thesis using 1 digit_char [of "n mod 10"] by (subst show_nat.simps) simp
  qed
qed

lemma show_nat_inject: "show_nat m = show_nat n \<Longrightarrow> m = n"
  by (metis digits_value_show option.inject)

lemma digits_value_zeros: "digits_value 0 (replicate k (CHR ''0'') @ s) = digits_value 0 s"
  by (induction k) (simp_all add: is_ascii_digit_def byte_def)

lemma append_sep_inject:
  "x \<notin> set a \<Longrightarrow> x \<notin> set b \<Longrightarrow> a @ x # s = b @ x # t \<Longrightarrow> a = b \<and> s = t"
proof (induction a arbitrary: b)
  case Nil
  then show ?case by (cases b) auto
next
  case (Cons y a)
  then show ?case by (cases b) auto
qed

lemma decimals_inject:
  assumes "decimals d m = decimals d n"
  shows "m = n"
proof (cases "d = 0")
  case True
  with assms show ?thesis by (simp add: decimals_def show_nat_inject)
next
  case False
  let ?dot = "CHR ''.''"
  have nodot: "?dot \<notin> set (show_nat k)" for k
    using show_nat_digits [of k] by (auto simp: list_all_iff is_ascii_digit_def byte_def)
  have eq: "show_nat (m div 10 ^ d) = show_nat (n div 10 ^ d)
      \<and> pad_left (CHR ''0'') d (show_nat (m mod 10 ^ d)) = pad_left (CHR ''0'') d (show_nat (n mod 10 ^ d))"
    using assms False by (intro append_sep_inject [OF nodot nodot]) (simp add: decimals_def)
  have pad: "digits_value 0 (pad_left (CHR ''0'') d (show_nat k)) = Some k" for k
    by (simp add: pad_left_def digits_value_zeros digits_value_show)
  have "m div 10 ^ d = n div 10 ^ d" using eq show_nat_inject by blast
  moreover have "m mod 10 ^ d = n mod 10 ^ d" using eq pad by (metis option.inject)
  ultimately show ?thesis by (metis div_mult_mod_eq)
qed

text \<open>An \<open>i64\<close> sum in the release build wraps around.\<close>

definition i64_wrap :: "int \<Rightarrow> int" where
  "i64_wrap x = (x + 2 ^ 63) mod 2 ^ 64 - 2 ^ 63"

section \<open>Characters\<close>

text \<open>A character of a UTF-8 string starts at each byte that does not continue one.\<close>

definition continues :: "char \<Rightarrow> bool" where
  "continues c \<longleftrightarrow> 128 \<le> byte c \<and> byte c < 192"

definition count_chars :: "string \<Rightarrow> nat" where
  "count_chars s = length (filter (\<lambda>c. \<not> continues c) s)"

definition utf8 :: "nat list \<Rightarrow> string" where
  "utf8 bs = map char_of bs"

definition to_ascii_upper :: "char \<Rightarrow> char" where
  "to_ascii_upper c = (if is_ascii_lower c then char_of (byte c - 32) else c)"

definition to_ascii_uppercase :: "string \<Rightarrow> string" where
  "to_ascii_uppercase s = map to_ascii_upper s"

lemma count_take_chars: "count_chars (take_chars n s) \<le> n"
  by (induction n s rule: take_chars.induct) (auto simp: count_chars_def continues_def split: nat.splits)

lemma take_chars_all: "count_chars s \<le> n \<Longrightarrow> take_chars n s = s"
  by (induction n s rule: take_chars.induct) (auto simp: count_chars_def continues_def split: nat.splits if_splits)

lemma take_chars_subset: "set (take_chars n s) \<subseteq> set s"
  by (induction n s rule: take_chars.induct) (auto split: nat.splits if_splits)

lemma count_chars_append [simp]: "count_chars (a @ b) = count_chars a + count_chars b"
  by (simp add: count_chars_def)

section \<open>Words\<close>

text \<open>\<open>str::split_whitespace\<close>; \<open>word\<close> is the word read so far.\<close>

function split_words :: "string \<Rightarrow> string \<Rightarrow> string list" where
  "split_words word [] = (if word = [] then [] else [word])"
| "split_words word (c # cs) =
     (case first_prefix white_space (c # cs) of
        Some r \<Rightarrow> if word = [] then split_words [] r else word # split_words [] r
      | None \<Rightarrow> split_words (word @ [c]) cs)"
  by pat_completeness auto
termination
proof (relation "measure (\<lambda>(word, s). length s)")
  have "[] \<notin> set white_space" using white_space_hd by auto
  then show "\<And>word c cs r. first_prefix white_space (c # cs) = Some r \<Longrightarrow> word = [] \<Longrightarrow>
      (([], r), word, c # cs) \<in> measure (\<lambda>(word, s). length s)"
    "\<And>word c cs r. first_prefix white_space (c # cs) = Some r \<Longrightarrow> word \<noteq> [] \<Longrightarrow>
      (([], r), word, c # cs) \<in> measure (\<lambda>(word, s). length s)"
    by (auto dest: first_prefix_shorter)
qed simp_all

fun join :: "string \<Rightarrow> string list \<Rightarrow> string" where
  "join sep [] = []"
| "join sep [w] = w"
| "join sep (w # ws) = w @ sep @ join sep ws"

definition ellipsis :: string where
  "ellipsis = utf8 [0xE2, 0x80, 0xA6]"

definition one_line :: "string \<Rightarrow> nat \<Rightarrow> string" where
  "one_line v limit =
     (let line = join '' '' (split_words [] v)
      in if count_chars line \<le> limit then line else take_chars limit line @ ellipsis)"

end
