(* ===== verification/Status_View.thy ===== *)
theory Status_View
  imports Text_Format Upstream Config
begin

text \<open>
  The status of the pool (\<open>src/status.rs\<close>): the overview the status API answers with, and the text,
  tooltip and classes of the status bar.  The overview reads the settings, the accounts, the quota
  windows and one sample per window in separate queries, so each is read from a store of its own.
\<close>

section \<open>The overview\<close>

record window_status =
  ws_quota_key :: string
  ws_quota_name :: string
  ws_window :: string
  ws_used_percent :: rat
  ws_remaining_percent :: rat
  ws_window_seconds :: "int option"
  ws_reset_at :: "datetime option"
  ws_fetched_at :: datetime
  ws_pace :: pace_metrics

record api_cost_estimate =
  ce_lower_usd :: rat
  ce_upper_usd :: rat
  ce_complete :: int
  ce_partial :: int
  ce_unpriced :: int
  ce_basis :: string
  ce_pricing_as_of :: string
  ce_source_url :: string

record account_status =
  as_id :: uuid
  as_label :: string
  as_plan :: string
  as_status :: string
  as_available :: bool
  as_selected :: bool
  as_status_reason :: "string option"
  as_auth_expires_at :: "datetime option"
  as_usage_refresh_at :: "datetime option"
  as_usage_error :: "string option"
  as_last_selected_at :: "datetime option"
  as_last_request_at :: "datetime option"
  as_cooldown_until :: "datetime option"
  as_inflight :: int
  as_requests :: int
  as_input :: int
  as_cached :: int
  as_cache_write :: int
  as_output :: int
  as_cost :: api_cost_estimate
  as_quotas :: "window_status list"

record pool_status =
  ps_service :: string
  ps_version :: string
  ps_healthy :: bool
  ps_degraded :: bool
  ps_routing_strategy :: string
  ps_account_count :: nat
  ps_active_count :: nat
  ps_available_count :: nat
  ps_inflight :: int
  ps_selected_account :: "string option"
  ps_accounts :: "account_status list"
  ps_generated_at :: datetime

definition pricing_as_of :: string where
  "pricing_as_of = ''2026-07-22''"

definition pricing_source :: string where
  "pricing_source = ''https://developers.openai.com/api/docs/pricing''"

definition pricing_basis :: string where
  "pricing_basis = ''OpenAI Standard API-equivalent text-token pricing in USD; normalizes recognized requests to Standard service-tier rates and excludes regional processing uplifts, tools, and other separately billed features''"

definition nano_usd_to_usd :: "int \<Rightarrow> rat" where
  "nano_usd_to_usd v = of_int (max v 0) / 1000000000"

definition window_status_of ::
  "upstream_io \<Rightarrow> (usage_window \<Rightarrow> db) \<Rightarrow> datetime \<Rightarrow> usage_window \<Rightarrow> window_status" where
  "window_status_of io samples now w =
     (let previous = map_option (\<lambda>s. (smp_used_percent s, stamp io (smp_recorded_at s), map_option (stamp io) (smp_reset_at s)))
            (previous_usage_sample (io_sqlite io) w (samples w));
          fetched = stamp io (w_fetched_at w); reset = map_option (stamp io) (w_reset_at w);
          parsed = \<lparr>pw_quota_key = w_quota_key w, pw_quota_name = w_quota_name w, pw_source_slot = w_source_slot w,
            pw_window_kind = w_kind w, pw_used_percent = w_used_percent w, pw_window_seconds = w_window_seconds w,
            pw_reset_at = reset\<rparr>
      in \<lparr>ws_quota_key = w_quota_key w, ws_quota_name = w_quota_name w, ws_window = w_kind w,
          ws_used_percent = w_used_percent w, ws_remaining_percent = max (100 - w_used_percent w) 0,
          ws_window_seconds = w_window_seconds w, ws_reset_at = reset, ws_fetched_at = fetched,
          ws_pace = pace_metrics_of (io_add io) parsed fetched previous\<rparr>)"

definition window_blocks :: "datetime \<Rightarrow> window_status \<Rightarrow> bool" where
  "window_blocks now w \<longleftrightarrow> ws_quota_key w = ''codex'' \<and> 100 \<le> ws_used_percent w
     \<and> (case ws_reset_at w of None \<Rightarrow> True | Some t \<Rightarrow> now < t)"

definition to_account_status ::
  "upstream_io \<Rightarrow> account_summary \<Rightarrow> nat \<Rightarrow> window_status list \<Rightarrow> datetime \<Rightarrow> bool \<Rightarrow> account_status" where
  "to_account_status io a i quotas now is_chosen =
     (let cooldown = map_option (stamp io) (sum_cooldown_until a); active = (sum_status a = ''active'')
      in \<lparr>as_id = sum_id a,
          as_label = (if sum_label a = [] then ''account-'' @ show_nat (i + 1) else sum_label a),
          as_plan = sum_plan a, as_status = sum_status a,
          as_available = (active \<and> (case cooldown of None \<Rightarrow> True | Some t \<Rightarrow> t \<le> now) \<and> \<not> list_ex (window_blocks now) quotas),
          as_selected = is_chosen,
          as_status_reason = (if \<not> active then sum_status_reason a
            else if (case cooldown of None \<Rightarrow> False | Some t \<Rightarrow> now < t) then sum_cooldown_reason a else None),
          as_auth_expires_at = map_option (stamp io) (sum_expires_at a),
          as_usage_refresh_at = map_option (stamp io) (sum_usage_refresh_at a),
          as_usage_error = sum_usage_error a,
          as_last_selected_at = map_option (stamp io) (sum_last_selected_at a),
          as_last_request_at = map_option (stamp io) (sum_last_request_at a),
          as_cooldown_until = cooldown, as_inflight = sum_inflight a, as_requests = sum_requests a,
          as_input = sum_input a, as_cached = sum_cached a, as_cache_write = sum_cache_write a, as_output = sum_output a,
          as_cost = \<lparr>ce_lower_usd = nano_usd_to_usd (sum_cost_lower a), ce_upper_usd = nano_usd_to_usd (sum_cost_upper a),
            ce_complete = sum_complete a, ce_partial = sum_partial a, ce_unpriced = sum_unpriced a,
            ce_basis = pricing_basis, ce_pricing_as_of = pricing_as_of, ce_source_url = pricing_source\<rparr>,
          as_quotas = quotas\<rparr>)"

text \<open>\<open>max_by\<close> returns the last of several greatest elements.\<close>

definition last_max :: "('a \<Rightarrow> 'b::linorder) \<Rightarrow> 'a list \<Rightarrow> 'a option" where
  "last_max key xs =
     fold (\<lambda>x best. case best of None \<Rightarrow> Some x | Some b \<Rightarrow> if key b \<le> key x then Some x else Some b) xs None"

text \<open>The windows by account, taken out of the map as each account is reached.\<close>

fun account_statuses ::
  "upstream_io \<Rightarrow> (usage_window \<Rightarrow> db) \<Rightarrow> datetime \<Rightarrow> uuid option \<Rightarrow> nat \<Rightarrow> (uuid \<Rightarrow> usage_window list)
     \<Rightarrow> account_summary list \<Rightarrow> account_status list" where
  "account_statuses io samples now chosen i by_account [] = []"
| "account_statuses io samples now chosen i by_account (a # as) =
     (let quotas = sort_key (\<lambda>w. (ws_quota_key w, ws_window_seconds w \<noteq> None, or_default (ws_window_seconds w) 0))
            (map (window_status_of io samples now) (by_account (sum_id a)))
      in to_account_status io a i quotas now (chosen = Some (sum_id a))
           # account_statuses io samples now chosen (i + 1) (by_account(sum_id a := [])) as)"

definition selected_id :: "upstream_io \<Rightarrow> account_summary list \<Rightarrow> uuid option" where
  "selected_id io accounts =
     map_option snd (last_max fst (List.map_filter (\<lambda>a. map_option (\<lambda>t. (stamp io t, sum_id a)) (sum_last_selected_at a)) accounts))"

text \<open>Four intervals: \<open>None\<close> where the product overflows a \<open>Duration\<close> and panics, ten minutes where
  it does not fit chrono's milliseconds.\<close>

definition stale_after :: "nat \<Rightarrow> int option" where
  "stale_after interval =
     (if 2 ^ 64 \<le> 4 * interval then None
      else if int (4 * interval) * 1000 \<le> i64_max then Some (int (4 * interval) * nanos_per_second)
      else Some (600 * nanos_per_second))"

definition needs_attention :: "datetime \<Rightarrow> int \<Rightarrow> account_status \<Rightarrow> bool" where
  "needs_attention now stale a \<longleftrightarrow>
     as_usage_error a \<noteq> None \<or> (case as_usage_refresh_at a of None \<Rightarrow> True | Some t \<Rightarrow> stale < now - t)"

definition pool_status_of :: "runtime_settings \<Rightarrow> datetime \<Rightarrow> uuid option \<Rightarrow> int \<Rightarrow> account_status list \<Rightarrow> pool_status" where
  "pool_status_of st now chosen stale accounts =
     (let available = length (filter as_available accounts)
      in \<lparr>ps_service = ''codex-lb-rs'', ps_version = ''0.1.0'', ps_healthy = (0 < available),
          ps_degraded = (accounts = [] \<or> available < length accounts \<or> list_ex (needs_attention now stale) accounts),
          ps_routing_strategy = routing_strategy st, ps_account_count = length accounts,
          ps_active_count = length (filter (\<lambda>a. as_status a = ''active'') accounts), ps_available_count = available,
          ps_inflight = i64_wrap (sum_list (map as_inflight accounts)),
          ps_selected_account = Option.bind chosen (\<lambda>i. map_option as_label (List.find (\<lambda>a. as_id a = i) accounts)),
          ps_accounts = accounts, ps_generated_at = now\<rparr>)"

definition build_status ::
  "upstream_io \<Rightarrow> config \<Rightarrow> instant \<Rightarrow> db \<Rightarrow> db \<Rightarrow> db \<Rightarrow> (usage_window \<Rightarrow> db) \<Rightarrow> pool_status option" where
  "build_status io c t ds da dw samples =
     (let now = clock_of io t; accounts = list_accounts da; windows = list_usage_windows dw;
          chosen = selected_id io accounts;
          statuses = account_statuses io samples now chosen 0 (\<lambda>i. filter (\<lambda>w. w_account w = i) windows) accounts
      in map_option (\<lambda>stale. pool_status_of (load_runtime_settings (t_settings ds)) now chosen stale statuses)
           (stale_after (cfg_usage_refresh_interval c)))"

section \<open>The words of the status bar\<close>

definition human_duration :: "int \<Rightarrow> string" where
  "human_duration seconds =
     (if seconds < 60 then ''<1m''
      else (let days = seconds div 86400; hours = seconds mod 86400 div 3600; minutes = seconds mod 3600 div 60
            in if 0 < days then show_int days @ ''d '' @ show_int hours @ ''h''
               else if 0 < hours then show_int hours @ ''h '' @ show_int minutes @ ''m''
               else show_int minutes @ ''m''))"

definition reset_eta :: "datetime option \<Rightarrow> datetime \<Rightarrow> string" where
  "reset_eta reset now =
     (case map_option (\<lambda>t. num_seconds (t - now)) reset of
        None \<Rightarrow> ''unknown''
      | Some seconds \<Rightarrow> if seconds \<le> 0 then ''due; refresh pending'' else ''in '' @ human_duration seconds)"

definition em_dash :: string where
  "em_dash = utf8 [0xE2, 0x80, 0x94]"

definition exhaustion_forecast :: "window_status \<Rightarrow> datetime \<Rightarrow> string" where
  "exhaustion_forecast w now =
     (if (case ws_reset_at w of None \<Rightarrow> False | Some t \<Rightarrow> t \<le> now) then ''ETA stale''
      else if 100 \<le> ws_used_percent w then ''empty now''
      else case projected_exhaustion (ws_pace w) of
             None \<Rightarrow> ''empty ETA '' @ em_dash
           | Some projected \<Rightarrow>
               if (case ws_reset_at w of None \<Rightarrow> False | Some t \<Rightarrow> t \<le> projected) then ''survives to reset''
               else (let seconds = num_seconds (projected - now)
                     in if seconds \<le> 0 then ''empty ETA due'' else ''empty in ~'' @ human_duration seconds))"

definition account_display_state :: "account_status \<Rightarrow> datetime \<Rightarrow> string" where
  "account_display_state a now =
     (if as_status a = ''auth_failed'' then ''SIGN IN''
      else if as_status a = ''paused'' then ''PAUSED''
      else if (case as_cooldown_until a of None \<Rightarrow> False | Some t \<Rightarrow> now < t) then ''COOLDOWN''
      else if \<not> as_available a then ''UNAVAILABLE''
      else if as_quotas a = [] then ''NO DATA''
      else if as_usage_error a \<noteq> None then ''STALE''
      else ''READY'')"

definition usage_bar :: "rat \<Rightarrow> string" where
  "usage_bar used =
     (let filled = nat (round_away (min 100 (max 0 used) / 10))
      in concat (replicate filled (utf8 [0xE2, 0x96, 0x88])) @ concat (replicate (10 - filled) (utf8 [0xE2, 0x96, 0x91])))"

definition pace_arrow :: "window_status \<Rightarrow> string" where
  "pace_arrow w =
     (let risk = pace_risk (ws_pace w)
      in if risk = ''critical'' \<or> risk = ''danger'' then utf8 [0xE2, 0x86, 0x91]
         else if risk = ''warning'' then utf8 [0xE2, 0x86, 0x97]
         else if risk = ''safe'' then utf8 [0xE2, 0x86, 0x92] else ''?'')"

definition short_label :: "string \<Rightarrow> string" where
  "short_label label = (case List.find is_ascii_alphanumeric label of Some c \<Rightarrow> [to_ascii_upper c] | None \<Rightarrow> ''?'')"

definition codex_quotas :: "account_status \<Rightarrow> window_status list" where
  "codex_quotas a = filter (\<lambda>w. ws_quota_key w = ''codex'') (as_quotas a)"

definition display_window :: "account_status \<Rightarrow> window_status option" where
  "display_window a = last_max (\<lambda>w. (ws_used_percent w, or_default (pace_ratio (ws_pace w)) 0)) (codex_quotas a)"

definition compact_account_state :: "account_status \<Rightarrow> datetime \<Rightarrow> string" where
  "compact_account_state a now =
     (if as_status a = ''auth_failed'' then ''login''
      else if as_status a = ''paused'' then ''pause''
      else if (case as_cooldown_until a of None \<Rightarrow> False | Some t \<Rightarrow> now < t) then ''wait''
      else case display_window a of
             Some w \<Rightarrow>
               if 100 \<le> ws_used_percent w then ''100%''
               else if as_available a then fmt_fixed 0 (ws_used_percent w) @ ''%'' @ pace_arrow w
               else ''!''
           | None \<Rightarrow> if as_available a then em_dash else ''!'')"

section \<open>Counts and amounts\<close>

fun scale_down :: "nat \<Rightarrow> rat \<Rightarrow> nat \<times> rat" where
  "scale_down 0 x = (0, x)"
| "scale_down (Suc k) x = (if 1000 \<le> x then map_prod Suc id (scale_down k (x / 1000)) else (0, x))"

definition count_units :: "string list" where
  "count_units = ['''', ''k'', ''M'', ''B'', ''T'', ''P'', ''E'']"

definition compact_count :: "int \<Rightarrow> string" where
  "compact_count v =
     (let (u, scaled) = scale_down 6 (of_int \<bar>v\<bar>)
      in if u = 0 then show_int v
         else (let factor = (if scaled < 100 then 10 else 1);
                   rounded = of_int (round_away (scaled * factor)) / factor;
                   (u', shown) = (if 1000 \<le> rounded \<and> u < 6 then (u + 1, rounded / 1000) else (u, rounded))
               in (if v < 0 then ''-'' else '''')
                  @ (if frac shown = 0 then fmt_fixed 0 shown else fmt_fixed 1 shown) @ count_units ! u'))"

definition format_usd :: "rat \<Rightarrow> string" where
  "format_usd value =
     (let v = max value 0
      in if 1000000 \<le> v then ''$'' @ fmt_fixed 1 (v / 1000000) @ ''M''
         else if 1000 \<le> v then ''$'' @ fmt_fixed 1 (v / 1000) @ ''k''
         else if 100 \<le> v then ''$'' @ fmt_fixed 0 v
         else if 10 \<le> v then ''$'' @ fmt_fixed 1 v
         else ''$'' @ fmt_fixed 2 v)"

definition usd_range :: "string \<Rightarrow> string \<Rightarrow> string" where
  "usd_range lower upper = utf8 [0xE2, 0x89, 0x88] @ lower @ utf8 [0xE2, 0x80, 0x93] @ upper"

definition format_usd_estimate :: "rat \<Rightarrow> rat \<Rightarrow> string" where
  "format_usd_estimate lo hi =
     (let lower = max lo 0; upper = max hi 0
      in if lower = upper then utf8 [0xE2, 0x89, 0x88] @ format_usd lower
         else if format_usd lower \<noteq> format_usd upper then usd_range (format_usd lower) (format_usd upper)
         else case List.find (\<lambda>k. ''$'' @ fmt_fixed k lower \<noteq> ''$'' @ fmt_fixed k upper) [2..<10] of
                Some k \<Rightarrow> usd_range (''$'' @ fmt_fixed k lower) (''$'' @ fmt_fixed k upper)
              | None \<Rightarrow> utf8 [0xE2, 0x89, 0x88] @ format_usd lower)"

definition bullet :: string where
  "bullet = ''  '' @ utf8 [0xE2, 0x80, 0xA2] @ ''  ''"

definition format_api_cost :: "account_status \<Rightarrow> string" where
  "format_api_cost a =
     (let e = as_cost a; covered = i64_wrap (ce_complete e + ce_partial e)
      in if covered \<le> 0 then em_dash @ bullet @ ''no priced usage''
         else (let amount = format_usd_estimate (ce_lower_usd e) (ce_upper_usd e);
                   population = i64_wrap (covered + ce_unpriced e)
               in if population \<le> 0 then amount
                  else amount @ bullet
                       @ fmt_fixed 0 (min 100 (max 0 (of_int covered / of_int population * 100))) @ ''% requests priced''))"

section \<open>The status bar\<close>

record waybar_status =
  wb_text :: string
  wb_tooltip :: string
  wb_class :: "string list"
  wb_percentage :: int
  wb_alt :: string

definition pool_icon :: string where
  "pool_icon = utf8 [0xF3, 0xB0, 0xAC, 0xAB]"

definition new_line :: string where
  "new_line = utf8 [10]"

definition mark_dot :: "bool \<Rightarrow> string \<Rightarrow> string" where
  "mark_dot is_chosen otherwise = (if is_chosen then utf8 [0xE2, 0x97, 0x8F] else otherwise)"

definition text_account :: "datetime \<Rightarrow> account_status \<Rightarrow> string" where
  "text_account now a = mark_dot (as_selected a) '''' @ short_label (as_label a) @ '':'' @ compact_account_state a now"

definition quota_lines :: "datetime \<Rightarrow> window_status \<Rightarrow> string" where
  "quota_lines now w =
     (let row = new_line @ utf8 [0xE2, 0x94, 0x82] @ '' '';
          percent = (\<lambda>x. pad_left (CHR '' '') 3 (fmt_fixed 0 x))
      in new_line @ utf8 [0xE2, 0x94, 0x9C] @ '' '' @ ws_quota_name w @ bullet @ ws_window w
         @ row @ usage_bar (ws_used_percent w) @ ''  '' @ percent (ws_used_percent w) @ ''% used'' @ bullet
         @ percent (ws_remaining_percent w) @ ''% free''
         @ row @ ''at pace  '' @ exhaustion_forecast w now @ bullet @ to_ascii_uppercase (pace_risk (ws_pace w))
         @ row @ ''reset '' @ reset_eta (ws_reset_at w) now)"

definition account_lines :: "datetime \<Rightarrow> account_status \<Rightarrow> string" where
  "account_lines now a =
     (let row = new_line @ utf8 [0xE2, 0x94, 0x82] @ '' ''
      in new_line @ new_line @ utf8 [0xE2, 0x94, 0x8C] @ '' '' @ mark_dot (as_selected a) (utf8 [0xE2, 0x97, 0x8B]) @ '' ''
         @ to_ascii_uppercase (as_label a) @ bullet @ to_ascii_uppercase (as_plan a) @ bullet @ account_display_state a now
         @ (if as_status a = ''auth_failed'' then row @ ''Device login required''
            else case as_status_reason a of Some reason \<Rightarrow> row @ one_line reason 88 | None \<Rightarrow> [])
         @ (if as_quotas a = [] then row @ ''No fresh quota data'' else [])
         @ concat (map (quota_lines now) (codex_quotas a))
         @ (if as_status a \<noteq> ''auth_failed''
            then (case as_usage_error a of Some err \<Rightarrow> row @ ''Usage: '' @ one_line err 88 | None \<Rightarrow> []) else [])
         @ new_line @ utf8 [0xE2, 0x94, 0x9C] @ '' Activity  '' @ compact_count (as_requests a) @ '' requests'' @ bullet
         @ compact_count (as_input a) @ '' input / '' @ compact_count (as_output a) @ '' output tokens''
         @ new_line @ utf8 [0xE2, 0x94, 0x94] @ '' API equivalent  '' @ format_api_cost a)"

definition format_waybar :: "pool_status \<Rightarrow> waybar_status" where
  "format_waybar p =
     (if ps_accounts p = [] then
        \<lparr>wb_text = pool_icon @ '' no accounts'', wb_tooltip = ''Codex pool is running, but no accounts are configured.'',
         wb_class = [''codex-pool'', ''degraded''], wb_percentage = 0, wb_alt = ''empty''\<rparr>
      else
        (let windows = concat (map codex_quotas (ps_accounts p));
             hottest = fold (\<lambda>w h. max h (ws_used_percent w)) windows 0;
             pace_hot = list_ex (\<lambda>w. pace_risk (ws_pace w) = ''critical'' \<or> pace_risk (ws_pace w) = ''danger'') windows
         in \<lparr>wb_text = pool_icon @ '' '' @ join ('' '' @ utf8 [0xC2, 0xB7] @ '' '') (map (text_account (ps_generated_at p)) (ps_accounts p)),
             wb_tooltip = ''CODEX POOL'' @ bullet @ show_nat (ps_available_count p) @ ''/'' @ show_nat (ps_account_count p) @ '' READY''
               @ new_line @ map (\<lambda>c. if c = CHR ''_'' then CHR '' '' else c) (ps_routing_strategy p) @ bullet @ ''cached locally''
               @ new_line @ ''API equivalent'' @ bullet @ ''standard rates '' @ pricing_as_of @ bullet @ ''not a bill''
               @ concat (map (account_lines (ps_generated_at p)) (ps_accounts p)),
             wb_class = [''codex-pool'', if \<not> ps_healthy p \<or> ps_degraded p then ''degraded'' else ''healthy'']
               @ (if pace_hot then [''pace-hot''] else []) @ (if 90 \<le> hottest then [''pool-low''] else []),
             wb_percentage = clamp (- (2 ^ 31)) (2 ^ 31 - 1) (round_away hottest),
             wb_alt = (if \<not> ps_healthy p then ''unavailable'' else if ps_degraded p then ''degraded'' else ''healthy'')\<rparr>))"

section \<open>The status command\<close>

text \<open>The path asked for and, for the daemon's reply or the error of the call, what the command prints; a
  status bar gets a value even when the daemon is away.\<close>

definition status_path :: "bool \<Rightarrow> string" where
  "status_path waybar = (if waybar then ''/api/v1/status/waybar'' else ''/api/v1/status'')"

definition run_status :: "bool \<Rightarrow> json any_result \<Rightarrow> json any_result" where
  "run_status waybar reply =
     (case reply of
        Inr v \<Rightarrow> Inr v
      | Inl e \<Rightarrow>
          if waybar then Inr (JObject [(''text'', JString (pool_icon @ '' offline'')),
            (''tooltip'', JString (''codex-lb-rs is unavailable: '' @ e)),
            (''class'', JArray [JString ''codex-pool'', JString ''offline'']),
            (''percentage'', JNumber (PosInt 0)), (''alt'', JString ''offline'')])
          else Inl e)"

end
