(* ===== verification/Status_Properties.thy ===== *)
theory Status_Properties
  imports Status_View Proxy
begin

text \<open>
  What the status view shows: the availability it reports is the one the router decides by, an
  estimate whose bounds differ is shown as two different amounts, and the texts keep their widths.
\<close>

section \<open>Stored deadlines\<close>

text \<open>
  SQLite reads a timestamp with the precision of a millisecond, chrono with that of a nanosecond:
  the two agree on whether a deadline has passed unless it falls in the very millisecond of the
  clock.  \<open>jd_millis\<close> is the millisecond of a time, counted from the start of the Julian days.
\<close>

definition jd_millis :: "datetime \<Rightarrow> int" where
  "jd_millis n = n div 1000000 + 210866760000000"

definition deadline_read :: "upstream_io \<Rightarrow> instant \<Rightarrow> string \<Rightarrow> bool" where
  "deadline_read io t s \<longleftrightarrow>
     jd (io_sqlite io) s = Some (of_int (jd_millis (stamp io s)) / 86400000) \<and> jd_millis (stamp io s) \<noteq> int t"

definition deadlines_read :: "upstream_io \<Rightarrow> instant \<Rightarrow> db \<Rightarrow> bool" where
  "deadlines_read io t d \<longleftrightarrow>
     jd_millis (clock_of io t) = int t
     \<and> (\<forall>w \<in> set (t_windows d). \<forall>s. w_reset_at w = Some s \<longrightarrow> deadline_read io t s)
     \<and> (\<forall>r \<in> set (t_runtime d). \<forall>s. rt_cooldown_until r = Some s \<longrightarrow> deadline_read io t s)"

lemma deadline_day:
  assumes "deadline_read io t s" "jd_millis (clock_of io t) = int t"
  obtains x where "jd (io_sqlite io) s = Some x" "now_jd t < x \<longleftrightarrow> clock_of io t < stamp io s"
    "x \<le> now_jd t \<longleftrightarrow> stamp io s \<le> clock_of io t"
proof -
  let ?m = "jd_millis (stamp io s)"
  have "clock_of io t < stamp io s \<longleftrightarrow> int t < ?m"
    using assms zdiv_mono1 [of "clock_of io t" "stamp io s" 1000000] zdiv_mono1 [of "stamp io s" "clock_of io t" 1000000]
    unfolding deadline_read_def jd_millis_def by linarith
  moreover have "now_jd t < of_int ?m / 86400000 \<longleftrightarrow> int t < ?m"
    unfolding now_jd_def by (simp add: field_simps) (metis of_int_less_iff of_int_of_nat_eq)
  ultimately show thesis
    using assms(1) by (intro that [of "of_int ?m / 86400000"]) (auto simp: deadline_read_def not_less [symmetric])
qed

section \<open>Availability\<close>

lemma blocks_iff:
  assumes "deadlines_read io t d" "w \<in> set (t_windows d)" "w_quota_key w = ''codex''"
  shows "window_blocks (clock_of io t) (window_status_of io samples now w) \<longleftrightarrow> window_exhausted (io_sqlite io) (now_jd t) w"
proof (cases "w_reset_at w")
  case None
  then show ?thesis using assms(3) by (simp add: window_blocks_def window_status_of_def Let_def window_exhausted_def)
next
  case (Some s)
  with assms obtain x where "jd (io_sqlite io) s = Some x" "now_jd t < x \<longleftrightarrow> clock_of io t < stamp io s"
    unfolding deadlines_read_def by (metis deadline_day)
  then show ?thesis
    using assms(3) Some by (simp add: window_blocks_def window_status_of_def Let_def window_exhausted_def)
qed

lemma cooled_iff:
  assumes "deadlines_read io t d" "r \<in> set (t_runtime d)"
  shows "(case map_option (stamp io) (rt_cooldown_until r) of None \<Rightarrow> True | Some x \<Rightarrow> x \<le> clock_of io t)
     \<longleftrightarrow> cooled_down (io_sqlite io) (now_jd t) r"
proof (cases "rt_cooldown_until r")
  case (Some s)
  with assms obtain x where "jd (io_sqlite io) s = Some x" "x \<le> now_jd t \<longleftrightarrow> stamp io s \<le> clock_of io t"
    unfolding deadlines_read_def by (metis deadline_day)
  with Some show ?thesis by (simp add: cooled_down_def jd_le_def)
qed (simp add: cooled_down_def)

definition row_of :: "upstream_io \<Rightarrow> (usage_window \<Rightarrow> db) \<Rightarrow> datetime \<Rightarrow> usage_window list \<Rightarrow> account_summary \<Rightarrow> bool" where
  "row_of io samples now ws a \<longleftrightarrow>
     sum_status a = ''active''
     \<and> (case map_option (stamp io) (sum_cooldown_until a) of None \<Rightarrow> True | Some x \<Rightarrow> x \<le> now)
     \<and> \<not> (\<exists>w \<in> set ws. window_blocks now (window_status_of io samples now w))"

lemma account_statuses_ids: "map as_id (account_statuses io samples now chosen i f as) = map sum_id as"
  by (induction as arbitrary: i f) (simp_all add: Let_def to_account_status_def)

lemma account_statuses_rows:
  "distinct (map sum_id as) \<Longrightarrow> x \<in> set (account_statuses io samples now chosen i f as)
   \<Longrightarrow> \<exists>a \<in> set as. as_id x = sum_id a \<and> (as_available x \<longleftrightarrow> row_of io samples now (f (sum_id a)) a)"
proof (induction as arbitrary: i f)
  case (Cons a as)
  consider (head) "as_id x = sum_id a \<and> (as_available x \<longleftrightarrow> row_of io samples now (f (sum_id a)) a)"
    | (tail) "x \<in> set (account_statuses io samples now chosen (i + 1) (f(sum_id a := [])) as)"
    using Cons.prems(2) by (auto simp: Let_def to_account_status_def row_of_def list_ex_iff)
  then show ?case
  proof cases
    case head
    then show ?thesis by auto
  next
    case tail
    with Cons.IH Cons.prems(1) obtain b where b: "b \<in> set as" "as_id x = sum_id b"
      "as_available x \<longleftrightarrow> row_of io samples now ((f(sum_id a := [])) (sum_id b)) b" by fastforce
    moreover have "sum_id a \<notin> sum_id ` set as" using Cons.prems(1) by simp
    ultimately have "sum_id b \<noteq> sum_id a" by (metis imageI)
    with b show ?thesis by auto
  qed
qed simp

lemma listed_accounts:
  "sum_id (summary_of d a) = acc_id a" "sum_status (summary_of d a) = acc_status a"
  "sum_cooldown_until (summary_of d a) = Option.bind (get_runtime (acc_id a) d) rt_cooldown_until"
  by (simp_all add: summary_of_def Let_def)

lemma listed_distinct: "db_ok d \<Longrightarrow> distinct (map sum_id (list_accounts d))"
  unfolding db_ok_def keys_ok_def list_accounts_def map_map
  by (simp add: comp_def listed_accounts distinct_map inj_on_def)

lemma runtime_of:
  assumes "db_ok d" "a \<in> set (t_accounts d)"
  shows "\<exists>r. get_runtime (acc_id a) d = Some r"
proof -
  from assms have "acc_id a \<in> rt_account ` set (t_runtime d)"
    by (auto simp: db_ok_def runtime_total_def account_ids_def)
  then show ?thesis by (cases "get_runtime (acc_id a) d") (auto simp: tbl_find_def find_None_iff)
qed

lemma row_eligible_iff:
  assumes ok: "db_ok d" and read: "deadlines_read io t d" and a: "a \<in> set (t_accounts d)"
  shows "row_of io samples (clock_of io t) (filter (\<lambda>w. w_account w = acc_id a) (list_usage_windows d)) (summary_of d a)
     \<longleftrightarrow> eligible (io_sqlite io) (now_jd t) d (acc_id a)"
proof -
  obtain r where r: "get_runtime (acc_id a) d = Some r" using runtime_of [OF ok a] by blast
  have w: "(\<exists>w \<in> set (t_windows d). w_account w = acc_id a \<and> window_blocks (clock_of io t) (window_status_of io samples (clock_of io t) w))
      \<longleftrightarrow> \<not> quota_free (io_sqlite io) (now_jd t) d (acc_id a)"
    using blocks_iff [OF read, of _ samples "clock_of io t"]
    by (auto simp: quota_free_def codex_windows_def list_ex_iff) (auto simp: window_blocks_def window_status_of_def Let_def)
  have "eligible (io_sqlite io) (now_jd t) d (acc_id a) \<longleftrightarrow> row_eligible (io_sqlite io) (now_jd t) d (a, r)"
    using db_ok_find_account [OF ok a] r by (simp add: eligible_def)
  then show ?thesis
    using cooled_iff [OF read] find_runtime_in [OF r] w r
    by (auto simp: row_of_def listed_accounts list_usage_windows_def row_eligible_def)
qed

lemma selected_error: "selected_account q dec d aid reason \<noteq> Inl no_eligible"
proof -
  have bind: "app_bind r f = Inl e \<longleftrightarrow> r = Inl e \<or> (\<exists>x. r = Inr x \<and> f x = Inl e)"
    for r :: "app_error + 'x" and f :: "'x \<Rightarrow> app_error + 'y" and e
    by (cases r) auto
  have conv: "from_anyhow r \<noteq> Inl no_eligible" for r :: "string + string" by (cases r) (simp_all add: no_eligible_def)
  show ?thesis
    by (cases "get_account aid d") (simp_all add: selected_account_def bind conv [unfolded no_eligible_def] no_eligible_def account_not_found_def)
qed

lemma selection_refused:
  assumes "db_ok d"
  shows "select_account_for_request q dec sel now affinity {} st interval d = (Inl no_eligible, d)
     \<longleftrightarrow> \<not> (\<exists>aid. eligible q (text_day q (chrono_text q sel)) d aid)"
proof -
  have other: "finish_selection q dec now d' aid reason \<noteq> (Inl no_eligible, d)" for d' aid reason
    using selected_error [of q dec d' aid reason] by (auto simp: finish_selection_def split: sum.splits)
  show ?thesis
  proof (cases rule: select_cases [of q sel st interval "{}" d dec now affinity])
    case none
    with smart_candidate_None [OF assms] show ?thesis by auto
  next
    case (smart aid)
    with smart_candidate_Some [OF smart(1) assms] other show ?thesis by auto
  next
    case (sticky key aid)
    with pinned_eligible [OF sticky(2) assms] other show ?thesis by auto
  qed
qed

text \<open>
  C25: the status page and the router agree.  Read at one instant from one store, an account is shown
  as available exactly when the router's queries hold it eligible, and the pool as healthy exactly
  when a request that comes in is not turned away for want of an account.
\<close>

theorem status_agrees_with_router:
  assumes "db_ok d" "sqlite_ok (io_sqlite io)" "instant_ok t" "deadlines_read io t d"
    and built: "build_status io c t d d d samples = Some p"
  shows "map as_id (ps_accounts p) = map acc_id (sort_key acc_created_at (t_accounts d))
     \<and> (\<forall>x \<in> set (ps_accounts p). as_available x \<longleftrightarrow> eligible (io_sqlite io) (now_jd t) d (as_id x))
     \<and> (ps_healthy p \<longleftrightarrow>
          select_account_for_request (io_sqlite io) dec t now affinity {} st interval d \<noteq> (Inl no_eligible, d))"
proof -
  let ?q = "io_sqlite io" and ?f = "\<lambda>i. filter (\<lambda>w. w_account w = i) (list_usage_windows d)"
  have p: "\<exists>chosen. ps_accounts p = account_statuses io samples (clock_of io t) chosen 0 ?f (list_accounts d)"
    "ps_healthy p \<longleftrightarrow> (\<exists>x \<in> set (ps_accounts p). as_available x)"
    using built by (auto simp: build_status_def Let_def pool_status_of_def filter_empty_conv)
  then have ids: "map as_id (ps_accounts p) = map acc_id (sort_key acc_created_at (t_accounts d))"
    by (auto simp: account_statuses_ids list_accounts_def listed_accounts)
  have shown: "as_available x \<longleftrightarrow> eligible ?q (now_jd t) d (as_id x)" if x: "x \<in> set (ps_accounts p)" for x
  proof -
    from x p(1) obtain a where "a \<in> set (list_accounts d)" "as_id x = sum_id a"
      "as_available x \<longleftrightarrow> row_of io samples (clock_of io t) (?f (sum_id a)) a"
      using account_statuses_rows [OF listed_distinct [OF assms(1)]] by metis
    moreover from this obtain b where "b \<in> set (t_accounts d)" "a = summary_of d b" by (auto simp: list_accounts_def)
    ultimately show ?thesis using row_eligible_iff [OF assms(1,4)] by (simp add: listed_accounts)
  qed
  have "text_day ?q (chrono_text ?q t) = now_jd t" using assms(2,3) by (simp add: sqlite_ok_def text_day_def)
  moreover have "aid \<in> set (map as_id (ps_accounts p))" if "eligible ?q (now_jd t) d aid" for aid
    using that unfolding ids by (auto elim!: eligibleE dest: find_account_in)
  then have "(\<exists>aid. eligible ?q (now_jd t) d aid) \<longleftrightarrow> (\<exists>x \<in> set (ps_accounts p). as_available x)"
    using shown by fastforce
  ultimately show ?thesis
    using ids shown p(2) unfolding selection_refused [OF assms(1)] by simp
qed

section \<open>Amounts\<close>

lemma fmt_nano: "0 \<le> m \<Longrightarrow> fmt_fixed 9 (of_int m / 1000000000) = decimals 9 (nat m)"
  by (simp add: fmt_fixed_def)

lemma usd_texts_differ:
  assumes "0 \<le> m" "0 \<le> n" "m \<noteq> n"
  shows "''$'' @ fmt_fixed 9 (of_int m / 1000000000) \<noteq> ''$'' @ fmt_fixed 9 (of_int n / 1000000000)"
  using assms decimals_inject [of 9 "nat m" "nat n"] by (auto simp: fmt_nano)

text \<open>
  An estimate with two different bounds is shown as two different amounts, however close the
  bounds are; one with equal bounds as a single amount.
\<close>

lemma usd_estimate_keeps_bounds_apart:
  "if max m 0 = max n 0
   then format_usd_estimate (nano_usd_to_usd m) (nano_usd_to_usd n)
          = utf8 [0xE2, 0x89, 0x88] @ format_usd (nano_usd_to_usd m)
   else (\<exists>lower upper. format_usd_estimate (nano_usd_to_usd m) (nano_usd_to_usd n) = usd_range lower upper \<and> lower \<noteq> upper)"
proof -
  let ?l = "nano_usd_to_usd m" and ?u = "nano_usd_to_usd n"
  have pos [simp]: "max ?l 0 = ?l" "max ?u 0 = ?u" by (simp_all add: nano_usd_to_usd_def)
  have same: "?l = ?u \<longleftrightarrow> max m 0 = max n 0" by (simp add: nano_usd_to_usd_def)
  show ?thesis
  proof (cases "max m 0 = max n 0")
    case False
    let ?P = "\<lambda>k. ''$'' @ fmt_fixed k ?l \<noteq> ''$'' @ fmt_fixed k ?u"
    have "?P 9" using False usd_texts_differ [of "max m 0" "max n 0"] by (simp add: nano_usd_to_usd_def)
    then have "List.find ?P [2..<10] \<noteq> None" unfolding find_None_iff by (auto intro!: exI [of _ 9])
    then obtain k where k: "List.find ?P [2..<10] = Some k" by blast
    then have "?P k" by (auto simp only: find_Some_iff)
    with False k show ?thesis
      unfolding format_usd_estimate_def Let_def pos same by auto
  qed (simp add: format_usd_estimate_def same)
qed

section \<open>Widths\<close>

lemma usage_bar_width: "count_chars (usage_bar used) = 10"
proof -
  let ?x = "min 100 (max 0 used) / 10"
  have "round_away ?x \<le> 10" using round_away_near [of ?x] by linarith
  moreover have "count_chars (concat (replicate n s)) = n * count_chars s" for n s
    by (induction n) (simp_all add: count_chars_def)
  ultimately show ?thesis
    by (simp add: usage_bar_def Let_def) (simp add: count_chars_def continues_def utf8_def byte_def)
qed

lemma one_line_width: "count_chars (one_line v n) \<le> n + 1"
proof -
  have "count_chars ellipsis = 1" by (simp add: count_chars_def ellipsis_def utf8_def continues_def byte_def)
  then show ?thesis
    using count_take_chars [of n "join '' '' (split_words [] v)"] by (simp add: one_line_def Let_def)
qed

section \<open>An exhausted pool\<close>

text \<open>The only account has used up its Codex quota, which resets a millisecond from now.\<close>

definition status_io :: upstream_io where
  "status_io = sample_io\<lparr>stamp := \<lambda>s. (int (length s) - 210866760000000) * 1000000,
     clock_of := \<lambda>t. (int t - 210866760000000) * 1000000\<rparr>"

definition full_window :: usage_window where
  "full_window = \<lparr>w_account = 7, w_quota_key = ''codex'', w_quota_name = ''Codex'', w_source_slot = ''primary'',
     w_kind = ''5h'', w_used_percent = 100, w_window_seconds = Some 18000,
     w_reset_at = Some (unary 210866760000001), w_fetched_at = unary 210866759000000\<rparr>"

definition full_db :: db where
  "full_db = sample_db\<lparr>t_windows := [full_window]\<rparr>"

lemma full_db_ok: "db_ok full_db"
  using sample_db_ok unfolding db_ok_def keys_ok_def foreign_keys_ok_def runtime_total_def full_db_def
  by (simp add: account_ids_def sample_db_fields full_window_def)

lemma full_deadlines: "deadlines_read status_io 210866760000000 full_db"
  by (simp add: deadlines_read_def deadline_read_def full_db_def full_window_def status_io_def sample_io_def sample_sqlite_def
      sample_db_fields new_runtime_row_def jd_millis_def unary_def)

lemma status_agrees_with_router_witness:
  "\<exists>p. build_status status_io sample_config 210866760000000 full_db full_db full_db (\<lambda>_. full_db) = Some p
     \<and> \<not> ps_healthy p
     \<and> select_account_for_request sample_sqlite Inr 210866760000000 210866760000000 None {} settings_default 60 full_db
         = (Inl no_eligible, full_db)"
proof -
  let ?t = "210866760000000 :: nat"
  obtain p where p: "build_status status_io sample_config ?t full_db full_db full_db (\<lambda>_. full_db) = Some p"
    by (simp add: build_status_def Let_def stale_after_def sample_config_def i64_simps)
  have q: "io_sqlite status_io = sample_sqlite" by (simp add: status_io_def sample_io_def)
  have none: "\<not> eligible sample_sqlite (text_day sample_sqlite (chrono_text sample_sqlite ?t)) full_db aid" for aid
    by (simp add: eligible_def row_eligible_def quota_free_def codex_windows_def full_db_def full_window_def
        sample_db_fields window_exhausted_def sample_sqlite_def text_day_def unary_def split: option.split)
  have refused: "select_account_for_request sample_sqlite Inr ?t ?t None {} settings_default 60 full_db = (Inl no_eligible, full_db)"
    unfolding selection_refused [OF full_db_ok] using none by simp
  have "instant_ok ?t" by (simp add: instant_ok_def)
  from status_agrees_with_router [OF full_db_ok _ this full_deadlines p, where affinity = None and st = settings_default and interval = 60
      and dec = Inr and now = ?t] refused p
  show ?thesis by (auto simp: q sample_sqlite_ok)
qed

end
