(* ===== verification/Startup.thy ===== *)
theory Startup
  imports Config Request_Log
begin

text \<open>
  How the daemon comes up (\<open>src/main.rs\<close>, \<open>TokenCrypto::load_or_create\<close> of \<open>src/crypto.rs\<close>, the path of
  the database in \<open>src/db.rs\<close>): the key file, the order of the steps of \<open>serve\<close> and \<open>migrate\<close>, and what
  a step that fails leaves behind.  The file system, the socket and the migrations are parameters.
\<close>

section \<open>The key file\<close>

text \<open>
  The failures of the file system at one start: creating the directory, reading the file, changing its
  mode; a write that fails leaves some part of the text.  A file is its content or missing.
\<close>

record key_fs =
  kf_mkdir :: "string option"
  kf_read :: "string option"
  kf_write :: "(string \<times> string option) option"
  kf_chmod :: "string option"

definition load_or_create ::
  "cipher_suite \<Rightarrow> key_fs \<Rightarrow> string \<Rightarrow> string option \<Rightarrow> string any_result \<times> string option" where
  "load_or_create cs fs random file =
     (case kf_mkdir fs of
        Some e \<Rightarrow> (Inl e, file)
      | None \<Rightarrow> (case file of
          Some raw \<Rightarrow> (case kf_read fs of Some e \<Rightarrow> (Inl e, file) | None \<Rightarrow> (decode_key cs (trim raw), file))
        | None \<Rightarrow> (case kf_write fs of
            Some (e, left) \<Rightarrow> (Inl e, left)
          | None \<Rightarrow> (let file' = Some (b64_encode cs random)
                     in case kf_chmod fs of Some e \<Rightarrow> (Inl e, file') | None \<Rightarrow> (Inr random, file')))))"

section \<open>The database\<close>

text \<open>An absolute path replaces the path it is joined to.\<close>

definition join_any :: "string \<Rightarrow> string \<Rightarrow> string" where
  "join_any base rel = (if starts_with rel ''/'' then rel else join_path base rel)"

definition expand_home_in_sqlite_url :: "environment \<Rightarrow> string \<Rightarrow> string app_result" where
  "expand_home_in_sqlite_url env url =
     (case or_else (strip_prefix ''sqlite://~/'' url) (strip_prefix ''sqlite:~/'' url) of
        None \<Rightarrow> Inr url
      | Some rel \<Rightarrow> (case env ''HOME'' of
          None \<Rightarrow> Inl (Internal ''HOME is not set; cannot expand SQLite path'')
        | Some home \<Rightarrow> Inr (''sqlite://'' @ join_any home rel)))"

section \<open>The steps of a start\<close>

text \<open>
  \<open>bo_address host port\<close> tells whether the address is a loopback one, \<open>None\<close> when it does not parse;
  \<open>bo_open\<close> is the error of opening the database, \<open>bo_migrate\<close> runs the migrations, \<open>bo_bind\<close> is the
  error of binding the listener.
\<close>

record boot_io =
  bo_suite :: cipher_suite
  bo_env :: environment
  bo_files :: key_fs
  bo_random :: string
  bo_address :: "string \<Rightarrow> nat \<Rightarrow> bool option"
  bo_open :: "string \<Rightarrow> string option"
  bo_migrate :: "db \<Rightarrow> unit any_result \<times> db"
  bo_bind :: "string \<Rightarrow> nat \<Rightarrow> string option"

definition open_store :: "boot_io \<Rightarrow> config \<Rightarrow> unit any_result" where
  "open_store io c =
     (case expand_home_in_sqlite_url (bo_env io) (cfg_database_url c) of
        Inl e \<Rightarrow> Inl (error_text e)
      | Inr url \<Rightarrow> (case bo_open io url of Some e \<Rightarrow> Inl e | None \<Rightarrow> Inr ()))"

text \<open>The key with which the daemon serves, or the error it ends with; the key file and the store it
  leaves.\<close>

definition serve_start :: "boot_io \<Rightarrow> config \<Rightarrow> string option \<times> db \<Rightarrow> string any_result \<times> string option \<times> db" where
  "serve_start io c = (\<lambda>(file, d).
     (case bo_address io (cfg_host c) (cfg_port c) of
        None \<Rightarrow> (Inl (''invalid listen address '' @ cfg_host c @ '':'' @ show_nat (cfg_port c)), file, d)
      | Some loopback \<Rightarrow> (case load_or_create (bo_suite io) (bo_files io) (bo_random io) file of
          (Inl e, file') \<Rightarrow> (Inl e, file', d)
        | (Inr key, file') \<Rightarrow> (case open_store io c of
            Inl e \<Rightarrow> (Inl e, file', d)
          | Inr _ \<Rightarrow> (case bo_migrate io d of
              (Inl e, d') \<Rightarrow> (Inl e, file', d')
            | (Inr _, d') \<Rightarrow> (case listen_guard (\<lambda>_ _. loopback) c of
                Inl e \<Rightarrow> (Inl e, file', reset_inflight d')
              | Inr _ \<Rightarrow> (case bo_bind io (cfg_host c) (cfg_port c) of
                  Some e \<Rightarrow> (Inl e, file', reset_inflight d')
                | None \<Rightarrow> (Inr key, file', reset_inflight d'))))))))"

definition migrate_command :: "boot_io \<Rightarrow> db \<Rightarrow> string any_result \<times> db" where
  "migrate_command io d =
     (case from_env (bo_env io) of
        Inl e \<Rightarrow> (Inl e, d)
      | Inr c \<Rightarrow> (case open_store io c of
          Inl e \<Rightarrow> (Inl e, d)
        | Inr _ \<Rightarrow> (case bo_migrate io d of
            (Inl e, d') \<Rightarrow> (Inl e, d')
          | (Inr _, d') \<Rightarrow> (case backfill_api_costs d' of
              (Inl e, d2) \<Rightarrow> (Inl (error_text e), d2)
            | (Inr _, d2) \<Rightarrow> (Inr ''migrations applied'', reset_inflight d2)))))"

section \<open>What a start guarantees\<close>

lemma key_file_kept: "snd (load_or_create cs fs random (Some raw)) = Some raw"
  by (simp add: load_or_create_def split: option.splits)

text \<open>What the code relies on of base64 beyond its round trip: the text has no white space to trim.\<close>

definition key_text_ok :: "cipher_suite \<Rightarrow> bool" where
  "key_text_ok cs \<longleftrightarrow> (\<forall>x. trim (b64_encode cs x) = b64_encode cs x)"

lemma decode_key_length: "decode_key cs raw = Inr key \<Longrightarrow> length key = 32"
  by (auto simp: decode_key_def split: if_splits)

lemma decode_encoded:
  assumes "suite_ok cs" "key_text_ok cs" "length key = 32"
  shows "decode_key cs (trim (b64_encode cs key)) = Inr key"
proof -
  have "b64_decode cs (b64_encode cs key) = Some key" "trim (b64_encode cs key) = b64_encode cs key"
    using assms(1,2) unfolding suite_ok_def key_text_ok_def by blast+
  then show ?thesis using assms(3) by (simp add: decode_key_def or_else_def)
qed

lemma loaded_key:
  assumes "load_or_create cs fs random file = (Inr key, file')"
  obtains raw where "file' = Some raw" "decode_key cs (trim raw) = Inr key"
  | "file' = Some (b64_encode cs random)" "key = random"
proof (cases "kf_mkdir fs")
  case None
  show thesis
  proof (cases "file")
    case (Some raw)
    with assms None have "file' = Some raw \<and> decode_key cs (trim raw) = Inr key"
      by (cases "kf_read fs") (simp_all add: load_or_create_def)
    then show thesis using that(1) by blast
  next
    case missing: None
    with assms None have "file' = Some (b64_encode cs random) \<and> key = random"
      by (cases "kf_write fs"; cases "kf_chmod fs") (auto simp: load_or_create_def)
    then show thesis using that(2) by blast
  qed
qed (use assms in \<open>simp add: load_or_create_def\<close>)

lemma key_read_again:
  assumes "suite_ok cs" "key_text_ok cs" "length random = 32"
    and "load_or_create cs fs random file = (Inr key, file')"
    and "kf_mkdir fs' = None" "kf_read fs' = None"
  shows "load_or_create cs fs' random' file' = (Inr key, file') \<and> length key = 32"
  using assms(4)
proof (cases rule: loaded_key)
  case (1 raw)
  then show ?thesis using assms(5,6) decode_key_length by (simp add: load_or_create_def)
next
  case 2
  then show ?thesis using assms(3,5,6) decode_encoded [OF assms(1,2,3)] by (simp add: load_or_create_def)
qed

text \<open>
  C33: tokens survive a restart.  Whatever the key file held at the first start that succeeded, every
  later start that can read the file serves with the same 32-byte key, leaves the file as it is and
  decrypts each token the earlier daemon stored.
\<close>

theorem tokens_survive_restart:
  assumes cs: "suite_ok cs" "key_text_ok cs" and random: "length random = 32"
    and first: "load_or_create cs fs random file = (Inr key, file')"
    and stored: "length nonce = 12" "utf8_valid cs token" "encrypt cs key nonce token = Inr stored"
    and files: "kf_mkdir fs' = None" "kf_read fs' = None"
  shows "\<exists>key'. load_or_create cs fs' random' file' = (Inr key', file') \<and> length key' = 32
     \<and> decrypt cs key' stored = Inr token"
  using key_read_again [OF cs random first files] decrypt_encrypt [OF cs(1) stored] by blast

lemma started_daemon_guarded:
  assumes "serve_start io c (file, d) = (Inr key, file', d')"
  shows "(bo_address io (cfg_host c) (cfg_port c) = Some True \<or> cfg_admin_token c \<noteq> None \<and> cfg_proxy_api_token c \<noteq> None)
     \<and> (\<forall>r \<in> set (t_runtime d'). rt_inflight r = 0)"
  using assms
  by (auto simp: serve_start_def listen_guard_def reset_inflight_def split: option.splits sum.splits prod.splits if_splits)

text \<open>A start that is refused for its address, or finds it taken, has already cleared the counters of the
  requests in flight.\<close>

lemma failed_bind_resets:
  assumes "bo_address io (cfg_host c) (cfg_port c) = Some loopback"
    and "load_or_create (bo_suite io) (bo_files io) (bo_random io) file = (Inr key, file')"
    and "open_store io c = Inr ()" "bo_migrate io d = (Inr (), d)"
    and "bo_bind io (cfg_host c) (cfg_port c) = Some e"
  shows "\<exists>e'. serve_start io c (file, d) = (Inl e', file', reset_inflight d)"
  using assms by (cases "listen_guard (\<lambda>_ _. loopback) c") (simp_all add: serve_start_def)

section \<open>A first start\<close>

lemma letters_bytes: "c \<in> set (letters s) \<Longrightarrow> 65 \<le> byte c \<and> byte c \<le> 80"
proof (induction s)
  case (Cons x s)
  have "byte x div 16 < 16" "byte x mod 16 < 16" using byte_less [of x] by auto
  with Cons show ?case by (auto simp: byte_char)
qed simp

lemma sample_key_text: "key_text_ok sample_suite"
proof -
  have "list_all plain_byte (letters s)" for s
    using letters_bytes by (fastforce simp: list_all_iff plain_byte_def)
  then show ?thesis by (simp add: key_text_ok_def sample_suite_def trim_plain)
qed

definition no_failures :: key_fs where
  "no_failures = \<lparr>kf_mkdir = None, kf_read = None, kf_write = None, kf_chmod = None\<rparr>"

lemma tokens_survive_restart_witness:
  "\<exists>key file stored. load_or_create sample_suite no_failures (replicate 32 CHR ''r'') None = (Inr key, file)
     \<and> encrypt sample_suite key (replicate 12 CHR ''n'') ''token'' = Inr stored
     \<and> (\<exists>key'. load_or_create sample_suite no_failures (replicate 32 CHR ''s'') file = (Inr key', file)
          \<and> decrypt sample_suite key' stored = Inr ''token'')"
proof -
  let ?r = "replicate 32 CHR ''r''"
  have l: "load_or_create sample_suite no_failures ?r None = (Inr ?r, Some (letters ?r))"
    by (simp add: load_or_create_def no_failures_def sample_suite_def)
  obtain stored where e: "encrypt sample_suite ?r (replicate 12 CHR ''n'') ''token'' = Inr stored"
    by (simp add: encrypt_def sample_suite_def)
  have u: "utf8_valid sample_suite ''token''" by (simp add: sample_suite_def)
  from tokens_survive_restart [OF sample_suite_ok sample_key_text _ l _ u e, of no_failures "replicate 32 CHR ''s''"]
  show ?thesis using l e by (auto simp: no_failures_def)
qed

end
