(* ===== verification/Spec2Isabelle.thy ===== *)
theory Spec2Isabelle
  imports App_Error Pricing Settings Registry Auth_File Accounts Routing Session_Properties Request_Log Usage Usage_Store Requests Upstream Store Proxy_Stream Ws_Properties Daemon_Steps Commands Status_Properties Startup
begin

text \<open>
  A verification of \<open>codex-lb-rs\<close>, a daemon that pools several ChatGPT accounts: it accepts requests of
  Codex clients over HTTP and WebSocket, picks an account for each, forwards the request with that
  account's credentials and passes the answer back.  It keeps its state in one SQLite database, keeps a
  registry of live connections in memory, refreshes tokens and quotas in the background, and lets an
  operator move sessions from one account to another.

  \<^bold>\<open>Ground.\<close>  \<open>Prelude\<close> has Rust's checked 64-bit arithmetic and the rule collections, \<open>Rust_Text\<close> and
  \<open>Text_Format\<close> the operations on \<open>str\<close> and the formatting of numbers on UTF-8 bytes, \<open>Json\<close> serde's
  values, \<open>Tables\<close> a SQL table as the list of its rows in rowid order with the locale \<open>keyed_table\<close> for
  upserts, \<open>App_Error\<close> the errors of \<open>src/error.rs\<close> and the \<open>?\<close> operator.

  \<^bold>\<open>The store\<close> (\<open>src/db.rs\<close>, \<open>src/models.rs\<close>, \<open>src/migrations\<close>).  \<open>Database\<close> has one record per row and \<open>db_ok\<close>,
  the keys and foreign keys of the schema; \<open>Settings\<close>, \<open>Accounts\<close>, \<open>Routing\<close>, \<open>Session_Routes\<close>, \<open>Usage_Store\<close>
  and \<open>Request_Log\<close> have one definition per operation, each of which is one transaction.  \<open>Routing\<close> shows
  that a selection hands out an eligible account and takes one lease (locale \<open>lease_pool\<close> of \<open>Leases\<close>,
  interpreted on both ways to take a lease).  \<open>Session_Invariants\<close> and \<open>Session_Properties\<close> show that
  generations only grow, that a stale bind is refused and that an action moves a whole session.
  \<open>Request_Log\<close> shows that the totals of an account follow its log and that the cost backfill ends.
  \<open>Store\<close> joins all operations into the relation \<open>store_step\<close> over the store and the multiset of leases
  that are out, with the invariant of every reachable store.  \<open>Pricing\<close> (\<open>src/pricing.rs\<close>) estimates the
  cost of a request with overflow checks.

  \<^bold>\<open>HTTP\<close> (\<open>src/proxy.rs\<close>, \<open>src/upstream.rs\<close>).  \<open>Requests\<close> reads the keys of a request and builds the request
  that goes upstream, \<open>Proxy\<close> is the loop over accounts, \<open>Capture\<close> and \<open>Stream_Metadata\<close> follow the
  response as it passes, \<open>Proxy_Stream\<close> streams, logs and releases.  The locale \<open>failing_over\<close> holds what
  the loops for responses and for models share; it is interpreted on both.  Shown: every lease comes
  back, a body passes unchanged, a failed attempt is recorded, the streaming detector equals a search
  of the whole body.

  \<^bold>\<open>WebSocket\<close> (\<open>src/websocket.rs\<close>, \<open>src/session_registry.rs\<close>).  \<open>Ws_Connect\<close> opens a connection, \<open>Ws_Bridge\<close>
  is the \<open>select!\<close> loop as a machine over its events, \<open>Registry\<close> the live connections and their signals.
  \<open>Ws_Bridge\<close> and \<open>Ws_Properties\<close> show that turns are logged and leases returned exactly once, that
  messages pass in order, and that a moved session is not served.

  \<^bold>\<open>The daemon\<close> (\<open>src/main.rs\<close>, \<open>src/config.rs\<close>, \<open>src/crypto.rs\<close>, \<open>src/scheduler.rs\<close>, \<open>src/admin/mod.rs\<close>).  \<open>Config\<close>
  reads the environment and encrypts tokens, \<open>Startup\<close> is the key file and the order of the steps of
  \<open>serve\<close> and \<open>migrate\<close>, \<open>Auth_File\<close> (\<open>src/auth_file.rs\<close>) and \<open>Admin\<close> import credentials and act on
  sessions, \<open>Usage\<close> (\<open>src/usage.rs\<close>) and \<open>Upstream\<close> refresh quotas and tokens, \<open>Daemon\<close> is the scheduler.
  \<open>Daemon_Steps\<close> cuts the tasks into their atomic calls of store and registry: \<open>daemon_step\<close> is their
  interleaving, store and registry agree in every reachable state, and the handlers are runs of it.

  \<^bold>\<open>The command line and the status\<close> (\<open>src/cli.rs\<close>, \<open>src/status.rs\<close>).  \<open>Session_Catalog\<close> reads the rollout
  files, \<open>Session_Trees\<close> finds roots and trees, \<open>Session_Tree_Properties\<close> shows that the trees partition
  the consistent sessions, \<open>Commands\<close> has the calls the commands make and shows that an action covers its
  session.  \<open>Status_View\<close> is the overview and the text of the status bar, \<open>Status_Properties\<close> shows that
  what it calls available is what the router picks from.

  \<^bold>\<open>Conventions.\<close>  A string is its UTF-8 bytes; an \<open>i64\<close> is an \<open>int\<close> with the checks or the wrap-around of the
  code; token counters are 64-bit words; a double is its exact value.  A fallible function returns
  \<open>app_error + 'a\<close> or, for \<open>anyhow\<close>, \<open>string + 'a\<close>; a panic is \<open>None\<close>.  Each operation takes the instants at
  which it reads the clock.  A released lease is an entry of a list of spawned tasks that may run in
  any order.  A stream that the client drops stops where the code awaits.

  \<^bold>\<open>Parameters and what is assumed of them.\<close>  SQLite's date functions (\<open>sqlite_ok\<close>: it reads back the
  timestamps the code writes, and their order as text is the order in time, for the years 0000 to
  9999), chrono, the cipher and base64 (\<open>suite_ok\<close>, \<open>key_text_ok\<close>), SHA-256, the JSON and UUID text parsers,
  the replies of the upstream and of the authorization server, random bytes, the file system and the
  iteration order of hash maps.  Each assumption is a named predicate with an instance that satisfies
  it.

  \<^bold>\<open>Bounds.\<close>  No definition has fuel: loops are recursive over their data, or are functions with a proof
  that they end (the backfill, by the number of logs still to price; the walk to a root, by the
  sessions not yet seen; the search of a stream, by its length).  The failover loop is bounded by the
  number of attempts the settings allow, as in the code.

  \<^bold>\<open>Not modelled.\<close>  I/O failures of SQLite other than constraint violations (with them the retries of
  \<open>release_account\<close>), and cancellation inside one call of the store: a call is one atomic step.  The text
  side of serde and of axum's extractors, argument parsing (clap) and printing to the terminal, the
  login process the command line starts, TLS, TCP and the frames of a WebSocket: these are libraries
  or pure I/O, and their results are parameters or events.  Rounding of doubles, file names that are
  not UTF-8, memory and stack limits, the SQL of the migrations (a parameter of \<open>Startup\<close>), tracing
  and the installation of signal handlers.
\<close>

end
